(* ===== verification/Go_Prelude.thy ===== *)
theory Go_Prelude
  imports Main "HOL-Library.Word"
begin

section \<open>Shared vocabulary: the parts of Go the components use\<close>

text \<open>
  The types, standard-library functions and generic lemmas that the component theories share.

  \<^item> A Go \<^verbatim>\<open>string\<close> or \<^verbatim>\<open>[]byte\<close> is a \<^typ>\<open>string\<close>, that is a list of bytes.
  \<^item> \<^verbatim>\<open>time.Time\<close> and \<^verbatim>\<open>time.Duration\<close> are nanosecond counts of type \<^typ>\<open>int\<close>; an operation that
    reads the clock takes the reading as an argument.
  \<^item> \<^verbatim>\<open>strings.ToLower\<close>, \<^verbatim>\<open>strings.TrimSpace\<close>, \<^verbatim>\<open>net.JoinHostPort\<close> and \<^verbatim>\<open>net.SplitHostPort\<close> are written out
    from the behaviour of the standard library. Case mapping and white space are the ASCII
    ones: bytes above 127 are left as they are (host names, header names and ids are ASCII).
  \<^item> An index that Go reports as \<open>-1\<close> is \<^const>\<open>None\<close>.

  The collection \<open>go_simps\<close> gathers the equations the component proofs rewrite with.
\<close>

named_theorems go_simps \<open>equations of the Go standard-library functions\<close>

type_synonym time = int
type_synonym duration = int

abbreviation second :: duration where
  "second \<equiv> 1000000000"

abbreviation millisecond :: duration where
  "millisecond \<equiv> 1000000"

abbreviation minute :: duration where
  "minute \<equiv> 60 * second"

abbreviation hour :: duration where
  "hour \<equiv> 60 * minute"

subsection \<open>Strings\<close>

fun index_byte :: "char \<Rightarrow> string \<Rightarrow> nat option" where
  "index_byte c [] = None"
| "index_byte c (x # xs) = (if x = c then Some 0 else map_option Suc (index_byte c xs))"

definition last_index_byte :: "char \<Rightarrow> string \<Rightarrow> nat option" where
  "last_index_byte c s = map_option (\<lambda>i. length s - 1 - i) (index_byte c (rev s))"

definition has_prefix :: "string \<Rightarrow> string \<Rightarrow> bool" where
  "has_prefix s p \<longleftrightarrow> take (length p) s = p"

definition has_suffix :: "string \<Rightarrow> string \<Rightarrow> bool" where
  "has_suffix s p \<longleftrightarrow> length p \<le> length s \<and> drop (length s - length p) s = p"

definition trim_suffix :: "string \<Rightarrow> string \<Rightarrow> string" where
  "trim_suffix s p = (if has_suffix s p then take (length s - length p) s else s)"

definition is_upper :: "char \<Rightarrow> bool" where
  "is_upper c \<longleftrightarrow> 65 \<le> (of_char c :: nat) \<and> (of_char c :: nat) \<le> 90"

definition is_lower :: "char \<Rightarrow> bool" where
  "is_lower c \<longleftrightarrow> 97 \<le> (of_char c :: nat) \<and> (of_char c :: nat) \<le> 122"

definition is_digit :: "char \<Rightarrow> bool" where
  "is_digit c \<longleftrightarrow> 48 \<le> (of_char c :: nat) \<and> (of_char c :: nat) \<le> 57"

definition lower_char :: "char \<Rightarrow> char" where
  "lower_char c = (if is_upper c then char_of (of_char c + 32 :: nat) else c)"

definition to_lower :: "string \<Rightarrow> string" where
  "to_lower s = map lower_char s"

definition is_space :: "char \<Rightarrow> bool" where
  "is_space c \<longleftrightarrow> (of_char c :: nat) \<in> {9, 10, 11, 12, 13, 32}"

definition trim_space :: "string \<Rightarrow> string" where
  "trim_space s = rev (dropWhile is_space (rev (dropWhile is_space s)))"

lemma index_byte_None [simp]: "index_byte c s = None \<longleftrightarrow> c \<notin> set s"
  by (induction s) auto

lemma index_byte_append [simp]: "c \<notin> set p \<Longrightarrow> index_byte c (p @ c # q) = Some (length p)"
  by (induction p) auto

lemma index_byte_SomeD:
  "index_byte c s = Some i \<Longrightarrow> s = take i s @ c # drop (Suc i) s \<and> c \<notin> set (take i s)"
proof (induction s arbitrary: i)
  case Nil
  then show ?case by simp
next
  case (Cons x xs)
  show ?case
  proof (cases "x = c")
    case True
    with Cons.prems show ?thesis by auto
  next
    case False
    with Cons.prems obtain j where "index_byte c xs = Some j" and "i = Suc j" by auto
    with Cons.IH [of j] False show ?thesis by auto
  qed
qed

lemma last_index_byte_None [simp]: "last_index_byte c s = None \<longleftrightarrow> c \<notin> set s"
  by (simp add: last_index_byte_def)

lemma last_index_byte_append [simp]:
  "c \<notin> set q \<Longrightarrow> last_index_byte c (p @ c # q) = Some (length p)"
  by (simp add: last_index_byte_def)

lemma last_index_byte_SomeD:
  assumes "last_index_byte c s = Some i"
  shows "s = take i s @ c # drop (Suc i) s \<and> c \<notin> set (drop (Suc i) s) \<and> i < length s"
proof -
  from assms obtain j where j: "index_byte c (rev s) = Some j" and i: "i = length s - 1 - j"
    by (auto simp: last_index_byte_def)
  from index_byte_SomeD [OF j] have "rev s = take j (rev s) @ c # drop (Suc j) (rev s)"
    and nin: "c \<notin> set (take j (rev s))" by blast+
  then have "s = rev (drop (Suc j) (rev s)) @ c # rev (take j (rev s))"
    by (metis append_Cons append_Nil append_assoc rev.simps(2) rev_append rev_rev_ident)
  then obtain p q where s: "s = p @ c # q" and q: "c \<notin> set q"
    using nin by (metis set_rev)
  then have "last_index_byte c s = Some (length p)" by simp
  with assms have "i = length p" by simp
  with s q show ?thesis by simp
qed

lemma trim_suffix_append [simp]: "trim_suffix (s @ p) p = s"
  by (simp add: trim_suffix_def has_suffix_def)

lemma trim_suffix_no_suffix: "\<not> has_suffix s p \<Longrightarrow> trim_suffix s p = s"
  by (simp add: trim_suffix_def)

lemma has_prefix_append [simp]: "has_prefix (p @ s) p"
  by (simp add: has_prefix_def)

lemma has_prefix_iff: "has_prefix s p \<longleftrightarrow> (\<exists>t. s = p @ t)"
  by (metis append_eq_conv_conj append_take_drop_id has_prefix_def)

lemma of_char_lower_char:
  "is_upper c \<Longrightarrow> (of_char (lower_char c) :: nat) = of_char c + 32"
  by (simp add: lower_char_def is_upper_def)

lemma lower_char_not_upper: "\<not> is_upper (lower_char c)"
proof (cases "is_upper c")
  case True
  then show ?thesis by (simp add: is_upper_def of_char_lower_char [OF True])
next
  case False
  then show ?thesis by (simp add: lower_char_def)
qed

lemma lower_char_idem [simp]: "lower_char (lower_char c) = lower_char c"
  using lower_char_not_upper [of c] by (simp add: lower_char_def [of "lower_char c"])

lemma to_lower_idem [simp]: "to_lower (to_lower s) = to_lower s"
  by (simp add: to_lower_def comp_def)

lemma to_lower_append: "to_lower (s @ t) = to_lower s @ to_lower t"
  by (simp add: to_lower_def)

lemma length_to_lower [simp]: "length (to_lower s) = length s"
  by (simp add: to_lower_def)

lemma trim_space_idem [simp]: "trim_space (trim_space s) = trim_space s"
proof -
  let ?t = "dropWhile is_space s"
  have r: "trim_space s = rev (dropWhile is_space (rev ?t))" by (simp add: trim_space_def)
  have "dropWhile is_space (trim_space s) = trim_space s"
  proof (cases "trim_space s")
    case Nil
    then show ?thesis by simp
  next
    case (Cons a l)
    from r Cons have "\<exists>u. ?t = trim_space s @ u"
      by (metis rev_append rev_rev_ident takeWhile_dropWhile_id)
    then obtain u where "?t = a # u" using Cons by auto
    then have "\<not> is_space a" by (metis hd_dropWhile list.distinct(1) list.sel(1))
    with Cons show ?thesis by simp
  qed
  then show ?thesis by (simp add: trim_space_def)
qed

subsection \<open>net.JoinHostPort and net.SplitHostPort\<close>

definition join_host_port :: "string \<Rightarrow> string \<Rightarrow> string" where
  "join_host_port host port =
     (if CHR '':'' \<in> set host then ''['' @ host @ '']:'' @ port else host @ '':'' @ port)"

datatype addr_error = MissingPort | TooManyColons | MissingBracket | UnexpectedOpen | UnexpectedClose

definition split_host_port :: "string \<Rightarrow> addr_error + (string \<times> string)" where
  "split_host_port hp =
     (case last_index_byte (CHR '':'') hp of
        None \<Rightarrow> Inl MissingPort
      | Some i \<Rightarrow>
          let tail = (\<lambda>host j k.
                if CHR ''['' \<in> set (drop j hp) then Inl UnexpectedOpen
                else if CHR '']'' \<in> set (drop k hp) then Inl UnexpectedClose
                else Inr (host, drop (i + 1) hp))
          in if take 1 hp = ''['' then
               (case index_byte (CHR '']'') hp of
                  None \<Rightarrow> Inl MissingBracket
                | Some e \<Rightarrow>
                    if e + 1 = length hp then Inl MissingPort
                    else if e + 1 = i then tail (drop 1 (take e hp)) 1 (e + 1)
                    else if hp ! (e + 1) = CHR '':'' then Inl TooManyColons
                    else Inl MissingPort)
             else if CHR '':'' \<in> set (take i hp) then Inl TooManyColons
             else tail (take i hp) 0 0)"

text \<open>Text without the characters that delimit an address: what a host name, an IP literal and a
  port are made of.\<close>

definition bracket_free :: "string \<Rightarrow> bool" where
  "bracket_free s \<longleftrightarrow> CHR ''['' \<notin> set s \<and> CHR '']'' \<notin> set s"

definition port_text :: "string \<Rightarrow> bool" where
  "port_text s \<longleftrightarrow> bracket_free s \<and> CHR '':'' \<notin> set s"

lemma split_plain:
  assumes "bracket_free h" and "CHR '':'' \<notin> set h" and "port_text p"
  shows "split_host_port (h @ '':'' @ p) = Inr (h, p)"
proof -
  have "last_index_byte (CHR '':'') (h @ '':'' @ p) = Some (length h)"
    using assms(3) by (simp add: port_text_def)
  moreover have "take 1 (h @ '':'' @ p) \<noteq> ''[''"
    using assms(1) by (cases h) (auto simp: bracket_free_def)
  ultimately show ?thesis
    using assms by (simp add: split_host_port_def Let_def bracket_free_def port_text_def)
qed

lemma split_bracketed:
  assumes "bracket_free h" and "port_text p"
  shows "split_host_port (''['' @ h @ '']:'' @ p) = Inr (h, p)"
proof -
  have l: "last_index_byte (CHR '':'') ((''['' @ h @ '']'') @ CHR '':'' # p) = Some (length h + 2)"
    using assms(2) by (subst last_index_byte_append) (simp_all add: port_text_def)
  have e: "index_byte (CHR '']'') ((CHR ''['' # h) @ CHR '']'' # ('':'' @ p)) = Some (length h + 1)"
    using assms(1) by (subst index_byte_append) (simp_all add: bracket_free_def)
  show ?thesis
    using l e assms by (simp add: split_host_port_def Let_def bracket_free_def port_text_def)
qed

lemma split_join_host_port [go_simps]:
  "bracket_free h \<Longrightarrow> port_text p \<Longrightarrow> split_host_port (join_host_port h p) = Inr (h, p)"
  by (simp add: join_host_port_def split_plain [simplified] split_bracketed [simplified])

lemma join_host_port_nonempty [simp]: "join_host_port h p \<noteq> []"
  by (simp add: join_host_port_def)

end
