(* ===== verification/Host_Names.thy ===== *)
theory Host_Names
  imports Go_Prelude
begin

section \<open>Host names and one-label wildcards\<close>

text \<open>
  The certificate table (\<^verbatim>\<open>cert/table.go\<close>) and the control plane's registry (\<^verbatim>\<open>edgecp/authz.go\<close>)
  match a host against patterns in the same way: the exact name, then the name with its leftmost
  label replaced by \<open>*\<close>. This theory holds the pattern computation they share and its meaning:
  \<open>covers\<close> is the TLS wildcard relation, stated without the computation.
\<close>

definition wildcard_name :: "string \<Rightarrow> string option" where
  "wildcard_name name =
     (case index_byte (CHR ''.'') name of
        None \<Rightarrow> None
      | Some i \<Rightarrow> Some (''*'' @ drop i name))"

text \<open>A pattern covers a name when it is the name, or \<open>*.rest\<close> for a name \<open>label.rest\<close> whose first
  label has no dot.\<close>

definition covers :: "string \<Rightarrow> string \<Rightarrow> bool" where
  "covers pat name \<longleftrightarrow> pat = name \<or>
     (\<exists>label rest. name = label @ CHR ''.'' # rest \<and> CHR ''.'' \<notin> set label \<and>
        pat = ''*.'' @ rest)"

lemma wildcard_name_iff:
  "wildcard_name name = Some pat \<longleftrightarrow>
     (\<exists>label rest. name = label @ CHR ''.'' # rest \<and> CHR ''.'' \<notin> set label \<and> pat = ''*.'' @ rest)"
proof
  assume "wildcard_name name = Some pat"
  then obtain i where i: "index_byte (CHR ''.'') name = Some i" and p: "pat = ''*'' @ drop i name"
    by (auto simp: wildcard_name_def split: option.splits)
  have n: "name = take i name @ CHR ''.'' # drop (Suc i) name"
    and l: "CHR ''.'' \<notin> set (take i name)"
    using index_byte_SomeD [OF i] by auto
  have "drop i name = CHR ''.'' # drop (Suc i) name"
    using n by (metis append_eq_conv_conj append_take_drop_id same_append_eq)
  with n l p show "\<exists>label rest. name = label @ CHR ''.'' # rest \<and> CHR ''.'' \<notin> set label \<and> pat = ''*.'' @ rest"
    by auto
next
  assume "\<exists>label rest. name = label @ CHR ''.'' # rest \<and> CHR ''.'' \<notin> set label \<and> pat = ''*.'' @ rest"
  then show "wildcard_name name = Some pat" by (auto simp: wildcard_name_def)
qed

lemma covers_iff: "covers pat name \<longleftrightarrow> pat = name \<or> wildcard_name name = Some pat"
  by (simp add: covers_def wildcard_name_iff)

lemma covers_wildcard_eq_length:
  "covers pat name \<Longrightarrow> pat \<noteq> name \<Longrightarrow> \<exists>rest. pat = ''*.'' @ rest \<and> (\<exists>label. name = label @ ''.'' @ rest)"
  by (auto simp: covers_def)

end
