(* ===== verification/Authz.thy ===== *)
theory Authz
  imports Host_Names
begin

section \<open>The control plane's edge registry (edgecp/authz.go)\<close>

text \<open>
  Which bearer token may fetch what. The registry maps a token to its entry (identity, domains,
  disabled flag); every decision goes through \<open>Authz_lookup\<close>, which treats a disabled entry as absent.
  The Go maps are association-free partial maps: the build loops copy entry by entry.
\<close>

record Entry =
  ID :: string
  Domains :: "string list"
  Disabled :: bool

type_synonym Authz = "string \<rightharpoonup> Entry"

definition normalizeDomains :: "string list \<Rightarrow> string list" where
  "normalizeDomains domains = map (\<lambda>d. to_lower (trim_space d)) domains"

definition NewAuthzEntries :: "(string \<rightharpoonup> Entry) \<Rightarrow> Authz" where
  "NewAuthzEntries entries =
     (\<lambda>tok. map_option (\<lambda>e. \<lparr>ID = to_lower (trim_space (ID e)),
                             Domains = normalizeDomains (Domains e),
                             Disabled = Disabled e\<rparr>) (entries tok))"

definition NewAuthz :: "(string \<rightharpoonup> string list) \<Rightarrow> Authz" where
  "NewAuthz tokens =
     NewAuthzEntries (\<lambda>tok. map_option (\<lambda>ds. \<lparr>ID = '''', Domains = normalizeDomains ds, Disabled = False\<rparr>)
                              (tokens tok))"

definition Authz_lookup :: "Authz \<Rightarrow> string \<Rightarrow> Entry option" where
  "Authz_lookup a token =
     (case a token of
        None \<Rightarrow> None
      | Some e \<Rightarrow> if Disabled e then None else Some e)"

definition Known :: "Authz \<Rightarrow> string \<Rightarrow> bool" where
  "Known a token \<longleftrightarrow> Authz_lookup a token \<noteq> None"

definition Allowed :: "Authz \<Rightarrow> string \<Rightarrow> string \<Rightarrow> bool" where
  "Allowed a token host =
     (case Authz_lookup a token of
        None \<Rightarrow> False
      | Some e \<Rightarrow>
          (let name = to_lower (trim_suffix host ''.'')
           in if name = '''' then False
              else if list_ex (\<lambda>d. d = ''*'' \<or> d = name) (Domains e) then True
              else (case wildcard_name name of
                      None \<Rightarrow> False
                    | Some wildcard \<Rightarrow> list_ex (\<lambda>d. d = wildcard) (Domains e))))"

definition Identity :: "Authz \<Rightarrow> string \<Rightarrow> string option" where
  "Identity a token =
     (case Authz_lookup a token of
        None \<Rightarrow> None
      | Some e \<Rightarrow> if ID e = '''' then None else Some (ID e))"

lemmas authz_defs = Authz_lookup_def Known_def Allowed_def Identity_def

lemma Known_iff: "Known a token \<longleftrightarrow> (\<exists>e. a token = Some e \<and> \<not> Disabled e)"
  by (auto simp: Known_def Authz_lookup_def split: option.splits)

lemma Allowed_Known: "Allowed a token host \<Longrightarrow> Known a token"
  by (auto simp: Allowed_def Known_def split: option.splits)

lemma Identity_Known: "Identity a token = Some i \<Longrightarrow> Known a token"
  by (auto simp: Identity_def Known_def split: option.splits)

lemma Disabled_NewAuthzEntries:
  "Known (NewAuthzEntries es) token \<longleftrightarrow> (\<exists>e. es token = Some e \<and> \<not> Disabled e)"
  by (auto simp: Known_iff NewAuthzEntries_def)

subsection \<open>Properties\<close>

text \<open>The registry authorises exactly what it grants: a token may use a host if and only if the
  token has an entry that is not disabled, the host (lower-cased, dot-trimmed) is not empty, and one
  of the entry's domains is the bare star or covers the host as a TLS wildcard. In particular a
  disabled or absent token is allowed nothing.\<close>

theorem Allowed_iff:
  "Allowed a token host \<longleftrightarrow>
     (\<exists>e. a token = Some e \<and> \<not> Disabled e \<and> to_lower (trim_suffix host ''.'') \<noteq> '''' \<and>
        (\<exists>d \<in> set (Domains e). d = ''*'' \<or> covers d (to_lower (trim_suffix host ''.''))))"
proof (cases "Authz_lookup a token")
  case None
  then show ?thesis by (auto simp: Allowed_def Authz_lookup_def split: option.splits if_splits)
next
  case (Some e)
  then have e: "a token = Some e" "\<not> Disabled e"
    by (auto simp: Authz_lookup_def split: option.splits if_splits)
  with Some show ?thesis
    by (auto simp: Allowed_def Let_def list_ex_iff covers_iff split: option.splits)
qed

text \<open>Blacklisting is a full lockout: after the registry is rebuilt with a token disabled, that token
  is unknown, has no identity to mint a client certificate with and is allowed no host, whatever its
  grants were; every other token keeps its answers.\<close>

theorem disable_locks_out:
  "let a' = NewAuthzEntries (es(tok \<mapsto> e\<lparr>Disabled := True\<rparr>)); a = NewAuthzEntries es
   in \<not> Known a' tok \<and> Identity a' tok = None \<and> \<not> Allowed a' tok host \<and>
      (tok' = tok \<or>
        (Known a' tok' = Known a tok' \<and> Identity a' tok' = Identity a tok' \<and>
         Allowed a' tok' host = Allowed a tok' host))"
proof -
  let ?a' = "NewAuthzEntries (es(tok \<mapsto> e\<lparr>Disabled := True\<rparr>))"
  have same: "Authz_lookup ?a' tok' = Authz_lookup (NewAuthzEntries es) tok'" if "tok' \<noteq> tok"
    using that by (simp add: Authz_lookup_def NewAuthzEntries_def)
  have "Authz_lookup ?a' tok = None"
    by (simp add: Authz_lookup_def NewAuthzEntries_def)
  then show ?thesis
    using same by (cases "tok' = tok") (simp_all add: Let_def Known_def Identity_def Allowed_def)
qed

end
