(* ===== verification/Purge_Journal.thy ===== *)
theory Purge_Journal
  imports Authz "HOL-Library.Sublist"
begin

section \<open>The control plane's purge journal (edgecp/purgestore.go)\<close>

text \<open>
  The bounded, append-only journal of cache purges. \<open>PurgeStore\<close> keeps the retained records, the
  highest sequence number issued, the smallest retained one and the bound. Sequence numbers are the
  64-bit words of the source. \<open>Add\<close> validates and appends; \<open>Since\<close> answers an edge's poll, or demands
  a flush when the cursor is ahead of the journal or behind the retained window. The HTTP handlers
  \<^verbatim>\<open>handlePurges\<close> and \<^verbatim>\<open>handlePurgeAdmin\<close> of \<^verbatim>\<open>edgecp/server.go\<close> put authorisation in front of both.
  The Prometheus counters the source bumps are left out.
\<close>

type_synonym seqno = "64 word"

definition purgeScopeFlushAll :: string where "purgeScopeFlushAll = ''flush-all''"
definition purgeScopeHost :: string where "purgeScopeHost = ''host''"
definition purgeScopeURL :: string where "purgeScopeURL = ''url''"
definition purgeScopePrefix :: string where "purgeScopePrefix = ''prefix''"
definition purgeScopeTag :: string where "purgeScopeTag = ''tag''"

lemmas scope_defs = purgeScopeFlushAll_def purgeScopeHost_def purgeScopeURL_def
  purgeScopePrefix_def purgeScopeTag_def

record purgeRecord =
  seq :: seqno
  scope :: string
  host :: string
  uri :: string
  tag :: string

record PurgeEntryDTO =
  dto_Seq :: seqno
  dto_Scope :: string
  dto_Host :: string
  dto_URI :: string
  dto_Tag :: string

record PurgeSince =
  Entries :: "PurgeEntryDTO list"
  MaxSeq :: seqno
  FlushRequired :: bool

record PurgeStore =
  entries :: "purgeRecord list"
  lastSeq :: seqno
  minSeq :: seqno
  maxKeep :: nat

definition NewPurgeStore :: "int \<Rightarrow> PurgeStore" where
  "NewPurgeStore maxEntries =
     \<lparr>entries = [], lastSeq = 0, minSeq = 1,
      maxKeep = nat (if maxEntries \<le> 0 then 4096 else maxEntries)\<rparr>"

definition normHostCP :: "string \<Rightarrow> string" where
  "normHostCP h0 =
     (let h = to_lower (trim_space h0)
      in case split_host_port h of Inr (hh, _) \<Rightarrow> hh | Inl _ \<Rightarrow> h)"

text \<open>The validation at the head of \<^verbatim>\<open>Add\<close>: the normalised (scope, host, uri, tag), or a refusal.\<close>

definition purge_args :: "string \<Rightarrow> string \<Rightarrow> string \<Rightarrow> string \<Rightarrow> (string \<times> string \<times> string \<times> string) option" where
  "purge_args sc h u t =
     (let sc = trim_space sc
      in if sc = purgeScopeFlushAll then Some (sc, '''', '''', '''')
         else if sc = purgeScopeHost then
           (let h = normHostCP h in if h = '''' then None else Some (sc, h, '''', ''''))
         else if sc = purgeScopeURL \<or> sc = purgeScopePrefix then
           (let h = normHostCP h; u = trim_space u
            in if h = '''' \<or> \<not> has_prefix u ''/'' then None else Some (sc, h, u, ''''))
         else if sc = purgeScopeTag then
           (let t = trim_space t in if t = '''' then None else Some (sc, '''', '''', t))
         else None)"

definition Add :: "PurgeStore \<Rightarrow> string \<Rightarrow> string \<Rightarrow> string \<Rightarrow> string \<Rightarrow> PurgeStore \<times> (seqno \<times> bool)" where
  "Add s sc h u t =
     (case purge_args sc h u t of
        None \<Rightarrow> (s, (0, False))
      | Some (sc', h', u', t') \<Rightarrow>
          (let n = lastSeq s + 1;
               es = entries s @ [\<lparr>seq = n, scope = sc', host = h', uri = u', tag = t'\<rparr>];
               es = (if length es > maxKeep s then drop (length es - maxKeep s) es else es)
           in (s\<lparr>lastSeq := n, entries := es, minSeq := seq (hd es)\<rparr>, (n, True))))"

definition dto_of :: "purgeRecord \<Rightarrow> PurgeEntryDTO" where
  "dto_of e = \<lparr>dto_Seq = seq e, dto_Scope = scope e, dto_Host = host e, dto_URI = uri e, dto_Tag = tag e\<rparr>"

text \<open>Whether a record reaches an edge: flush-all and tag are host-independent, the rest is gated.\<close>

definition deliverable :: "(string \<Rightarrow> bool) \<Rightarrow> purgeRecord \<Rightarrow> bool" where
  "deliverable allow e \<longleftrightarrow> scope e = purgeScopeFlushAll \<or> scope e = purgeScopeTag \<or> allow (host e)"

definition Since :: "PurgeStore \<Rightarrow> seqno \<Rightarrow> (string \<Rightarrow> bool) \<Rightarrow> PurgeSince" where
  "Since s since allow =
     (if since > lastSeq s then \<lparr>Entries = [], MaxSeq = lastSeq s, FlushRequired = True\<rparr>
      else if since + 1 < minSeq s then \<lparr>Entries = [], MaxSeq = lastSeq s, FlushRequired = True\<rparr>
      else \<lparr>Entries = map dto_of (filter (\<lambda>e. \<not> seq e \<le> since \<and> deliverable allow e) (entries s)),
            MaxSeq = lastSeq s, FlushRequired = False\<rparr>)"

subsection \<open>The HTTP handlers\<close>

datatype 'a http_reply =
    Status_OK 'a
  | Status_Unauthorized
  | Status_NotFound
  | Status_BadRequest

text \<open>The query parameter \<open>since\<close>: absent, unparsable or a number (\<^verbatim>\<open>strconv.ParseUint\<close>).\<close>

datatype since_param = NoSince | BadSince | SinceSeq seqno

definition handlePurges ::
  "Authz \<Rightarrow> PurgeStore option \<Rightarrow> string option \<Rightarrow> since_param \<Rightarrow> PurgeSince http_reply" where
  "handlePurges authz purge token since =
     (case token of
        None \<Rightarrow> Status_Unauthorized
      | Some tok \<Rightarrow>
          if \<not> Known authz tok then Status_Unauthorized
          else (case purge of
                  None \<Rightarrow> Status_NotFound
                | Some s \<Rightarrow>
                    (case since of
                       BadSince \<Rightarrow> Status_BadRequest
                     | NoSince \<Rightarrow> Status_OK (Since s 0 (\<lambda>h. Allowed authz tok h))
                     | SinceSeq n \<Rightarrow> Status_OK (Since s n (\<lambda>h. Allowed authz tok h)))))"

text \<open>\<^verbatim>\<open>handlePurgeAdmin\<close>: \<open>body\<close> is the decoded JSON body, \<^const>\<open>None\<close> when it does not decode.\<close>

definition handlePurgeAdmin ::
  "string \<Rightarrow> PurgeStore option \<Rightarrow> string option \<Rightarrow> (string \<times> string \<times> string \<times> string) option \<Rightarrow>
   PurgeStore option \<times> seqno http_reply" where
  "handlePurgeAdmin adminToken purge token body =
     (case purge of
        None \<Rightarrow> (None, Status_NotFound)
      | Some s \<Rightarrow>
          (case token of
             None \<Rightarrow> (purge, Status_Unauthorized)
           | Some tok \<Rightarrow>
               if adminToken = '''' \<or> tok \<noteq> adminToken then (purge, Status_Unauthorized)
               else (case body of
                       None \<Rightarrow> (purge, Status_BadRequest)
                     | Some (sc, h, u, t) \<Rightarrow>
                         (let (s', (n, ok)) = Add s sc h u t
                          in if ok then (Some s', Status_OK n) else (Some s', Status_BadRequest)))))"

subsection \<open>The journal as a window on the history of purges\<close>

text \<open>
  The abstract state is the list \<open>hist\<close> of every purge ever accepted. \<open>journal_rel hist s\<close> says that
  the store holds its tail: the sequence numbers are the positions in the history, the retained
  records are the last \<open>maxKeep\<close> of them. The 64-bit counter has not wrapped (fewer than \<open>2 ^ 64 - 1\<close>
  purges since the process started).
\<close>

definition journal_rel :: "purgeRecord list \<Rightarrow> PurgeStore \<Rightarrow> bool" where
  "journal_rel hist s \<longleftrightarrow>
     1 \<le> maxKeep s \<and> length hist + 1 < 2 ^ 64 \<and>
     entries s = drop (length hist - maxKeep s) hist \<and>
     lastSeq s = of_nat (length hist) \<and>
     minSeq s = (if hist = [] then 1 else of_nat (length hist - maxKeep s + 1)) \<and>
     (\<forall>i < length hist. seq (hist ! i) = of_nat (i + 1))"

lemma unat_of_nat64: "n < 2 ^ 64 \<Longrightarrow> unat (of_nat n :: seqno) = n"
  by (simp add: unat_of_nat take_bit_nat_eq_self_iff)

lemma of_nat64_less: "m < 2 ^ 64 \<Longrightarrow> n < 2 ^ 64 \<Longrightarrow> (of_nat m :: seqno) < of_nat n \<longleftrightarrow> m < n"
  by (simp add: word_less_nat_alt unat_of_nat64)

lemma of_nat64_le: "m < 2 ^ 64 \<Longrightarrow> n < 2 ^ 64 \<Longrightarrow> (of_nat m :: seqno) \<le> of_nat n \<longleftrightarrow> m \<le> n"
  by (simp add: word_le_nat_alt unat_of_nat64)

lemma unat_suc64: "unat (n :: seqno) + 1 < 2 ^ 64 \<Longrightarrow> unat (n + 1) = unat n + 1"
  by (simp add: unat_word_ariths)

lemma less_suc64: "unat (n :: seqno) + 1 < 2 ^ 64 \<Longrightarrow> m < n + 1 \<longleftrightarrow> m \<le> n"
  unfolding word_less_nat_alt word_le_nat_alt by (simp only: unat_suc64) linarith

lemmas of_nat64 = unat_of_nat64 of_nat64_less of_nat64_le

lemma journal_rel_New: "journal_rel [] (NewPurgeStore n)"
  by (simp add: journal_rel_def NewPurgeStore_def) arith

text \<open>Accepted purges append to the history; refused ones change nothing.\<close>

lemma journal_rel_Add:
  assumes rel: "journal_rel hist s" and room: "length hist + 2 < 2 ^ 64"
    and args: "purge_args sc h u t = Some (sc', h', u', t')"
  shows "\<exists>r. Add s sc h u t = (fst (Add s sc h u t), (seq r, True)) \<and>
    r = \<lparr>seq = of_nat (length hist + 1), scope = sc', host = h', uri = u', tag = t'\<rparr> \<and>
    journal_rel (hist @ [r]) (fst (Add s sc h u t))"
proof -
  let ?n = "length hist" and ?k = "maxKeep s"
  let ?r = "\<lparr>seq = of_nat (?n + 1), scope = sc', host = h', uri = u', tag = t'\<rparr>"
  let ?es = "drop (?n + 1 - ?k) (hist @ [?r])"
  have k: "1 \<le> ?k" and last: "lastSeq s + 1 = of_nat (?n + 1)"
    and es: "entries s = drop (?n - ?k) hist"
    and nth: "\<forall>i < ?n. seq (hist ! i) = of_nat (i + 1)"
    using rel by (auto simp: journal_rel_def)
  have trim: "(if length (entries s @ [?r]) > ?k then drop (length (entries s @ [?r]) - ?k) (entries s @ [?r])
      else entries s @ [?r]) = ?es"
    using k by (cases "?n < ?k") (simp_all add: es Suc_diff_le)
  have nth': "\<forall>i < length (hist @ [?r]). seq ((hist @ [?r]) ! i) = of_nat (i + 1)"
    using nth by (auto simp: nth_append less_Suc_eq)
  have "hd ?es = (hist @ [?r]) ! (?n + 1 - ?k)"
    using k by (intro hd_drop_conv_nth) simp
  then have mn: "seq (hd ?es) = of_nat (?n + 1 - ?k + 1)"
    using nth' k by simp
  have add: "Add s sc h u t =
      (s\<lparr>lastSeq := of_nat (?n + 1), entries := ?es, minSeq := seq (hd ?es)\<rparr>, (of_nat (?n + 1), True))"
    by (simp only: Add_def args option.case prod.case Let_def last trim)
  show ?thesis
    using k room nth' mn by (intro exI [of _ ?r]) (simp add: add journal_rel_def)
qed

lemma Add_refused: "purge_args sc h u t = None \<Longrightarrow> Add s sc h u t = (s, (0, False))"
  by (simp add: Add_def)

lemma hist_seq:
  assumes "journal_rel hist s" and "e \<in> set hist"
  obtains i where "i < length hist" and "e = hist ! i" and "seq e = of_nat (i + 1)"
    and "unat (seq e) = i + 1"
proof -
  from assms(2) obtain i where i: "i < length hist" "e = hist ! i" by (auto simp: in_set_conv_nth)
  with assms(1) have "seq e = of_nat (i + 1)" and "i + 1 < 2 ^ 64" by (auto simp: journal_rel_def)
  with i that show thesis by (metis unat_of_nat64)
qed

lemma trimmed_old:
  assumes "journal_rel hist s" and "e \<in> set (take (length hist - maxKeep s) hist)"
  shows "seq e < minSeq s"
proof -
  from assms(2) obtain i where i: "i < length hist - maxKeep s" "e = hist ! i"
    by (auto simp: in_set_conv_nth)
  then have "seq e = of_nat (i + 1)" and "hist \<noteq> []"
    using assms(1) by (auto simp: journal_rel_def)
  moreover have "minSeq s = of_nat (length hist - maxKeep s + 1)" and "length hist + 1 < 2 ^ 64"
    using assms(1) \<open>hist \<noteq> []\<close> by (auto simp: journal_rel_def)
  ultimately show ?thesis using i by (simp add: of_nat64 del: of_nat_Suc of_nat_add)
qed

lemma Since_MaxSeq [simp]: "MaxSeq (Since s n allow) = lastSeq s"
  by (simp add: Since_def)

lemma Since_flush_iff:
  "FlushRequired (Since s n allow) \<longleftrightarrow> n > lastSeq s \<or> n + 1 < minSeq s"
  by (simp add: Since_def)

lemma Since_entries_window:
  "\<not> FlushRequired (Since s n allow) \<Longrightarrow>
   Entries (Since s n allow) = map dto_of (filter (\<lambda>e. n < seq e \<and> deliverable allow e) (entries s))"
  by (simp add: Since_def not_le split: if_splits)

lemma Since_entries:
  assumes rel: "journal_rel hist s" and nf: "\<not> FlushRequired (Since s n allow)"
  shows "Entries (Since s n allow) = map dto_of (filter (\<lambda>e. n < seq e \<and> deliverable allow e) hist)"
proof -
  let ?d = "length hist - maxKeep s"
  have nf': "n \<le> lastSeq s" "minSeq s \<le> n + 1"
    using nf by (auto simp: Since_flush_iff not_less)
  have "lastSeq s = of_nat (length hist)" and l: "length hist + 1 < 2 ^ 64"
    using rel by (simp_all add: journal_rel_def)
  then have "unat n \<le> length hist"
    using nf'(1) by (simp add: word_le_nat_alt unat_of_nat64)
  then have n1: "unat n + 1 < 2 ^ 64" using l by linarith
  have "\<not> n < seq e" if "e \<in> set (take ?d hist)" for e
    using less_suc64 [OF n1, of "seq e"] less_le_trans [OF trimmed_old [OF rel that] nf'(2)]
    by (simp add: not_less)
  then have old: "filter (\<lambda>e. n < seq e \<and> deliverable allow e) (take ?d hist) = []"
    by (simp add: filter_empty_conv)
  have "filter (\<lambda>e. n < seq e \<and> deliverable allow e) hist =
      filter (\<lambda>e. n < seq e \<and> deliverable allow e) (take ?d hist @ drop ?d hist)"
    by (simp only: append_take_drop_id)
  also have "\<dots> = filter (\<lambda>e. n < seq e \<and> deliverable allow e) (entries s)"
    using rel by (simp only: filter_append old append_Nil journal_rel_def)
  finally show ?thesis
    by (simp only: Since_entries_window [OF nf])
qed

subsection \<open>Properties\<close>

text \<open>C6. The journal answers completely or demands a flush: for a poll at cursor \<open>n\<close>, either the reply
  sets \<^verbatim>\<open>flush_required\<close>, or its entries are, in order, exactly the purges ever accepted with a
  sequence number above \<open>n\<close> that the edge may see, including those the bound has since trimmed from
  memory. A cursor within the journal is asked to flush only if a purge above it was trimmed.\<close>

theorem Since_complete:
  assumes "journal_rel hist s"
  shows "(FlushRequired (Since s n allow) \<or>
      Entries (Since s n allow) = map dto_of (filter (\<lambda>e. n < seq e \<and> deliverable allow e) hist)) \<and>
    (FlushRequired (Since s n allow) \<longrightarrow>
      n > lastSeq s \<or> (\<exists>e \<in> set hist. n < seq e \<and> e \<notin> set (entries s)))"
proof (intro conjI impI)
  show "FlushRequired (Since s n allow) \<or>
      Entries (Since s n allow) = map dto_of (filter (\<lambda>e. n < seq e \<and> deliverable allow e) hist)"
    using Since_entries [OF assms] by blast
next
  assume f: "FlushRequired (Since s n allow)"
  show "n > lastSeq s \<or> (\<exists>e \<in> set hist. n < seq e \<and> e \<notin> set (entries s))"
  proof (cases "n > lastSeq s")
    case False
    let ?d = "length hist - maxKeep s"
    have lt: "n + 1 < minSeq s" using f False by (simp add: Since_flush_iff)
    have l: "length hist + 1 < 2 ^ 64" "lastSeq s = of_nat (length hist)"
      "entries s = drop ?d hist" "\<forall>i < length hist. seq (hist ! i) = of_nat (i + 1)"
      "minSeq s = (if hist = [] then 1 else of_nat (?d + 1))"
      using assms by (auto simp: journal_rel_def)
    have un: "unat n \<le> length hist" using False l(1,2) by (simp add: word_le_nat_alt unat_of_nat64 not_less)
    then have b: "unat n + 1 < 2 ^ 64" using l(1) by linarith
    then have n1: "unat (n + 1) = unat n + 1" by (rule unat_suc64)
    have ne: "hist \<noteq> []"
    proof
      assume "hist = []"
      then have "n + 1 < 1" using lt l(5) by simp
      then show False using n1 unfolding word_less_nat_alt by simp
    qed
    have "n + 1 < of_nat (?d + 1)" using lt l(5) ne by simp
    moreover have "unat (of_nat (?d + 1) :: seqno) = ?d + 1" using l(1) by (intro unat_of_nat64) linarith
    ultimately have "unat n + 1 < ?d + 1" unfolding word_less_nat_alt n1 by metis
    then have i: "unat n < ?d" "unat n < length hist" by auto
    let ?e = "hist ! unat n"
    have s: "seq ?e = of_nat (unat n + 1)" using i(2) l(4) by simp
    moreover have "unat (of_nat (unat n + 1) :: seqno) = unat n + 1" by (rule unat_of_nat64 [OF b])
    ultimately have "n < seq ?e" unfolding word_less_nat_alt by (metis less_add_one)
    moreover have "?e \<notin> set (entries s)"
    proof
      assume "?e \<in> set (entries s)"
      then obtain k where "k < length hist - ?d" and "?e = hist ! (?d + k)"
        using l(3) by (auto simp: in_set_conv_nth)
      then obtain j where j: "j < length hist" "?d \<le> j" "?e = hist ! j"
        by (intro that [of "?d + k"]) auto
      then have "(of_nat (unat n + 1) :: seqno) = of_nat (j + 1)" using s l(4) by metis
      moreover have "unat (of_nat (j + 1) :: seqno) = j + 1"
        using j(1) l(1) by (intro unat_of_nat64) linarith
      ultimately have "unat n = j" using unat_of_nat64 [OF b] by (metis add_right_cancel)
      then show False using i(1) j(2) by simp
    qed
    ultimately show ?thesis using i(2) nth_mem by blast
  qed simp
qed

theorem Since_complete_witness:
  "let s = fst (Add (fst (Add (NewPurgeStore 1) ''tag'' [] [] ''a'')) ''tag'' [] [] ''b'')
   in \<not> FlushRequired (Since s 1 (\<lambda>_. False)) \<and>
      FlushRequired (Since s 0 (\<lambda>_. False)) \<and>
      Entries (Since s 1 (\<lambda>_. False)) =
        [\<lparr>dto_Seq = 2, dto_Scope = ''tag'', dto_Host = [], dto_URI = [], dto_Tag = ''b''\<rparr>]"
proof -
  let ?r = "\<lambda>n t. \<lparr>seq = of_nat n, scope = ''tag'', host = [], uri = [], tag = t\<rparr>"
  let ?s1 = "fst (Add (NewPurgeStore 1) ''tag'' [] [] ''a'')"
  let ?s = "fst (Add ?s1 ''tag'' [] [] ''b'')"
  have a: "purge_args ''tag'' [] [] ''a'' = Some (''tag'', [], [], ''a'')"
    and b: "purge_args ''tag'' [] [] ''b'' = Some (''tag'', [], [], ''b'')" by code_simp+
  have r1: "journal_rel [?r 1 ''a''] ?s1"
    using journal_rel_Add [OF journal_rel_New [of 1] _ a] by simp
  have r2: "journal_rel [?r 1 ''a'', ?r 2 ''b''] ?s"
    using journal_rel_Add [OF r1 _ b] by simp
  have nf: "\<not> FlushRequired (Since ?s 1 (\<lambda>_. False))" and f: "FlushRequired (Since ?s 0 (\<lambda>_. False))"
    by code_simp+
  show ?thesis
    using Since_complete [OF r2, of 1 "\<lambda>_. False"] nf f
    by (simp add: Let_def dto_of_def deliverable_def scope_defs)
qed

end
