(* ===== verification/Purge_Table.thy ===== *)
theory Purge_Table
  imports Purge_Journal
begin

section \<open>The edge's purge table (edge/purge.go, edge/purgerefresh.go)\<close>

text \<open>
  The edge applies the control plane's journal to its cache-invalidation table and persists the table
  together with the journal cursor. The table itself is parapet's \<^verbatim>\<open>pkg/cache/purge.Table\<close>, which is not
  part of the repository: its state is the type \<open>'t\<close>, and the calls the edge makes on it are values of
  \<open>purge_call\<close>, executed by the parameter \<open>exec now call tbl\<close>. \<open>snap\<close> and \<open>restore\<close> are its
  \<^verbatim>\<open>Snapshot\<close> and \<^verbatim>\<open>Restore\<close>. The mutex-protected part of \<^verbatim>\<open>Apply\<close> and the later write of the snapshot
  are separate definitions, since the source performs the write outside the lock.
\<close>

datatype purge_call =
    Call_FlushAll
  | Call_PurgeHost string
  | Call_PurgeURL string string
  | Call_PurgePrefix string string
  | Call_PurgeTag string

record PurgeEntry =
  pe_Seq :: seqno
  pe_Scope :: string
  pe_Host :: string
  pe_URI :: string
  pe_Tag :: string

record 't PurgeTable =
  tbl :: 't
  cursor :: seqno
  dirtyVer :: "64 word"
  persistedVer :: "64 word"
  path :: string

record 'n persistState =
  ps_Snapshot :: 'n
  ps_Cursor :: seqno

subsection \<open>Applying the journal\<close>

definition entry_call :: "PurgeEntry \<Rightarrow> purge_call option" where
  "entry_call e =
     (if pe_Scope e = purgeScopeFlushAll then Some Call_FlushAll
      else if pe_Scope e = purgeScopeHost then Some (Call_PurgeHost (pe_Host e))
      else if pe_Scope e = purgeScopeURL then Some (Call_PurgeURL (pe_Host e) (pe_URI e))
      else if pe_Scope e = purgeScopePrefix then Some (Call_PurgePrefix (pe_Host e) (pe_URI e))
      else if pe_Scope e = purgeScopeTag then Some (Call_PurgeTag (pe_Tag e))
      else None)"

definition applyOne :: "(time \<Rightarrow> purge_call \<Rightarrow> 't \<Rightarrow> 't) \<Rightarrow> time \<Rightarrow> PurgeEntry \<Rightarrow> 't \<Rightarrow> 't" where
  "applyOne exec now e tb = (case entry_call e of None \<Rightarrow> tb | Some c \<Rightarrow> exec now c tb)"

fun apply_loop ::
  "(time \<Rightarrow> purge_call \<Rightarrow> 't \<Rightarrow> 't) \<Rightarrow> time \<Rightarrow> seqno \<Rightarrow> PurgeEntry list \<Rightarrow> 't \<times> bool \<Rightarrow> 't \<times> bool" where
  "apply_loop exec now base [] (tb, changed) = (tb, changed)"
| "apply_loop exec now base (e # es) (tb, changed) =
     (if pe_Seq e \<le> base then apply_loop exec now base es (tb, changed)
      else apply_loop exec now base es (applyOne exec now e tb, True))"

definition snapshotLocked :: "('t \<Rightarrow> 'n) \<Rightarrow> 't PurgeTable \<Rightarrow> 't PurgeTable \<times> ('n persistState \<times> 64 word)" where
  "snapshotLocked snap t =
     (let t' = t\<lparr>dirtyVer := dirtyVer t + 1\<rparr>
      in (t', (\<lparr>ps_Snapshot = snap (tbl t'), ps_Cursor = cursor t'\<rparr>, dirtyVer t')))"

text \<open>The locked part of \<^verbatim>\<open>Apply\<close>: the new table and, when something changed, the snapshot to persist.\<close>

definition Apply ::
  "(time \<Rightarrow> purge_call \<Rightarrow> 't \<Rightarrow> 't) \<Rightarrow> ('t \<Rightarrow> 'n) \<Rightarrow> time \<Rightarrow> 't PurgeTable \<Rightarrow> PurgeEntry list \<Rightarrow> seqno \<Rightarrow>
   't PurgeTable \<times> ('n persistState \<times> 64 word) option" where
  "Apply exec snap now t es maxSeq =
     (let base = cursor t;
          (tb, changed) = apply_loop exec now base es (tbl t, False);
          t1 = t\<lparr>tbl := tb\<rparr>;
          advance = (maxSeq > cursor t);
          t2 = (if advance then t1\<lparr>cursor := maxSeq\<rparr> else t1)
      in if \<not> (changed \<or> advance) then (t2, None)
         else (let (t3, sv) = snapshotLocked snap t2 in (t3, Some sv)))"

definition FlushAll ::
  "(time \<Rightarrow> purge_call \<Rightarrow> 't \<Rightarrow> 't) \<Rightarrow> ('t \<Rightarrow> 'n) \<Rightarrow> time \<Rightarrow> 't PurgeTable \<Rightarrow> seqno \<Rightarrow>
   't PurgeTable \<times> ('n persistState \<times> 64 word)" where
  "FlushAll exec snap now t maxSeq =
     snapshotLocked snap (t\<lparr>tbl := exec now Call_FlushAll (tbl t), cursor := maxSeq\<rparr>)"

subsection \<open>Persistence\<close>

text \<open>The state file, as \<^verbatim>\<open>load\<close> finds it.\<close>

datatype 'n state_file = Missing | Unreadable | Corrupt | Stored "'n persistState"

text \<open>The outcome of each system call \<^verbatim>\<open>atomicWriteFile\<close> makes, in order.\<close>

record io_outcome =
  create_ok :: bool
  write_ok :: bool
  sync_ok :: bool
  close_ok :: bool
  rename_ok :: bool
  fsyncDir_ok :: bool

definition atomicWriteFile :: "io_outcome \<Rightarrow> 'n state_file \<Rightarrow> 'n persistState \<Rightarrow> 'n state_file \<times> bool" where
  "atomicWriteFile io f data =
     (if \<not> create_ok io then (f, False)
      else if \<not> write_ok io then (f, False)
      else if \<not> sync_ok io then (f, False)
      else if \<not> close_ok io then (f, False)
      else if \<not> rename_ok io then (f, False)
      else (Stored data, fsyncDir_ok io))"

definition persist ::
  "io_outcome \<Rightarrow> 't PurgeTable \<Rightarrow> 'n state_file \<Rightarrow> 'n persistState \<Rightarrow> 64 word \<Rightarrow>
   't PurgeTable \<times> 'n state_file \<times> bool" where
  "persist io t f sn ver =
     (if path t = '''' then (t, f, True)
      else if ver \<le> persistedVer t then (t, f, True)
      else (let (f', ok) = atomicWriteFile io f sn
            in if ok then (t\<lparr>persistedVer := ver\<rparr>, f', True) else (t, f', False)))"

definition load :: "('n \<Rightarrow> 't \<Rightarrow> 't) \<Rightarrow> 't PurgeTable \<Rightarrow> 'n state_file \<Rightarrow> 't PurgeTable" where
  "load restore t f =
     (if path t = '''' then t
      else (case f of
              Missing \<Rightarrow> t
            | Unreadable \<Rightarrow> t
            | Corrupt \<Rightarrow> t
            | Stored st \<Rightarrow> t\<lparr>tbl := restore (ps_Snapshot st) (tbl t), cursor := ps_Cursor st\<rparr>))"

definition NewPurgeTable :: "('n \<Rightarrow> 't \<Rightarrow> 't) \<Rightarrow> 't \<Rightarrow> string \<Rightarrow> 'n state_file \<Rightarrow> 't PurgeTable" where
  "NewPurgeTable restore fresh p f =
     load restore \<lparr>tbl = fresh, cursor = 0, dirtyVer = 0, persistedVer = 0, path = p\<rparr> f"

subsection \<open>The poll\<close>

text \<open>The wire shape: the control plane's \<^verbatim>\<open>PurgeEntryDTO\<close> decodes field by field to \<^verbatim>\<open>PurgeEntry\<close>.\<close>

definition decode_entry :: "PurgeEntryDTO \<Rightarrow> PurgeEntry" where
  "decode_entry d = \<lparr>pe_Seq = dto_Seq d, pe_Scope = dto_Scope d, pe_Host = dto_Host d,
                     pe_URI = dto_URI d, pe_Tag = dto_Tag d\<rparr>"

datatype purge_fetch =
    Fetch_Error
  | Fetch_Disabled
  | Fetched bool "PurgeEntry list" seqno

text \<open>\<^verbatim>\<open>FetchPurges\<close>: \<^const>\<open>None\<close> is a transport or decoding failure.\<close>

definition FetchPurges :: "PurgeSince http_reply option \<Rightarrow> purge_fetch" where
  "FetchPurges reply =
     (case reply of
        None \<Rightarrow> Fetch_Error
      | Some (Status_OK r) \<Rightarrow> Fetched (FlushRequired r) (map decode_entry (Entries r)) (MaxSeq r)
      | Some Status_NotFound \<Rightarrow> Fetch_Disabled
      | Some _ \<Rightarrow> Fetch_Error)"

definition RefreshPurgeOnce ::
  "(time \<Rightarrow> purge_call \<Rightarrow> 't \<Rightarrow> 't) \<Rightarrow> ('t \<Rightarrow> 'n) \<Rightarrow> time \<Rightarrow> purge_fetch \<Rightarrow> 't PurgeTable \<Rightarrow>
   't PurgeTable \<times> ('n persistState \<times> 64 word) option" where
  "RefreshPurgeOnce exec snap now res t =
     (case res of
        Fetch_Error \<Rightarrow> (t, None)
      | Fetch_Disabled \<Rightarrow> (t, None)
      | Fetched flush es maxSeq \<Rightarrow>
          if flush \<or> maxSeq < cursor t
          then (let (t', sv) = FlushAll exec snap now t maxSeq in (t', Some sv))
          else Apply exec snap now t es maxSeq)"

subsection \<open>What one refresh does\<close>

lemma apply_loop_calls:
  "apply_loop exec now base es (tb, ch) =
     (foldl (\<lambda>tb c. exec now c tb) tb
        (List.map_filter entry_call (filter (\<lambda>e. base < pe_Seq e) es)),
      ch \<or> (\<exists>e \<in> set es. base < pe_Seq e))"
  by (induction exec now base es "(tb, ch)" arbitrary: tb ch rule: apply_loop.induct)
    (auto simp: applyOne_def map_filter_simps not_le split: option.splits)

lemma Apply_tbl:
  "tbl (fst (Apply exec snap now t es maxSeq)) =
     foldl (\<lambda>tb c. exec now c tb) (tbl t)
       (List.map_filter entry_call (filter (\<lambda>e. cursor t < pe_Seq e) es))"
  by (simp add: Apply_def apply_loop_calls snapshotLocked_def Let_def)

lemma Apply_cursor:
  "cursor (fst (Apply exec snap now t es maxSeq)) = max (cursor t) maxSeq"
  by (auto simp: Apply_def apply_loop_calls snapshotLocked_def Let_def max_def)

lemma Apply_snapshot:
  "snd (Apply exec snap now t es maxSeq) = Some (sn, v) \<Longrightarrow>
   ps_Snapshot sn = snap (tbl (fst (Apply exec snap now t es maxSeq))) \<and>
   ps_Cursor sn = cursor (fst (Apply exec snap now t es maxSeq))"
  by (auto simp: Apply_def apply_loop_calls snapshotLocked_def Let_def split: if_splits)

lemma FlushAll_simps [simp]:
  "tbl (fst (FlushAll exec snap now t m)) = exec now Call_FlushAll (tbl t)"
  "cursor (fst (FlushAll exec snap now t m)) = m"
  "ps_Snapshot (fst (snd (FlushAll exec snap now t m))) = snap (exec now Call_FlushAll (tbl t))"
  "ps_Cursor (fst (snd (FlushAll exec snap now t m))) = m"
  by (simp_all add: FlushAll_def snapshotLocked_def Let_def)

end
