(* ===== verification/Purge_Sync.thy ===== *)
theory Purge_Sync
  imports Purge_Table
begin

section \<open>Purge distribution: the control plane and an edge together\<close>

text \<open>
  The journal (theory \<open>Purge_Journal\<close>) and the edge table (theory \<open>Purge_Table\<close>) composed over an
  unreliable network. A system state holds the store with the history of accepted purges and their
  issue times, the edge's table, the replies in flight, the snapshots waiting to be written and the
  state file. Steps: the clock advances; an operator issues a purge; the edge polls (the reply is
  computed now, and may arrive later, repeatedly, out of order or never); a reply is applied; a
  snapshot is written; the edge restarts from its state file; and, when \<open>restarts\<close> allows it, the
  control plane restarts with an empty in-memory journal.

  The table of the edge is instantiated by the log of the calls made on it, with the time of each
  call. A purge counts as \<open>done\<close> when the log holds, at or after its issue time, the purge's own call
  or a flush of everything.
\<close>

type_synonym call_log = "(time \<times> purge_call) list"

definition log_exec :: "time \<Rightarrow> purge_call \<Rightarrow> call_log \<Rightarrow> call_log" where
  "log_exec now c l = l @ [(now, c)]"

definition record_call :: "purgeRecord \<Rightarrow> purge_call option" where
  "record_call r = entry_call (decode_entry (dto_of r))"

definition purge_done :: "call_log \<Rightarrow> time \<times> purgeRecord \<Rightarrow> bool" where
  "purge_done l p \<longleftrightarrow>
     (\<exists>(t, c) \<in> set l. fst p \<le> t \<and> (c = Call_FlushAll \<or> Some c = record_call (snd p)))"

record sync =
  clk :: time
  store :: PurgeStore
  hist :: "(time \<times> purgeRecord) list"
  lost :: "(time \<times> purgeRecord) list"
  table :: "call_log PurgeTable"
  inflight :: "(seqno \<times> PurgeSince) set"
  pending :: "(call_log persistState \<times> 64 word) set"
  disk :: "call_log state_file"

abbreviation refresh :: "time \<Rightarrow> PurgeSince \<Rightarrow> call_log PurgeTable \<Rightarrow>
    call_log PurgeTable \<times> (call_log persistState \<times> 64 word) option" where
  "refresh now r t \<equiv> RefreshPurgeOnce log_exec id now (FetchPurges (Some (Status_OK r))) t"

definition new_table :: "string \<Rightarrow> call_log state_file \<Rightarrow> call_log PurgeTable" where
  "new_table p f = NewPurgeTable (\<lambda>sn _. sn) [] p f"

inductive sync_step :: "bool \<Rightarrow> (string \<Rightarrow> bool) \<Rightarrow> sync \<Rightarrow> sync \<Rightarrow> bool"
  for restarts :: bool and allow :: "string \<Rightarrow> bool" where
  tick: "clk s \<le> now \<Longrightarrow> sync_step restarts allow s (s\<lparr>clk := now\<rparr>)"
| issue: "Add (store s) sc h u t = (st, (n, True)) \<Longrightarrow> length (hist s) + 2 < 2 ^ 64 \<Longrightarrow>
    sync_step restarts allow s
      (s\<lparr>store := st, hist := hist s @ [(clk s, last (entries st))]\<rparr>)"
| poll: "sync_step restarts allow s
    (s\<lparr>inflight := insert (cursor (table s), Since (store s) (cursor (table s)) allow) (inflight s)\<rparr>)"
| deliver: "(c, r) \<in> inflight s \<Longrightarrow> refresh (clk s) r (table s) = (t', sv) \<Longrightarrow>
    sync_step restarts allow s (s\<lparr>table := t', pending := set_option sv \<union> pending s\<rparr>)"
| save: "(sn, v) \<in> pending s \<Longrightarrow> persist io (table s) (disk s) sn v = (t', f', ok) \<Longrightarrow>
    sync_step restarts allow s (s\<lparr>table := t', disk := f'\<rparr>)"
| edge_restart: "sync_step restarts allow s
    (s\<lparr>table := new_table (path (table s)) (disk s), inflight := {}, pending := {}\<rparr>)"
| disk_failure: "f' = Missing \<or> f' = Unreadable \<or> f' = Corrupt \<Longrightarrow>
    sync_step restarts allow s (s\<lparr>disk := f'\<rparr>)"
| cp_restart: "restarts \<Longrightarrow>
    sync_step restarts allow s (s\<lparr>store := NewPurgeStore k, hist := [], lost := lost s @ hist s\<rparr>)"

definition sync_init :: "int \<Rightarrow> string \<Rightarrow> sync" where
  "sync_init k p = \<lparr>clk = 0, store = NewPurgeStore k, hist = [], lost = [], table = new_table p Missing,
     inflight = {}, pending = {}, disk = Missing\<rparr>"

inductive sync_reach :: "bool \<Rightarrow> (string \<Rightarrow> bool) \<Rightarrow> sync \<Rightarrow> bool"
  for restarts :: bool and allow :: "string \<Rightarrow> bool" where
  init: "sync_reach restarts allow (sync_init k p)"
| step: "sync_reach restarts allow s \<Longrightarrow> sync_step restarts allow s s' \<Longrightarrow> sync_reach restarts allow s'"

subsection \<open>The invariant without control-plane restarts\<close>

text \<open>Everything the edge must have seen up to sequence number \<open>c\<close> is done in the log \<open>l\<close>.\<close>

definition synced :: "(string \<Rightarrow> bool) \<Rightarrow> (time \<times> purgeRecord) list \<Rightarrow> call_log \<Rightarrow> seqno \<Rightarrow> bool" where
  "synced allow h l c \<longleftrightarrow>
     (\<forall>p \<in> set h. seq (snd p) \<le> c \<and> deliverable allow (snd p) \<longrightarrow> purge_done l p)"

text \<open>A reply \<open>r\<close> to a poll at cursor \<open>c\<close> is usable: it demands a flush, or it carries every
  deliverable purge with a sequence number in the window from \<open>c\<close> to its \<open>MaxSeq\<close>.\<close>

definition reply_ok :: "(string \<Rightarrow> bool) \<Rightarrow> (time \<times> purgeRecord) list \<Rightarrow> call_log \<Rightarrow> seqno \<Rightarrow> PurgeSince \<Rightarrow> bool" where
  "reply_ok allow h l c r \<longleftrightarrow>
     synced allow h l c \<and> c \<le> of_nat (length h) \<and> MaxSeq r \<le> of_nat (length h) \<and>
     (FlushRequired r \<or>
       (\<forall>p \<in> set h. c < seq (snd p) \<and> seq (snd p) \<le> MaxSeq r \<and> deliverable allow (snd p) \<longrightarrow>
          dto_of (snd p) \<in> set (Entries r)))"

text \<open>A state (log and cursor) that may be served from or restored: synced up to a cursor that the
  journal has issued.\<close>

definition state_ok :: "(string \<Rightarrow> bool) \<Rightarrow> (time \<times> purgeRecord) list \<Rightarrow> call_log \<Rightarrow> seqno \<Rightarrow> bool" where
  "state_ok allow h l c \<longleftrightarrow> synced allow h l c \<and> c \<le> of_nat (length h)"

definition sync_inv :: "(string \<Rightarrow> bool) \<Rightarrow> sync \<Rightarrow> bool" where
  "sync_inv allow s \<longleftrightarrow>
     journal_rel (map snd (hist s)) (store s) \<and>
     (\<forall>p \<in> set (hist s). fst p \<le> clk s \<and> record_call (snd p) \<noteq> None) \<and>
     state_ok allow (hist s) (tbl (table s)) (cursor (table s)) \<and>
     (\<forall>x \<in> inflight s. reply_ok allow (hist s) (tbl (table s)) (fst x) (snd x)) \<and>
     (\<forall>x \<in> pending s. state_ok allow (hist s) (ps_Snapshot (fst x)) (ps_Cursor (fst x))) \<and>
     (\<forall>sn. disk s = Stored sn \<longrightarrow> state_ok allow (hist s) (ps_Snapshot sn) (ps_Cursor sn))"

lemma purge_done_mono: "purge_done l p \<Longrightarrow> set l \<subseteq> set l' \<Longrightarrow> purge_done l' p"
  unfolding purge_done_def by blast

lemma synced_mono: "synced allow h l c \<Longrightarrow> set l \<subseteq> set l' \<Longrightarrow> synced allow h l' c"
  unfolding synced_def using purge_done_mono by blast

lemma reply_ok_mono: "reply_ok allow h l c r \<Longrightarrow> set l \<subseteq> set l' \<Longrightarrow> reply_ok allow h l' c r"
  unfolding reply_ok_def using synced_mono by blast

lemma fresh_seq:
  assumes "c \<le> (of_nat n :: seqno)" and "n + 1 < 2 ^ 64"
  shows "\<not> of_nat (n + 1) \<le> c" and "c \<le> of_nat (n + 1)"
proof -
  have "(of_nat n :: seqno) < of_nat (n + 1)" using assms(2) by (intro of_nat64_less [THEN iffD2]) auto
  with assms(1) have "c < of_nat (n + 1)" by (rule le_less_trans)
  then show "\<not> of_nat (n + 1) \<le> c" and "c \<le> of_nat (n + 1)" by (simp_all only: not_le less_imp_le)
qed

lemma synced_issue:
  assumes "synced allow h l c" and "c \<le> of_nat (length h)" and "length h + 1 < 2 ^ 64"
    and "seq (snd p) = of_nat (length h + 1)"
  shows "synced allow (h @ [p]) l c"
  using assms(1) fresh_seq(1) [OF assms(2,3)] unfolding synced_def assms(4) [symmetric] by auto

lemma reply_ok_issue:
  assumes "reply_ok allow h l c r" and "length h + 1 < 2 ^ 64" and "seq (snd p) = of_nat (length h + 1)"
  shows "reply_ok allow (h @ [p]) l c r"
proof -
  have m: "MaxSeq r \<le> of_nat (length h)" and c: "c \<le> of_nat (length h)" and sy: "synced allow h l c"
    using assms(1) by (simp_all add: reply_ok_def)
  have "\<not> seq (snd p) \<le> MaxSeq r" using fresh_seq(1) [OF m assms(2)] assms(3) by simp
  moreover have "MaxSeq r \<le> of_nat (length (h @ [p]))" "c \<le> of_nat (length (h @ [p]))"
    using fresh_seq(2) [OF m assms(2)] fresh_seq(2) [OF c assms(2)] by simp_all
  ultimately show ?thesis
    using assms(1) synced_issue [OF sy c assms(2,3)] by (auto simp: reply_ok_def)
qed

lemma done_by_flush:
  "(now, Call_FlushAll) \<in> set l \<Longrightarrow> fst p \<le> now \<Longrightarrow> purge_done l p"
  unfolding purge_done_def by blast

lemma done_by_call:
  "(now, c) \<in> set l \<Longrightarrow> record_call (snd p) = Some c \<Longrightarrow> fst p \<le> now \<Longrightarrow> purge_done l p"
  unfolding purge_done_def by force

lemma foldl_log_exec:
  "foldl (\<lambda>tb c. log_exec now c tb) l cs = l @ map (Pair now) cs"
  by (induction cs arbitrary: l) (simp_all add: log_exec_def)

text \<open>Applying a usable reply keeps the edge synced, up to the new cursor.\<close>

lemma refresh_synced:
  assumes sy: "synced allow h (tbl t) (cursor t)" and ok: "reply_ok allow h (tbl t) c r"
    and h: "\<forall>p \<in> set h. fst p \<le> now \<and> record_call (snd p) \<noteq> None"
    and ref: "refresh now r t = (t', sv)"
  shows "set (tbl t) \<subseteq> set (tbl t') \<and> synced allow h (tbl t') (cursor t') \<and>
    (cursor t' = MaxSeq r \<or> cursor t' = cursor t) \<and>
    (\<forall>sn v. sv = Some (sn, v) \<longrightarrow> ps_Snapshot sn = tbl t' \<and> ps_Cursor sn = cursor t')"
proof (cases "FlushRequired r \<or> MaxSeq r < cursor t")
  case True
  then have fl: "(t', sv) = (fst (FlushAll log_exec id now t (MaxSeq r)), Some (snd (FlushAll log_exec id now t (MaxSeq r))))"
    using ref by (auto simp: RefreshPurgeOnce_def FetchPurges_def split_def Let_def)
  then have tb: "tbl t' = tbl t @ [(now, Call_FlushAll)]" and cu: "cursor t' = MaxSeq r"
    by (simp_all add: log_exec_def)
  have "synced allow h (tbl t') (cursor t')"
    unfolding synced_def using h done_by_flush [of now "tbl t'"] tb by auto
  moreover have "ps_Snapshot (fst (snd (FlushAll log_exec id now t (MaxSeq r)))) = tbl t'"
    and "ps_Cursor (fst (snd (FlushAll log_exec id now t (MaxSeq r)))) = cursor t'"
    by (simp_all add: tb cu log_exec_def)
  ultimately show ?thesis using fl tb cu by (metis fst_conv le_sup_iff old.prod.inject option.inject order_refl set_append)
next
  case False
  let ?es = "map decode_entry (Entries r)"
  have ap: "(t', sv) = Apply log_exec id now t ?es (MaxSeq r)"
    using ref False by (simp add: RefreshPurgeOnce_def FetchPurges_def)
  then have t': "t' = fst (Apply log_exec id now t ?es (MaxSeq r))" and sv: "sv = snd (Apply log_exec id now t ?es (MaxSeq r))"
    by (metis fst_conv, metis snd_conv)
  let ?cs = "List.map_filter entry_call (filter (\<lambda>e. cursor t < pe_Seq e) ?es)"
  have tb: "tbl t' = tbl t @ map (Pair now) ?cs"
    by (simp add: t' Apply_tbl foldl_log_exec)
  have cu: "cursor t' = max (cursor t) (MaxSeq r)" by (simp add: t' Apply_cursor)
  have "purge_done (tbl t') p" if p: "p \<in> set h" "seq (snd p) \<le> cursor t'" "deliverable allow (snd p)" for p
  proof (cases "seq (snd p) \<le> cursor t \<or> seq (snd p) \<le> c")
    case True
    then have "purge_done (tbl t) p" using sy ok p by (auto simp: synced_def reply_ok_def)
    then show ?thesis by (rule purge_done_mono) (simp add: tb)
  next
    case old: False
    then have "seq (snd p) \<le> MaxSeq r" using p(2) cu by (auto simp: max_def split: if_splits)
    with old p ok False have mem: "dto_of (snd p) \<in> set (Entries r)"
      by (auto simp: reply_ok_def not_le)
    obtain k where k: "record_call (snd p) = Some k" using h p(1) by auto
    have "decode_entry (dto_of (snd p)) \<in> set (filter (\<lambda>e. cursor t < pe_Seq e) ?es)"
      using imageI [OF mem, of decode_entry] old by (simp add: not_le) (simp add: decode_entry_def dto_of_def)
    then have "k \<in> set ?cs"
      using k by (force simp: map_filter_def record_call_def)
    then have "(now, k) \<in> set (tbl t')" unfolding tb by simp
    then show ?thesis using done_by_call [OF _ k] h p(1) by blast
  qed
  then have "synced allow h (tbl t') (cursor t')" by (simp add: synced_def)
  moreover have "\<forall>sn v. sv = Some (sn, v) \<longrightarrow> ps_Snapshot sn = tbl t' \<and> ps_Cursor sn = cursor t'"
    using Apply_snapshot [of log_exec id now t ?es "MaxSeq r"] by (auto simp: sv t')
  ultimately show ?thesis using tb cu by (auto simp: max_def)
qed

text \<open>An accepted purge is the last retained record, and its scope is one the edge knows.\<close>

lemma purge_args_scope:
  "purge_args sc h u t = Some (sc', h', u', t') \<Longrightarrow>
   record_call \<lparr>seq = n, scope = sc', host = h', uri = u', tag = t'\<rparr> \<noteq> None"
  by (auto simp: purge_args_def record_call_def entry_call_def decode_entry_def dto_of_def Let_def
      split: if_splits)

lemma Add_accepted:
  assumes rel: "journal_rel hs s" and room: "length hs + 2 < 2 ^ 64"
    and add: "Add s sc h u t = (st, (n, True))"
  shows "journal_rel (hs @ [last (entries st)]) st \<and> seq (last (entries st)) = of_nat (length hs + 1) \<and>
    record_call (last (entries st)) \<noteq> None"
proof -
  from add obtain sc' h' u' t' where a: "purge_args sc h u t = Some (sc', h', u', t')"
    by (auto simp: Add_def split: option.splits)
  obtain r where r: "r = \<lparr>seq = of_nat (length hs + 1), scope = sc', host = h', uri = u', tag = t'\<rparr>"
    and rel': "journal_rel (hs @ [r]) st"
    using journal_rel_Add [OF rel room a] add by auto
  have "entries st = drop (length (hs @ [r]) - maxKeep st) (hs @ [r])" and "1 \<le> maxKeep st"
    using rel' unfolding journal_rel_def by blast+
  then have l: "last (entries st) = r" by simp
  show ?thesis unfolding l using rel' r purge_args_scope [OF a] by simp
qed

lemma journal_lastSeq: "journal_rel hs s \<Longrightarrow> lastSeq s = of_nat (length hs)"
  by (simp add: journal_rel_def)

lemma journal_room: "journal_rel hs s \<Longrightarrow> length hs + 1 < 2 ^ 64"
  by (simp add: journal_rel_def)

lemma inv_init: "sync_inv allow (sync_init k p)"
  by (simp add: sync_inv_def sync_init_def journal_rel_New state_ok_def synced_def new_table_def NewPurgeTable_def load_def)

lemma inv_issue:
  assumes inv: "sync_inv allow s" and add: "Add (store s) sc h u t = (st, (n, True))"
    and room: "length (hist s) + 2 < 2 ^ 64"
  shows "sync_inv allow (s\<lparr>store := st, hist := hist s @ [(clk s, last (entries st))]\<rparr>)"
proof -
  let ?p = "(clk s, last (entries st))"
  have rel: "journal_rel (map snd (hist s)) (store s)" using inv by (simp add: sync_inv_def)
  have acc: "journal_rel (map snd (hist s) @ [snd ?p]) st" "seq (snd ?p) = of_nat (length (hist s) + 1)"
    "record_call (snd ?p) \<noteq> None"
    using Add_accepted [OF rel _ add] room by simp_all
  have r1: "length (hist s) + 1 < 2 ^ 64" using room by linarith
  have so: "state_ok allow (hist s @ [?p]) l c" if "state_ok allow (hist s) l c" for l c
    using synced_issue [of allow "hist s" l c ?p] fresh_seq(2) [of c "length (hist s)"] that r1 acc(2)
    by (simp add: state_ok_def)
  have ro: "reply_ok allow (hist s @ [?p]) l c r" if "reply_ok allow (hist s) l c r" for l c r
    using reply_ok_issue [OF that r1, of ?p] acc(2) by simp
  show ?thesis
    using inv acc so ro unfolding sync_inv_def by simp
qed

lemma inv_poll:
  assumes "sync_inv allow s"
  shows "reply_ok allow (hist s) (tbl (table s)) (cursor (table s)) (Since (store s) (cursor (table s)) allow)"
proof -
  let ?c = "cursor (table s)"
  have rel: "journal_rel (map snd (hist s)) (store s)" and sy: "synced allow (hist s) (tbl (table s)) ?c"
    and c: "?c \<le> of_nat (length (hist s))" using assms by (simp_all add: sync_inv_def state_ok_def)
  have "FlushRequired (Since (store s) ?c allow) \<or>
      (\<forall>p \<in> set (hist s). ?c < seq (snd p) \<and> seq (snd p) \<le> MaxSeq (Since (store s) ?c allow) \<and>
         deliverable allow (snd p) \<longrightarrow> dto_of (snd p) \<in> set (Entries (Since (store s) ?c allow)))"
    using Since_entries [OF rel, of ?c allow] by force
  then show ?thesis
    using sy c journal_lastSeq [OF rel] by (simp add: reply_ok_def)
qed

lemma inv_deliver:
  assumes inv: "sync_inv allow s" and fl: "(c, r) \<in> inflight s"
    and ref: "refresh (clk s) r (table s) = (t', sv)"
  shows "sync_inv allow (s\<lparr>table := t', pending := set_option sv \<union> pending s\<rparr>)"
proof -
  have ok: "reply_ok allow (hist s) (tbl (table s)) c r" using inv fl by (force simp: sync_inv_def)
  have st: "set (tbl (table s)) \<subseteq> set (tbl t')" "synced allow (hist s) (tbl t') (cursor t')"
    "cursor t' = MaxSeq r \<or> cursor t' = cursor (table s)"
    "\<forall>sn v. sv = Some (sn, v) \<longrightarrow> ps_Snapshot sn = tbl t' \<and> ps_Cursor sn = cursor t'"
    using refresh_synced [OF _ ok _ ref] inv by (auto simp: sync_inv_def state_ok_def)
  have t': "state_ok allow (hist s) (tbl t') (cursor t')"
    using st(2,3) ok inv by (auto simp: reply_ok_def sync_inv_def state_ok_def)
  have "\<forall>x \<in> inflight s. reply_ok allow (hist s) (tbl t') (fst x) (snd x)"
    using inv reply_ok_mono [OF _ st(1)] by (simp add: sync_inv_def)
  moreover have "\<forall>x \<in> set_option sv. state_ok allow (hist s) (ps_Snapshot (fst x)) (ps_Cursor (fst x))"
    using st(4) t' by (cases sv) auto
  ultimately show ?thesis
    using inv t' by (auto simp: sync_inv_def)
qed

lemma persist_frame:
  assumes "persist io t f sn v = (t', f', ok)"
  shows "tbl t' = tbl t \<and> cursor t' = cursor t \<and> (f' = f \<or> f' = Stored sn)"
  using assms by (auto simp: persist_def atomicWriteFile_def Let_def split: if_splits prod.splits)

lemma inv_save:
  assumes inv: "sync_inv allow s" and "(sn, v) \<in> pending s" and "persist io (table s) (disk s) sn v = (t', f', ok)"
  shows "sync_inv allow (s\<lparr>table := t', disk := f'\<rparr>)"
  using inv assms(2) persist_frame [OF assms(3)] by (force simp: sync_inv_def)

lemma inv_edge_restart:
  assumes inv: "sync_inv allow s"
  shows "sync_inv allow (s\<lparr>table := new_table p (disk s), inflight := {}, pending := {}\<rparr>)"
proof -
  let ?t = "new_table p (disk s)"
  have seq_pos: "\<not> seq (snd q) \<le> 0" if "q \<in> set (hist s)" for q
  proof -
    have "journal_rel (map snd (hist s)) (store s)" using inv by (simp add: sync_inv_def)
    moreover have "snd q \<in> set (map snd (hist s))" using that by simp
    ultimately obtain i where "unat (seq (snd q)) = i + 1" by (rule hist_seq)
    then show ?thesis by auto
  qed
  have "state_ok allow (hist s) (tbl ?t) (cursor ?t)"
  proof (cases "\<exists>sn. disk s = Stored sn \<and> p \<noteq> ''''")
    case True
    then show ?thesis using inv by (auto simp: new_table_def NewPurgeTable_def load_def sync_inv_def)
  next
    case False
    then have "cursor ?t = 0"
      by (auto simp: new_table_def NewPurgeTable_def load_def split: state_file.splits)
    then show ?thesis using seq_pos by (auto simp: state_ok_def synced_def)
  qed
  then show ?thesis using inv by (simp add: sync_inv_def)
qed

lemma inv_step: "sync_step False allow s s' \<Longrightarrow> sync_inv allow s \<Longrightarrow> sync_inv allow s'"
proof (induction rule: sync_step.induct)
  case (tick s now)
  then show ?case unfolding sync_inv_def by fastforce
next
  case (issue s sc h u t st n)
  then show ?case by (blast intro: inv_issue)
next
  case (poll s)
  from inv_poll [OF poll] poll show ?case unfolding sync_inv_def by auto
next
  case (deliver c r s t' sv)
  then show ?case by (blast intro: inv_deliver)
next
  case (save sn v s io t' f' ok)
  then show ?case by (blast intro: inv_save)
next
  case (edge_restart s)
  then show ?case by (rule inv_edge_restart)
next
  case (disk_failure f' s)
  then show ?case unfolding sync_inv_def by auto
next
  case (cp_restart s k)
  then show ?case by simp
qed

lemma inv_reach: "sync_reach False allow s \<Longrightarrow> sync_inv allow s"
  by (induction rule: sync_reach.induct) (auto intro: inv_init inv_step)

subsection \<open>Properties\<close>

text \<open>C1. No purge is silently skipped while the control plane keeps running: in every reachable state
  (with arbitrary reply delays, losses, duplicates and reordering, journal trimming, edge restarts
  from a current, stale, missing or corrupt state file), each accepted purge that the edge is entitled
  to see and whose sequence number is not above the edge's cursor has been carried out on the edge's
  table at or after its issue time, by its own call or by a flush.\<close>

theorem purge_never_skipped:
  assumes "sync_reach False allow s" and "p \<in> set (hist s)"
    and "deliverable allow (snd p)" and "seq (snd p) \<le> cursor (table s)"
  shows "purge_done (tbl (table s)) p"
  using inv_reach [OF assms(1)] assms(2-4) by (simp add: sync_inv_def state_ok_def synced_def)

text \<open>C7. One undisturbed poll converges: from any reachable state, polling and applying the reply
  brings the cursor to the journal's last sequence number and leaves every purge that the edge is
  entitled to see carried out, however far the edge had fallen behind.\<close>

theorem poll_converges:
  assumes "sync_reach False allow s"
    and "refresh (clk s) (Since (store s) (cursor (table s)) allow) (table s) = (t', sv)"
  shows "cursor t' = lastSeq (store s) \<and>
    (\<forall>p \<in> set (hist s). deliverable allow (snd p) \<longrightarrow> purge_done (tbl t') p)"
proof -
  let ?r = "Since (store s) (cursor (table s)) allow"
  have inv: "sync_inv allow s" by (rule inv_reach [OF assms(1)])
  then have sy: "synced allow (hist s) (tbl (table s)) (cursor (table s))"
    and h: "\<forall>p \<in> set (hist s). fst p \<le> clk s \<and> record_call (snd p) \<noteq> None"
    and rel: "journal_rel (map snd (hist s)) (store s)"
    and "cursor (table s) \<le> of_nat (length (hist s))"
    by (simp_all add: sync_inv_def state_ok_def)
  then have cl: "cursor (table s) \<le> lastSeq (store s)" by (simp add: journal_lastSeq [OF rel])
  have sy': "synced allow (hist s) (tbl t') (cursor t')"
    using refresh_synced [OF sy inv_poll [OF inv] h assms(2)] by blast
  have cu: "cursor t' = lastSeq (store s)"
  proof (cases "FlushRequired ?r \<or> MaxSeq ?r < cursor (table s)")
    case True
    then show ?thesis using assms(2)
      by (auto simp: RefreshPurgeOnce_def FetchPurges_def split_def Let_def)
  next
    case False
    then have "t' = fst (Apply log_exec id (clk s) (table s) (map decode_entry (Entries ?r)) (MaxSeq ?r))"
      using assms(2) by (simp add: RefreshPurgeOnce_def FetchPurges_def)
    then show ?thesis using cl by (simp add: Apply_cursor max_def)
  qed
  have le: "seq (snd p) \<le> lastSeq (store s)" if "p \<in> set (hist s)" for p
  proof -
    have "snd p \<in> set (map snd (hist s))" using that by simp
    with rel obtain i where i: "i < length (map snd (hist s))" "seq (snd p) = of_nat (i + 1)"
      by (rule hist_seq)
    then have "of_nat (i + 1) \<le> (of_nat (length (hist s)) :: seqno)"
      using journal_room [OF rel] by (intro of_nat64_le [THEN iffD2]) simp_all
    then show ?thesis using i journal_lastSeq [OF rel] by simp
  qed
  show ?thesis using sy' cu le by (auto simp: synced_def)
qed

text \<open>A run for the witnesses: the operator issues a tag purge, the edge polls and applies the reply.\<close>

definition demo_store :: PurgeStore where
  "demo_store = fst (Add (NewPurgeStore 8) ''tag'' [] [] ''a'')"

definition demo_issued :: sync where
  "demo_issued = (sync_init 8 [])\<lparr>store := demo_store, hist := [(0, last (entries demo_store))]\<rparr>"

definition demo_polled :: sync where
  "demo_polled = demo_issued\<lparr>inflight := {(0, Since demo_store 0 (\<lambda>_. False))}\<rparr>"

definition demo_applied :: "call_log PurgeTable" where
  "demo_applied = fst (refresh 0 (Since demo_store 0 (\<lambda>_. False)) (new_table [] Missing))"

lemma demo_issued_reach: "sync_reach r (\<lambda>_. False) demo_issued"
proof -
  have "Add (store (sync_init 8 [])) ''tag'' [] [] ''a'' = (demo_store, (1, True))" by code_simp
  from sync_reach.step [OF sync_reach.init sync_step.issue [OF this]] show ?thesis
    by (simp add: demo_issued_def sync_init_def)
qed

theorem purge_never_skipped_witness:
  "\<exists>s p. sync_reach False (\<lambda>_. False) s \<and> p \<in> set (hist s) \<and> seq (snd p) \<le> cursor (table s) \<and>
     purge_done (tbl (table s)) p"
proof -
  let ?allow = "\<lambda>_::string. False"
  let ?s = "demo_polled\<lparr>table := demo_applied,
     pending := set_option (snd (refresh 0 (Since demo_store 0 ?allow) (new_table [] Missing))) \<union> pending demo_polled\<rparr>"
  have "sync_reach False ?allow (demo_issued\<lparr>inflight := insert (cursor (table demo_issued),
      Since (store demo_issued) (cursor (table demo_issued)) ?allow) (inflight demo_issued)\<rparr>)"
    by (rule sync_reach.step [OF demo_issued_reach sync_step.poll])
  moreover have "cursor (table demo_issued) = 0" by code_simp
  ultimately have r: "sync_reach False ?allow demo_polled"
    by (simp add: demo_polled_def) (simp add: demo_issued_def sync_init_def)
  have f: "(0, Since demo_store 0 ?allow) \<in> inflight demo_polled" by (simp add: demo_polled_def)
  have "refresh (clk demo_polled) (Since demo_store 0 ?allow) (table demo_polled) =
      (demo_applied, snd (refresh 0 (Since demo_store 0 ?allow) (new_table [] Missing)))"
    by (simp add: demo_polled_def demo_issued_def sync_init_def demo_applied_def)
  from sync_reach.step [OF r sync_step.deliver [OF f this]] have s: "sync_reach False ?allow ?s"
    by (simp add: demo_polled_def demo_issued_def sync_init_def)
  let ?p = "(0, last (entries demo_store))"
  have p: "?p \<in> set (hist ?s)" by (simp add: demo_polled_def demo_issued_def)
  have d: "deliverable ?allow (snd ?p)" and c: "seq (snd ?p) \<le> cursor (table ?s)"
    by (simp_all add: demo_polled_def demo_issued_def) code_simp+
  from purge_never_skipped [OF s p d c] s p c show ?thesis by blast
qed

theorem poll_converges_witness:
  "cursor demo_applied = lastSeq demo_store \<and> length (hist demo_issued) = 1 \<and>
   list_all (purge_done (tbl demo_applied)) (hist demo_issued)"
proof -
  have "cursor (table demo_issued) = 0" by code_simp
  then have "refresh (clk demo_issued) (Since (store demo_issued) (cursor (table demo_issued)) (\<lambda>_. False)) (table demo_issued) =
      (demo_applied, snd (refresh 0 (Since demo_store 0 (\<lambda>_. False)) (new_table [] Missing)))"
    by (simp add: demo_issued_def sync_init_def demo_applied_def)
  note c = poll_converges [OF demo_issued_reach this]
  have "deliverable (\<lambda>_. False) (last (entries demo_store))" by code_simp
  with c show ?thesis by (simp add: demo_issued_def)
qed

subsection \<open>A control-plane restart can lose purges\<close>

lemma reach_issue:
  assumes "sync_reach r allow s" and "Add (store s) sc h u t = (st, (n, True))"
    and "length (hist s) + 2 < 2 ^ 64"
  shows "\<exists>s'. sync_reach r allow s' \<and> store s' = st \<and> table s' = table s \<and> clk s' = clk s \<and>
    hist s' = hist s @ [(clk s, last (entries st))]"
  using sync_reach.step [OF assms(1) sync_step.issue [OF assms(2,3)]] by fastforce

lemma reach_poll_deliver:
  assumes "sync_reach r allow s"
  shows "\<exists>s'. sync_reach r allow s' \<and> store s' = store s \<and> hist s' = hist s \<and> clk s' = clk s \<and>
    table s' = fst (refresh (clk s) (Since (store s) (cursor (table s)) allow) (table s))"
proof -
  let ?c = "cursor (table s)" and ?r = "Since (store s) (cursor (table s)) allow"
  let ?s1 = "s\<lparr>inflight := insert (?c, ?r) (inflight s)\<rparr>"
  have r1: "sync_reach r allow ?s1" by (rule sync_reach.step [OF assms sync_step.poll])
  have "(?c, ?r) \<in> inflight ?s1" by simp
  moreover have "refresh (clk ?s1) ?r (table ?s1) =
      (fst (refresh (clk s) ?r (table s)), snd (refresh (clk s) ?r (table s)))" by simp
  ultimately have "sync_step r allow ?s1 (?s1\<lparr>table := fst (refresh (clk s) ?r (table s)),
      pending := set_option (snd (refresh (clk s) ?r (table s))) \<union> pending ?s1\<rparr>)"
    by (rule sync_step.deliver)
  from sync_reach.step [OF r1 this] show ?thesis by fastforce
qed

lemma reach_cp_restart:
  assumes "sync_reach True allow s"
  shows "\<exists>s'. sync_reach True allow s' \<and> store s' = NewPurgeStore k \<and> table s' = table s \<and>
    clk s' = clk s \<and> hist s' = []"
  using sync_reach.step [OF assms sync_step.cp_restart [OF TrueI]] by fastforce

definition restart_store1 :: PurgeStore where
  "restart_store1 = fst (Add (NewPurgeStore 8) ''host'' ''b.io'' [] [])"

definition restart_store2 :: PurgeStore where
  "restart_store2 = fst (Add restart_store1 ''host'' ''c.io'' [] [])"

definition restart_table :: "call_log PurgeTable" where
  "restart_table = fst (refresh 0 (Since demo_store 0 (\<lambda>_. True)) (new_table [] Missing))"

definition restart_table2 :: "call_log PurgeTable" where
  "restart_table2 = fst (refresh 0 (Since restart_store2 1 (\<lambda>_. True)) restart_table)"

lemma restart_evals:
  "Add (NewPurgeStore 8) ''tag'' [] [] ''a'' = (demo_store, (1, True))"
  "Add (NewPurgeStore 8) ''host'' ''b.io'' [] [] = (restart_store1, (1, True))"
  "Add restart_store1 ''host'' ''c.io'' [] [] = (restart_store2, (2, True))"
  "cursor restart_table = 1" "cursor restart_table2 = 2" "lastSeq restart_store2 = 2"
  "seq (last (entries restart_store1)) = 1"
  "\<not> purge_done (tbl restart_table2) (0, last (entries restart_store1))"
  by code_simp+

text \<open>C21. The restart guard has a gap: when the control plane restarts and then issues at least as many
  purges as the edge's cursor before the edge polls, the cursor is neither ahead of the new journal
  nor behind its window, so no flush is demanded. There is a run (purge, sync, restart, two purges,
  sync) after which the edge is at the journal's last sequence number and yet the first purge issued
  after the restart, which the edge is entitled to see and whose number is not above its cursor, was
  never carried out on its table.\<close>

theorem restart_skips_purge:
  "\<exists>s p. sync_reach True (\<lambda>_. True) s \<and> cursor (table s) = lastSeq (store s) \<and>
     p \<in> set (hist s) \<and> deliverable (\<lambda>_. True) (snd p) \<and> seq (snd p) \<le> cursor (table s) \<and>
     \<not> purge_done (tbl (table s)) p"
proof -
  let ?allow = "\<lambda>_::string. True"
  have i: "sync_reach True ?allow (sync_init 8 [])" by (rule sync_reach.init)
  have "Add (store (sync_init 8 [])) ''tag'' [] [] ''a'' = (demo_store, (1, True))"
    by (simp add: sync_init_def restart_evals)
  from reach_issue [OF i this] obtain s1 where r1: "sync_reach True ?allow s1"
    and s1: "store s1 = demo_store" "table s1 = new_table [] Missing" "clk s1 = 0"
    by (auto simp: sync_init_def)
  from reach_poll_deliver [OF r1] s1 obtain s2 where r2: "sync_reach True ?allow s2"
    and s2: "table s2 = restart_table" "clk s2 = 0"
    by (auto simp: restart_table_def new_table_def NewPurgeTable_def load_def)
  from reach_cp_restart [OF r2, of 8] s2 obtain s3 where r3: "sync_reach True ?allow s3"
    and s3: "store s3 = NewPurgeStore 8" "table s3 = restart_table" "clk s3 = 0" "hist s3 = []"
    by auto
  from reach_issue [OF r3, of "''host''" "''b.io''" "[]" "[]"] s3 restart_evals(2) obtain s4
    where r4: "sync_reach True ?allow s4"
      and s4: "store s4 = restart_store1" "table s4 = restart_table" "clk s4 = 0"
        "hist s4 = [(0, last (entries restart_store1))]"
    by auto
  from reach_issue [OF r4, of "''host''" "''c.io''" "[]" "[]"] s4 restart_evals(3) obtain s5
    where r5: "sync_reach True ?allow s5"
      and s5: "store s5 = restart_store2" "table s5 = restart_table" "clk s5 = 0"
        "(0, last (entries restart_store1)) \<in> set (hist s5)"
    by auto
  from reach_poll_deliver [OF r5] s5 obtain s6 where r6: "sync_reach True ?allow s6"
    and s6: "store s6 = restart_store2" "table s6 = restart_table2"
      "(0, last (entries restart_store1)) \<in> set (hist s6)"
    by (auto simp: restart_table2_def restart_evals)
  have "deliverable ?allow (snd (0::time, last (entries restart_store1)))" by (simp add: deliverable_def)
  with r6 s6 show ?thesis
    by (intro exI [of _ s6] exI [of _ "(0, last (entries restart_store1))"]) (simp add: restart_evals)
qed

subsection \<open>Snapshots on disk\<close>

text \<open>A stale snapshot never replaces a newer one: writing a snapshot whose version is not above
  the last version written leaves the file alone, and after a completed write the recorded version is
  the written one. The write is atomic: whatever system call fails, the file is either the previous
  one or the complete new snapshot. When every system call succeeds, the persisted version never
  goes down.\<close>

theorem persist_monotone:
  "persist io t f sn v = (t', f', ok) \<Longrightarrow>
   persistedVer t \<le> persistedVer t' \<and> (f' = f \<or> f' = Stored sn) \<and>
   (v \<le> persistedVer t \<longrightarrow> f' = f \<and> t' = t) \<and>
   (ok \<and> persistedVer t < v \<and> path t \<noteq> '''' \<longrightarrow> f' = Stored sn \<and> persistedVer t' = v)"
  by (auto simp: persist_def atomicWriteFile_def Let_def not_le split: if_splits prod.splits)

definition all_ok :: io_outcome where
  "all_ok = \<lparr>create_ok = True, write_ok = True, sync_ok = True, close_ok = True, rename_ok = True, fsyncDir_ok = True\<rparr>"

definition demo_snap :: "call_log persistState" where
  "demo_snap = \<lparr>ps_Snapshot = [], ps_Cursor = 5\<rparr>"

theorem persist_monotone_witness:
  "snd (snd (persist all_ok (new_table ''/s'' Missing) Missing demo_snap 1)) \<and>
   fst (snd (persist all_ok (new_table ''/s'' Missing) Missing demo_snap 1)) = Stored demo_snap"
proof -
  let ?r = "persist all_ok (new_table ''/s'' Missing) Missing demo_snap 1"
  have ok: "snd (snd ?r)" by code_simp
  have "?r = (fst ?r, fst (snd ?r), snd (snd ?r))" by simp
  from persist_monotone [OF this] ok show ?thesis
    by (simp add: new_table_def NewPurgeTable_def load_def)
qed

end
