(* ===== verification/Route_Table.thy ===== *)
theory Route_Table
  imports Go_Prelude "HOL-Library.Multiset"
begin

section \<open>The route table (package route)\<close>

text \<open>
  The upstream routing of the controller: \<^verbatim>\<open>route/badaddr.go\<close> (the table of recently failed pod
  addresses), \<^verbatim>\<open>route/rrlb.go\<close> (the round-robin load balancer) and \<^verbatim>\<open>route/table.go\<close> (the table that
  resolves a service address to a pod address).

  \<^item> \<open>badAddrTable\<close> is the \<^verbatim>\<open>sync.Map\<close> from host to the time it was marked; the nil receiver of
    \<^verbatim>\<open>IsBad\<close> is \<^const>\<open>None\<close>. Each operation takes the clock reading \<open>now\<close>.
  \<^item> \<open>RRLB\<close> holds the immutable pod IPs and the 32-bit counter that \<^verbatim>\<open>atomic.AddUint32\<close> advances,
    so \<open>RRLB_Get\<close> returns the balancer as well.
  \<^item> \<open>Table\<close> holds the three address maps. \<^verbatim>\<open>Lookup\<close> advances the counter of the balancer it
    consults, so it returns the table as well.
\<close>

subsection \<open>Bad addresses\<close>

type_synonym badAddrTable = "string \<rightharpoonup> time"

definition badDuration :: duration where
  "badDuration = 2 * second"

definition IsBad :: "badAddrTable option \<Rightarrow> time \<Rightarrow> string \<Rightarrow> bool" where
  "IsBad t now host =
     (case t of
        None \<Rightarrow> False
      | Some addrs \<Rightarrow>
          (case addrs host of
             None \<Rightarrow> False
           | Some p \<Rightarrow> now - p \<le> badDuration))"

definition mark :: "badAddrTable \<Rightarrow> time \<Rightarrow> string \<Rightarrow> badAddrTable \<times> bool" where
  "mark addrs now host = (addrs(host \<mapsto> now), \<not> IsBad (Some addrs) now host)"

definition MarkBad :: "badAddrTable \<Rightarrow> time \<Rightarrow> string \<Rightarrow> badAddrTable" where
  "MarkBad addrs now addr =
     (let host = (case split_host_port addr of Inl _ \<Rightarrow> '''' | Inr (h, _) \<Rightarrow> h);
          host = (if host = '''' then addr else host)
      in fst (mark addrs now host))"

definition Clear :: "badAddrTable \<Rightarrow> time \<Rightarrow> badAddrTable" where
  "Clear addrs now =
     (\<lambda>k. case addrs k of
            None \<Rightarrow> None
          | Some v \<Rightarrow> if now - v > badDuration then None else Some v)"

subsection \<open>The round-robin load balancer\<close>

record RRLB =
  IPs :: "string list"
  current :: "32 word"

function get_loop :: "(string \<Rightarrow> bool) \<Rightarrow> string list \<Rightarrow> nat \<Rightarrow> nat \<Rightarrow> string" where
  "get_loop bad ips p k =
     (if k < length ips then
        (let ip = ips ! ((p + k) mod length ips)
         in if \<not> bad ip then ip else get_loop bad ips p (Suc k))
      else '''')"
  by pat_completeness auto
termination
  by (relation "measure (\<lambda>(bad, ips, p, k). length ips - k)") auto

declare get_loop.simps [simp del]

definition RRLB_Get :: "RRLB \<Rightarrow> badAddrTable option \<Rightarrow> time \<Rightarrow> string \<times> RRLB" where
  "RRLB_Get lb badAddr now =
     (let l = length (IPs lb)
      in if l = 0 then ('''', lb)
         else if l = 1 then (IPs lb ! 0, lb)
         else
           (let c = current lb + 1;
                p = unat (c mod of_nat l)
            in (get_loop (IsBad badAddr now) (IPs lb) p 0, lb\<lparr>current := c\<rparr>)))"

subsection \<open>The table\<close>

record Table =
  addrToTargetHost :: "string \<rightharpoonup> RRLB"
  addrToTargetPort :: "string \<rightharpoonup> string"
  addrToExternalName :: "string \<rightharpoonup> string"
  badAddr :: badAddrTable
  bgJobStarted :: bool

definition Lookup :: "Table \<Rightarrow> time \<Rightarrow> string \<Rightarrow> string \<times> Table" where
  "Lookup t now addr =
     (case last_index_byte (CHR '':'') addr of
        None \<Rightarrow> ('''', t)
      | Some i \<Rightarrow>
          (let host = take i addr
           in case addrToTargetPort t addr of
                None \<Rightarrow> ('''', t)
              | Some targetPort \<Rightarrow>
                  (case addrToTargetHost t host of
                     Some lb \<Rightarrow>
                       (let (hostIP, lb') = RRLB_Get lb (Some (badAddr t)) now;
                            t' = t\<lparr>addrToTargetHost := (addrToTargetHost t)(host \<mapsto> lb')\<rparr>
                        in if hostIP = '''' then ('''', t')
                           else (join_host_port hostIP targetPort, t'))
                   | None \<Rightarrow>
                       (case addrToExternalName t host of
                          Some externalName \<Rightarrow> (join_host_port externalName targetPort, t)
                        | None \<Rightarrow> ('''', t)))))"

definition SetHostRoutes :: "Table \<Rightarrow> (string \<rightharpoonup> RRLB) \<Rightarrow> Table" where
  "SetHostRoutes t routes = t\<lparr>addrToTargetHost := routes, bgJobStarted := True\<rparr>"

definition SetHostRoute :: "Table \<Rightarrow> string \<Rightarrow> RRLB option \<Rightarrow> Table" where
  "SetHostRoute t host lb =
     t\<lparr>bgJobStarted := True,
       addrToTargetHost :=
         (case lb of
            Some b \<Rightarrow> (addrToTargetHost t)(host \<mapsto> b)
          | None \<Rightarrow> (addrToTargetHost t)(host := None))\<rparr>"

definition SetPortRoutes :: "Table \<Rightarrow> (string \<rightharpoonup> string) \<Rightarrow> Table" where
  "SetPortRoutes t routes = t\<lparr>addrToTargetPort := routes\<rparr>"

definition SetExternalNameRoutes :: "Table \<Rightarrow> (string \<rightharpoonup> string) \<Rightarrow> Table" where
  "SetExternalNameRoutes t routes = t\<lparr>addrToExternalName := routes\<rparr>"

definition Table_MarkBad :: "Table \<Rightarrow> time \<Rightarrow> string \<Rightarrow> Table" where
  "Table_MarkBad t now addr = t\<lparr>badAddr := MarkBad (badAddr t) now addr\<rparr>"

text \<open>The background job: \<^verbatim>\<open>clearLoop\<close> calls \<^verbatim>\<open>Clear\<close> every ten minutes, once started.\<close>

definition clearLoop_step :: "Table \<Rightarrow> time \<Rightarrow> Table" where
  "clearLoop_step t now =
     (if bgJobStarted t then t\<lparr>badAddr := Clear (badAddr t) now\<rparr> else t)"

subsection \<open>The health interface the balancer relies on\<close>

text \<open>
  What the table promises to the balancer: a marked host is reported bad for \<open>window\<close> and not
  longer, marking one host says nothing about another, and the periodic clean-up is invisible.
\<close>

locale health_table =
  fixes is_bad :: "'s \<Rightarrow> time \<Rightarrow> string \<Rightarrow> bool"
    and mark_bad :: "'s \<Rightarrow> time \<Rightarrow> string \<Rightarrow> 's"
    and clear :: "'s \<Rightarrow> time \<Rightarrow> 's"
    and window :: duration
  assumes is_bad_mark_same: "is_bad (mark_bad s t h) now h \<longleftrightarrow> now - t \<le> window"
    and is_bad_mark_other: "h' \<noteq> h \<Longrightarrow> is_bad (mark_bad s t h) now h' \<longleftrightarrow> is_bad s now h'"
    and is_bad_clear: "t \<le> now \<Longrightarrow> is_bad (clear s t) now h \<longleftrightarrow> is_bad s now h"
    and is_bad_expires: "is_bad s now h \<Longrightarrow> t \<le> now \<Longrightarrow> is_bad s t h"
begin

lemma mark_then_clear:
  assumes "t \<le> now"
  shows "is_bad (clear (mark_bad s t0 h) t) now h \<longleftrightarrow> now - t0 \<le> window"
  using is_bad_clear [OF assms] is_bad_mark_same by simp

lemma mark_again:
  "is_bad (mark_bad (mark_bad s t0 h) t h) now h' \<longleftrightarrow> is_bad (mark_bad s t h) now h'"
  by (cases "h' = h") (simp_all add: is_bad_mark_same is_bad_mark_other)

end

lemmas bad_defs = IsBad_def mark_def MarkBad_def Clear_def badDuration_def

interpretation bad: health_table
  "\<lambda>s. IsBad (Some s)" "\<lambda>s now h. fst (mark s now h)" Clear badDuration
  by unfold_locales (auto simp: bad_defs split: option.splits)

lemma MarkBad_host_port:
  "bracket_free h \<Longrightarrow> port_text p \<Longrightarrow> h \<noteq> '''' \<Longrightarrow>
   MarkBad s now (join_host_port h p) = fst (mark s now h)"
  by (simp add: MarkBad_def go_simps)

subsection \<open>The balancer\<close>

lemma get_loop_find:
  "get_loop bad ips p k =
     (case find (\<lambda>j. \<not> bad (ips ! ((p + j) mod length ips))) [k..<length ips] of
        None \<Rightarrow> '''' | Some j \<Rightarrow> ips ! ((p + j) mod length ips))"
proof (induction bad ips p k rule: get_loop.induct)
  case (1 bad ips p k)
  show ?case
  proof (cases "k < length ips")
    case True
    then show ?thesis
      using "1.IH" by (subst get_loop.simps) (simp add: Let_def upt_conv_Cons)
  next
    case False
    then show ?thesis by (subst get_loop.simps) simp
  qed
qed

lemma rotation_covers:
  assumes "ip \<in> set ips"
  shows "\<exists>j < length ips. ips ! ((p + j) mod length ips) = ip"
proof -
  have "ip \<in> set (rotate p ips)" using assms by simp
  then obtain j where "j < length (rotate p ips)" and "rotate p ips ! j = ip"
    unfolding in_set_conv_nth by blast
  then show ?thesis using nth_rotate [of j ips p] by (metis add.commute length_rotate)
qed

lemma get_loop_healthy:
  assumes "ip \<in> set ips" and "\<not> bad ip"
  shows "get_loop bad ips p 0 \<in> set ips \<and> \<not> bad (get_loop bad ips p 0)"
proof -
  let ?P = "\<lambda>j. \<not> bad (ips ! ((p + j) mod length ips))"
  obtain j where "j < length ips" and "ips ! ((p + j) mod length ips) = ip"
    using rotation_covers [OF assms(1)] by blast
  with assms(2) obtain i where f: "find ?P [0..<length ips] = Some i"
    by (cases "find ?P [0..<length ips]") (auto simp: find_None_iff)
  then have i: "?P i" and "i < length ips" by (auto simp: find_Some_iff)
  then have "(p + i) mod length ips < length ips" by (intro mod_less_divisor) auto
  then show ?thesis using f i by (simp add: get_loop_find)
qed

lemma get_loop_all_bad:
  assumes "\<forall>ip \<in> set ips. bad ip"
  shows "get_loop bad ips p 0 = ''''"
proof -
  have "bad (ips ! ((p + j) mod length ips))" if "j < length ips" for j
    using assms that by (metis length_pos_if_in_set mod_less_divisor neq0_conv not_less_zero nth_mem)
  then have "find (\<lambda>j. \<not> bad (ips ! ((p + j) mod length ips))) [0..<length ips] = None"
    by (simp add: find_None_iff)
  then show ?thesis by (simp add: get_loop_find)
qed

lemma get_loop_first:
  "ips \<noteq> [] \<Longrightarrow> \<not> bad (ips ! (p mod length ips)) \<Longrightarrow> get_loop bad ips p 0 = ips ! (p mod length ips)"
  by (subst get_loop.simps) (simp add: Let_def)

lemma RRLB_Get_IPs [simp]: "IPs (snd (RRLB_Get lb b now)) = IPs lb"
  by (simp add: RRLB_Get_def Let_def)

lemma unat_mod_len:
  assumes "0 < l" and "l < 2 ^ 32"
  shows "unat ((c :: 32 word) mod of_nat l) = unat c mod l"
proof -
  have "unat (of_nat l :: 32 word) = l"
    using assms(2) by (simp add: unat_of_nat take_bit_nat_eq_self_iff)
  then show ?thesis by (simp add: unat_mod)
qed

text \<open>The answers of \<open>n\<close> consecutive calls at one instant.\<close>

fun rrlb_run :: "RRLB \<Rightarrow> badAddrTable option \<Rightarrow> time \<Rightarrow> nat \<Rightarrow> string list" where
  "rrlb_run lb b now 0 = []"
| "rrlb_run lb b now (Suc n) =
     (let (ip, lb') = RRLB_Get lb b now in ip # rrlb_run lb' b now n)"

lemma RRLB_Get_healthy_next:
  assumes "2 \<le> length (IPs lb)" and "length (IPs lb) < 2 ^ 32"
    and "\<forall>ip \<in> set (IPs lb). \<not> IsBad b now ip"
    and "unat (current lb) + 1 < 2 ^ 32"
  shows "RRLB_Get lb b now =
    (IPs lb ! ((unat (current lb) + 1) mod length (IPs lb)), lb\<lparr>current := current lb + 1\<rparr>)"
proof -
  have c: "unat (current lb + 1) = unat (current lb) + 1"
    using assms(4) by (simp add: unat_word_ariths)
  have ne: "IPs lb \<noteq> []" using assms(1) by auto
  then have "unat ((current lb + 1) mod of_nat (length (IPs lb))) = (unat (current lb) + 1) mod length (IPs lb)"
    using unat_mod_len [of "length (IPs lb)" "current lb + 1"] assms(2) c by simp
  moreover note ne
  moreover have "\<not> IsBad b now (IPs lb ! ((unat (current lb) + 1) mod length (IPs lb)))"
    using assms(3) ne by simp
  ultimately show ?thesis
    using assms(1) by (simp add: RRLB_Get_def Let_def get_loop_first)
qed

lemma rrlb_run_rotation:
  assumes "2 \<le> length (IPs lb)" and "length (IPs lb) < 2 ^ 32"
    and "\<forall>ip \<in> set (IPs lb). \<not> IsBad b now ip"
    and "unat (current lb) + n < 2 ^ 32"
  shows "rrlb_run lb b now n =
    map (\<lambda>i. IPs lb ! ((unat (current lb) + 1 + i) mod length (IPs lb))) [0..<n]"
  using assms
proof (induction n arbitrary: lb)
  case 0
  then show ?case by simp
next
  case (Suc n)
  let ?lb = "lb\<lparr>current := current lb + 1\<rparr>"
  have c: "unat (current lb + 1) = unat (current lb) + 1"
    using Suc.prems(4) by (simp add: unat_word_ariths)
  have "rrlb_run ?lb b now n =
      map (\<lambda>i. IPs lb ! ((unat (current lb) + 1 + Suc i) mod length (IPs lb))) [0..<n]"
    using Suc.IH [of ?lb] Suc.prems c by (simp add: add.assoc)
  moreover have "[0..<Suc n] = 0 # map Suc [0..<n]"
    by (simp add: map_Suc_upt upt_conv_Cons)
  moreover have "RRLB_Get lb b now =
      (IPs lb ! ((unat (current lb) + 1) mod length (IPs lb)), ?lb)"
    using RRLB_Get_healthy_next [of lb b now] Suc.prems by simp
  ultimately show ?case by (simp add: comp_def del: upt_Suc)
qed

lemma rrlb_run_rotate:
  assumes "2 \<le> length (IPs lb)" and "length (IPs lb) < 2 ^ 32"
    and "\<forall>ip \<in> set (IPs lb). \<not> IsBad b now ip"
    and "unat (current lb) + length (IPs lb) < 2 ^ 32"
  shows "rrlb_run lb b now (length (IPs lb)) = rotate (unat (current lb) + 1) (IPs lb)"
  by (rule nth_equalityI)
    (simp_all add: rrlb_run_rotation [OF assms] nth_rotate add.commute del: rotate_Suc)

subsection \<open>Lookup\<close>

text \<open>Well-formed routes: pod IPs are non-empty address text and target ports are port text, as the
  controller builds them from EndpointSlices and Services.\<close>

definition rrlb_wf :: "RRLB \<Rightarrow> bool" where
  "rrlb_wf lb \<longleftrightarrow> (\<forall>ip \<in> set (IPs lb). ip \<noteq> '''' \<and> bracket_free ip)"

definition table_wf :: "Table \<Rightarrow> bool" where
  "table_wf t \<longleftrightarrow>
     (\<forall>lb \<in> ran (addrToTargetHost t). rrlb_wf lb) \<and> (\<forall>p \<in> ran (addrToTargetPort t). port_text p)"

lemma rrlb_wf_Get: "rrlb_wf (snd (RRLB_Get lb b now)) \<longleftrightarrow> rrlb_wf lb"
  by (simp add: rrlb_wf_def)

lemma RRLB_Get_many:
  assumes "2 \<le> length (IPs lb)"
  obtains p where "fst (RRLB_Get lb b now) = get_loop (IsBad b now) (IPs lb) p 0"
  using assms by (force simp: RRLB_Get_def Let_def)

lemma RRLB_Get_mem:
  assumes "fst (RRLB_Get lb b now) = ip" and "ip \<noteq> ''''"
  shows "ip \<in> set (IPs lb)"
proof (cases "length (IPs lb) \<le> 1")
  case True
  with assms show ?thesis
    by (cases "IPs lb") (auto simp: RRLB_Get_def Let_def)
next
  case False
  then obtain p where g: "ip = get_loop (IsBad b now) (IPs lb) p 0"
    using assms(1) RRLB_Get_many [of lb b now] by (metis Suc_1 not_less_eq_eq One_nat_def)
  with assms(2) have "\<not> (\<forall>x \<in> set (IPs lb). IsBad b now x)"
    using get_loop_all_bad by blast
  then show ?thesis using g get_loop_healthy by blast
qed

lemma RRLB_Get_not_bad:
  assumes "2 \<le> length (IPs lb)" and "fst (RRLB_Get lb b now) = ip" and "ip \<noteq> ''''"
  shows "\<not> IsBad b now ip"
proof -
  obtain p where g: "ip = get_loop (IsBad b now) (IPs lb) p 0"
    using assms(2) RRLB_Get_many [OF assms(1), of b now] by blast
  with assms(3) have "\<not> (\<forall>x \<in> set (IPs lb). IsBad b now x)"
    using get_loop_all_bad by blast
  then show ?thesis using g get_loop_healthy by blast
qed

lemma Lookup_pod:
  assumes "last_index_byte (CHR '':'') addr = Some i"
    and "addrToTargetPort t addr = Some p"
    and "addrToTargetHost t (take i addr) = Some lb"
  shows "Lookup t now addr =
    (let r = RRLB_Get lb (Some (badAddr t)) now
     in (if fst r = '''' then '''' else join_host_port (fst r) p,
         t\<lparr>addrToTargetHost := (addrToTargetHost t)(take i addr \<mapsto> snd r)\<rparr>))"
  using assms by (simp add: Lookup_def Let_def split_def)

lemma join_host_port_inj:
  assumes "bracket_free h" "bracket_free h'" "port_text p" "port_text p'"
    and "join_host_port h p = join_host_port h' p'"
  shows "h = h' \<and> p = p'"
proof -
  have "split_host_port (join_host_port h p) = Inr (h, p)"
    and "split_host_port (join_host_port h' p') = Inr (h', p')"
    using assms(1-4) by (simp_all add: go_simps)
  with assms(5) show ?thesis by (metis Pair_inject sum.inject(2))
qed

lemma mset_rotate: "mset (rotate n xs) = mset xs"
  by (metis append_take_drop_id mset_append rotate_drop_take union_commute)

subsection \<open>Properties\<close>

text \<open>C20. A service with at least two pods: \<^verbatim>\<open>RRLB.Get\<close> answers with one of the service's pod IPs
  that is not marked bad whenever such a pod exists, and with the empty string exactly when every
  pod is marked bad (so a request is refused at once and never queued on a dead pod).\<close>

theorem RRLB_Get_picks_healthy:
  assumes "2 \<le> length (IPs lb)" and "'''' \<notin> set (IPs lb)"
  shows "(if \<exists>ip \<in> set (IPs lb). \<not> IsBad b now ip
          then fst (RRLB_Get lb b now) \<in> set (IPs lb) \<and> \<not> IsBad b now (fst (RRLB_Get lb b now))
          else fst (RRLB_Get lb b now) = '''')"
proof -
  obtain p where g: "fst (RRLB_Get lb b now) = get_loop (IsBad b now) (IPs lb) p 0"
    by (rule RRLB_Get_many [OF assms(1)])
  show ?thesis
  proof (cases "\<exists>ip \<in> set (IPs lb). \<not> IsBad b now ip")
    case True
    then show ?thesis using g get_loop_healthy [of _ "IPs lb" "IsBad b now" p] by auto
  next
    case False
    then show ?thesis using g get_loop_all_bad [of "IPs lb" "IsBad b now" p] by auto
  qed
qed

definition demo_lb :: RRLB where
  "demo_lb = \<lparr>IPs = [''10.0.0.1'', ''10.0.0.2'', ''10.0.0.3''], current = 7\<rparr>"

definition demo_bad :: badAddrTable where
  "demo_bad = [''10.0.0.3'' \<mapsto> 100]"

theorem RRLB_Get_picks_healthy_witness:
  "2 \<le> length (IPs demo_lb) \<and> '''' \<notin> set (IPs demo_lb) \<and>
   fst (RRLB_Get demo_lb (Some demo_bad) 100) \<in> set (IPs demo_lb) \<and>
   \<not> IsBad (Some demo_bad) 100 (fst (RRLB_Get demo_lb (Some demo_bad) 100))"
proof -
  have h: "2 \<le> length (IPs demo_lb)" "'''' \<notin> set (IPs demo_lb)"
    by (simp_all add: demo_lb_def)
  have "\<exists>ip \<in> set (IPs demo_lb). \<not> IsBad (Some demo_bad) 100 ip"
    by (simp add: demo_lb_def demo_bad_def IsBad_def)
  then show ?thesis
    using h RRLB_Get_picks_healthy [OF h, of "Some demo_bad" 100] by simp
qed

text \<open>Round robin is fair: with no pod marked bad, as many consecutive calls as there are pods
  answer with every pod exactly once (the answers are a rotation of the pod list), as long as the
  32-bit counter does not wrap during them.\<close>

theorem RRLB_Get_fair:
  assumes "2 \<le> length (IPs lb)" and "\<forall>ip \<in> set (IPs lb). \<not> IsBad b now ip"
    and "unat (current lb) + length (IPs lb) < 2 ^ 32"
  shows "mset (rrlb_run lb b now (length (IPs lb))) = mset (IPs lb)"
proof -
  have "length (IPs lb) < 2 ^ 32" using assms(3) by linarith
  then show ?thesis
    using rrlb_run_rotate [OF assms(1) _ assms(2,3)] by (simp add: mset_rotate del: rotate_Suc)
qed

theorem RRLB_Get_fair_witness:
  "mset (rrlb_run demo_lb None 0 3) = mset [''10.0.0.1'', ''10.0.0.2'', ''10.0.0.3'']"
proof -
  have l: "length (IPs demo_lb) = 3" by (simp add: demo_lb_def)
  have "mset (rrlb_run demo_lb None 0 (length (IPs demo_lb))) = mset (IPs demo_lb)"
    by (rule RRLB_Get_fair) (simp_all add: demo_lb_def IsBad_def)
  then show ?thesis unfolding l by (simp add: demo_lb_def)
qed

text \<open>C18. Lookup answers only with configured targets: a non-empty answer for \<open>addr\<close> joins the
  target port configured for exactly that address with a pod IP of the service host, or with its
  external name when the host has no pods registered.\<close>

theorem Lookup_sound:
  assumes "fst (Lookup t now addr) = a" and "a \<noteq> ''''"
  shows "\<exists>host port tp. addr = host @ '':'' @ port \<and> CHR '':'' \<notin> set port \<and>
    addrToTargetPort t addr = Some tp \<and>
    ((\<exists>lb ip. addrToTargetHost t host = Some lb \<and> ip \<in> set (IPs lb) \<and> a = join_host_port ip tp) \<or>
     (\<exists>n. addrToTargetHost t host = None \<and> addrToExternalName t host = Some n \<and>
          a = join_host_port n tp))"
proof -
  from assms obtain i where i: "last_index_byte (CHR '':'') addr = Some i"
    by (cases "last_index_byte (CHR '':'') addr") (auto simp: Lookup_def)
  from assms i obtain tp where tp: "addrToTargetPort t addr = Some tp"
    by (cases "addrToTargetPort t addr") (auto simp: Lookup_def Let_def)
  have a: "addr = take i addr @ '':'' @ drop (Suc i) addr" "CHR '':'' \<notin> set (drop (Suc i) addr)"
    using last_index_byte_SomeD [OF i] by auto
  have "(\<exists>lb ip. addrToTargetHost t (take i addr) = Some lb \<and> ip \<in> set (IPs lb) \<and> a = join_host_port ip tp) \<or>
     (\<exists>n. addrToTargetHost t (take i addr) = None \<and> addrToExternalName t (take i addr) = Some n \<and>
          a = join_host_port n tp)"
  proof (cases "addrToTargetHost t (take i addr)")
    case None
    with assms i tp show ?thesis by (auto simp: Lookup_def Let_def split: option.splits)
  next
    case (Some lb)
    let ?ip = "fst (RRLB_Get lb (Some (badAddr t)) now)"
    from assms Lookup_pod [OF i tp Some, of now] have "?ip \<noteq> ''''" and "a = join_host_port ?ip tp"
      by (auto simp: Let_def split: if_splits)
    with RRLB_Get_mem [OF refl] Some show ?thesis by blast
  qed
  with a tp show ?thesis by blast
qed

definition demo_table :: Table where
  "demo_table = \<lparr>addrToTargetHost = [''api.ns.svc'' \<mapsto> demo_lb],
     addrToTargetPort = [''api.ns.svc:80'' \<mapsto> ''8080''],
     addrToExternalName = Map.empty, badAddr = Map.empty, bgJobStarted = True\<rparr>"

lemma demo_lookup: "fst (Lookup demo_table 0 ''api.ns.svc:80'') = ''10.0.0.3:8080''"
  by code_simp

theorem Lookup_sound_witness:
  "\<exists>host port tp. ''api.ns.svc:80'' = host @ '':'' @ port \<and> CHR '':'' \<notin> set port \<and>
    addrToTargetPort demo_table ''api.ns.svc:80'' = Some tp \<and>
    ((\<exists>lb ip. addrToTargetHost demo_table host = Some lb \<and> ip \<in> set (IPs lb) \<and>
        ''10.0.0.3:8080'' = join_host_port ip tp) \<or>
     (\<exists>n. addrToTargetHost demo_table host = None \<and> addrToExternalName demo_table host = Some n \<and>
        ''10.0.0.3:8080'' = join_host_port n tp))"
  by (rule Lookup_sound [OF demo_lookup]) simp



end
