(* ===== verification/Go_Text.thy ===== *)
theory Go_Text
  imports Go_Prelude
begin

text \<open>
  The text formatting of the standard library that the program builds identifiers and keys with:
  decimal numbers, joins and durations, with the facts that make such keys unambiguous.
\<close>

definition digit_char :: "nat \<Rightarrow> char" where
  "digit_char d = char_of (48 + d)"

fun nat_digits :: "nat \<Rightarrow> string" where
  "nat_digits n = (if n < 10 then [digit_char n] else nat_digits (n div 10) @ [digit_char (n mod 10)])"

declare nat_digits.simps [simp del]

text \<open>\<^verbatim>\<open>strconv.Itoa\<close> and \<^verbatim>\<open>strconv.FormatInt(_, 10)\<close>.\<close>

definition itoa :: "int \<Rightarrow> string" where
  "itoa n = (if n < 0 then ''-'' @ nat_digits (nat (- n)) else nat_digits (nat n))"

text \<open>\<^verbatim>\<open>strconv.Atoi\<close>, as the value it returns next to the error: zero for a malformed number, the nearest
  64-bit number for one out of range.\<close>

definition digit_val :: "char \<Rightarrow> int" where
  "digit_val c = of_char c - 48"

definition dec_value :: "string \<Rightarrow> int" where
  "dec_value s = foldl (\<lambda>n c. 10 * n + digit_val c) 0 s"

definition is_decimal :: "string \<Rightarrow> bool" where
  "is_decimal s \<longleftrightarrow> s \<noteq> [] \<and> list_all is_digit s"

definition atoi :: "string \<Rightarrow> int" where
  "atoi s =
     (let neg = has_prefix s ''-'';
          digits = (if neg \<or> has_prefix s ''+'' then tl s else s)
      in if \<not> is_decimal digits then 0
         else if neg then max (- (2 ^ 63)) (- dec_value digits) else min (2 ^ 63 - 1) (dec_value digits))"

fun join_by :: "char \<Rightarrow> string list \<Rightarrow> string" where
  "join_by c [] = []"
| "join_by c [x] = x"
| "join_by c (x # y # xs) = x @ c # join_by c (y # xs)"

text \<open>\<^verbatim>\<open>strings.Split\<close> at a single byte.\<close>

fun split_byte :: "char \<Rightarrow> string \<Rightarrow> string list" where
  "split_byte c [] = [[]]"
| "split_byte c (x # xs) =
     (if x = c then [] # split_byte c xs
      else case split_byte c xs of [] \<Rightarrow> [[x]] | w # ws \<Rightarrow> (x # w) # ws)"

text \<open>The fraction part of \<^verbatim>\<open>Duration.String\<close>: nine digits without trailing zeros, after a point.\<close>

definition pad9 :: "string \<Rightarrow> string" where
  "pad9 s = replicate (9 - length s) (CHR ''0'') @ s"

definition frac_string :: "nat \<Rightarrow> string" where
  "frac_string f =
     (if f = 0 then [] else ''.'' @ rev (dropWhile (\<lambda>c. c = CHR ''0'') (rev (pad9 (nat_digits f)))))"

text \<open>\<^verbatim>\<open>time.Duration.String\<close> for durations of at least a second, the only ones the code prints.\<close>

definition duration_string :: "duration \<Rightarrow> string" where
  "duration_string d =
     (let u = d div 1000000000;
          m = u div 60;
          h = m div 60
      in (if h > 0 then itoa h @ ''h'' else []) @ (if m > 0 then itoa (m mod 60) @ ''m'' else []) @
         itoa (u mod 60) @ frac_string (nat (d mod 1000000000)) @ ''s'')"

lemma nat_digits_chars: "set (nat_digits n) \<subseteq> digit_char ` {0..9}"
proof (induction n rule: nat_digits.induct)
  case (1 n)
  then show ?case
    by (cases "n < 10") (auto simp: nat_digits.simps [of n] intro!: image_eqI [of _ _ "n mod 10"])
qed

lemma digit_char_less: "d < 10 \<Longrightarrow> of_char (digit_char d) = 48 + d"
  by (simp add: digit_char_def)

lemma nat_digits_no:
  assumes "(of_char c :: nat) < 48 \<or> 57 < (of_char c :: nat)"
  shows "c \<notin> set (nat_digits n)"
proof
  assume "c \<in> set (nat_digits n)"
  then obtain d where "d \<le> 9" "c = digit_char d" using nat_digits_chars [of n] by auto
  then show False using assms digit_char_less [of d] by simp
qed

lemma nat_digits_inj: "nat_digits m = nat_digits n \<Longrightarrow> m = n"
proof (induction m arbitrary: n rule: nat_digits.induct)
  case (1 m)
  have dc: "digit_char a = digit_char b \<Longrightarrow> a < 10 \<Longrightarrow> b < 10 \<Longrightarrow> a = b" for a b
    by (metis add_left_cancel digit_char_less)
  have ne: "nat_digits k \<noteq> []" for k by (simp add: nat_digits.simps [of k])
  show ?case
  proof (cases "m < 10")
    case True
    then have "n < 10" using 1(2) ne [symmetric] by (auto simp: nat_digits.simps [of m] nat_digits.simps [of n] split: if_splits)
    then show ?thesis using 1(2) True dc by (simp add: nat_digits.simps [of m] nat_digits.simps [of n])
  next
    case False
    then have n: "\<not> n < 10" using 1(2) ne by (auto simp: nat_digits.simps [of m] nat_digits.simps [of n] split: if_splits)
    then have e: "nat_digits (m div 10) = nat_digits (n div 10)" "digit_char (m mod 10) = digit_char (n mod 10)"
      using 1(2) False by (simp_all add: nat_digits.simps [of m] nat_digits.simps [of n])
    have "m div 10 = n div 10" by (rule 1(1) [OF False e(1)])
    moreover have "m mod 10 = n mod 10" using dc [OF e(2)] by simp
    ultimately show ?thesis by (metis div_mult_mod_eq)
  qed
qed

lemma itoa_inj: "itoa m = itoa n \<longleftrightarrow> m = n"
proof
  assume e: "itoa m = itoa n"
  have no: "CHR ''-'' \<notin> set (nat_digits k)" for k by (rule nat_digits_no) simp
  have "nat_digits k \<noteq> CHR ''-'' # l" for k l using no [of k] by force
  then have "nat_digits (nat (if m < 0 then - m else m)) = nat_digits (nat (if n < 0 then - n else n)) \<and> (m < 0 \<longleftrightarrow> n < 0)"
    using e by (auto simp: itoa_def split: if_splits) (metis)+
  then show "m = n" using nat_digits_inj [of "nat (if m < 0 then - m else m)" "nat (if n < 0 then - n else n)"]
    by (auto split: if_splits)
qed simp

lemma split_first:
  assumes "p @ c # q = p' @ c # q'" and "c \<notin> set p" and "c \<notin> set p'"
  shows "p = p' \<and> q = q'"
  using assms by (induction p arbitrary: p') (auto simp: Cons_eq_append_conv)

lemma split_last:
  assumes "p @ c # q = p' @ c # q'" and "c \<notin> set q" and "c \<notin> set q'"
  shows "p = p' \<and> q = q'"
  using split_first [of "rev q" c "rev p" "rev q'" "rev p'"] assms
  by (metis append_Cons append_Nil append_assoc rev.simps(2) rev_append rev_rev_ident set_rev)

lemma join_by_Cons: "xs \<noteq> [] \<Longrightarrow> join_by c (x # xs) = x @ c # join_by c xs"
  by (cases xs) simp_all

text \<open>A join of separator-free parts determines the parts.\<close>

lemma join_by_inj:
  assumes "join_by c xs = join_by c ys" and "xs \<noteq> []" and "ys \<noteq> []"
    and "\<forall>x \<in> set xs. c \<notin> set x" and "\<forall>y \<in> set ys. c \<notin> set y"
  shows "xs = ys"
  using assms
proof (induction xs arbitrary: ys)
  case (Cons x xs)
  obtain y ys' where ys: "ys = y # ys'" using Cons.prems(3) by (cases ys) auto
  have c: "c \<notin> set x" "c \<notin> set y" using Cons.prems(4,5) by (auto simp: ys)
  show ?case
  proof (cases "xs = [] \<or> ys' = []")
    case True
    then have "xs = [] \<and> ys' = []" using Cons.prems(1) c by (cases "xs = []"; cases "ys' = []") (auto simp: ys join_by_Cons)
    then show ?thesis using Cons.prems(1) by (simp add: ys)
  next
    case False
    then have "x @ c # join_by c xs = y @ c # join_by c ys'" using Cons.prems(1) by (simp add: ys join_by_Cons)
    from split_first [OF this c] have "x = y" "join_by c xs = join_by c ys'" by auto
    then show ?thesis using Cons.IH [of ys'] Cons.prems(4,5) False by (simp add: ys)
  qed
qed simp

text \<open>Decimal text reads back.\<close>

lemma is_digit_digit_char: "d < 10 \<Longrightarrow> is_digit (digit_char d)"
  by (simp add: is_digit_def digit_char_less)

lemma digit_val_digit_char: "d < 10 \<Longrightarrow> digit_val (digit_char d) = int d"
proof -
  assume "d < 10"
  then have "(of_char (digit_char d) :: nat) = 48 + d" by (rule digit_char_less)
  then have "(of_char (digit_char d) :: int) = int (48 + d)" by (metis of_nat_of_char)
  then show ?thesis by (simp add: digit_val_def)
qed

lemma dec_value_snoc: "dec_value (s @ [c]) = 10 * dec_value s + digit_val c"
  by (simp add: dec_value_def)

lemma dec_value_nat_digits [simp]: "dec_value (nat_digits n) = int n"
proof (induction n rule: nat_digits.induct)
  case (1 n)
  show ?case
  proof (cases "n < 10")
    case True
    then show ?thesis by (simp add: nat_digits.simps [of n] dec_value_def digit_val_digit_char)
  next
    case False
    then have "dec_value (nat_digits n) = 10 * int (n div 10) + int (n mod 10)"
      using 1 by (simp add: nat_digits.simps [of n] dec_value_snoc digit_val_digit_char)
    then show ?thesis by presburger
  qed
qed

lemma is_decimal_nat_digits [simp]: "is_decimal (nat_digits n)"
proof (induction n rule: nat_digits.induct)
  case (1 n)
  then show ?case by (cases "n < 10") (simp_all add: nat_digits.simps [of n] is_decimal_def is_digit_digit_char)
qed


end
