(* ===== verification/Endpoint_Routes.thy ===== *)
theory Endpoint_Routes
  imports Route_Table Go_Text
begin

section \<open>From Services and EndpointSlices to the route table\<close>

text \<open>
  The part of \<^verbatim>\<open>controller.go\<close> that keeps the route table in step with the cluster: the watched stores,
  the incremental per-service reloads, the full rebuild after a resync, and the port routes of
  Services.

  A \<^verbatim>\<open>sync.Map\<close> is a map; its \<^verbatim>\<open>Range\<close> visits the entries in an unspecified order, so an operation that
  ranges over a store takes the visited entries as a list, and \<open>range_order\<close> says that the list
  is one order of the store. Kubernetes objects are records with the fields the code reads; a nil
  pointer field is \<^const>\<open>None\<close>.
\<close>

subsection \<open>Cluster objects\<close>

datatype address_type = IPv4 | IPv6 | FQDN

record endpoint =
  ep_addresses :: "string list"
  ep_ready :: "bool option"

record endpoint_port =
  epp_name :: "string option"
  epp_port :: "int option"

record EndpointSlice =
  es_namespace :: string
  es_name :: string
  es_labels :: "string \<rightharpoonup> string"
  es_addressType :: address_type
  es_endpoints :: "endpoint list"
  es_ports :: "endpoint_port list"

record subset =
  ss_addresses :: "string list"
  ss_ports :: "(string \<times> int) list"

record Endpoints =
  eps_namespace :: string
  eps_name :: string
  eps_subsets :: "subset list"

datatype int_or_string = IntVal int | StrVal string

record ServicePort =
  svp_name :: string
  svp_port :: int
  svp_targetPort :: int_or_string
  svp_appProtocol :: "string option"

record Service =
  svc_namespace :: string
  svc_name :: string
  svc_type :: string
  svc_externalName :: string
  svc_ports :: "ServicePort list"

definition object_key :: "string \<Rightarrow> string \<Rightarrow> string" where
  "object_key namespace name = namespace @ ''/'' @ name"

definition range_order :: "(string \<rightharpoonup> 'v) \<Rightarrow> (string \<times> 'v) list \<Rightarrow> bool" where
  "range_order m xs \<longleftrightarrow> distinct (map fst xs) \<and> map_of xs = m"

subsection \<open>Watching\<close>

text \<open>One event of \<open>watchResource\<close> on the store, and \<open>resyncStore\<close> after the stream ended: the listed
  items are stored and every other entry is deleted; a failed list changes nothing.\<close>

datatype 'v watch_event = Added 'v | Modified 'v | Deleted 'v | OtherEvent

definition watch_store :: "('v \<Rightarrow> string) \<Rightarrow> 'v watch_event \<Rightarrow> (string \<rightharpoonup> 'v) \<Rightarrow> string \<rightharpoonup> 'v" where
  "watch_store key ev store =
     (case ev of
        Added obj \<Rightarrow> store(key obj \<mapsto> obj)
      | Modified obj \<Rightarrow> store(key obj \<mapsto> obj)
      | Deleted obj \<Rightarrow> store(key obj := None)
      | OtherEvent \<Rightarrow> store)"

definition resyncStore :: "('v \<Rightarrow> string) \<Rightarrow> 'v list option \<Rightarrow> (string \<rightharpoonup> 'v) \<Rightarrow> string \<rightharpoonup> 'v" where
  "resyncStore key listed store =
     (case listed of
        None \<Rightarrow> store
      | Some items \<Rightarrow>
          let present = key ` set items;
              stored = foldl (\<lambda>m obj. m(key obj \<mapsto> obj)) store items
          in (\<lambda>k. if k \<in> present then stored k else None))"

subsection \<open>Ready addresses\<close>

definition labelServiceName :: string where
  "labelServiceName = ''kubernetes.io/service-name''"

definition sliceServiceName :: "EndpointSlice \<Rightarrow> string" where
  "sliceServiceName es = (case es_labels es labelServiceName of None \<Rightarrow> [] | Some v \<Rightarrow> v)"

definition slice_ready_ips :: "EndpointSlice \<Rightarrow> string list" where
  "slice_ready_ips es =
     (if es_addressType es = FQDN then []
      else concat (map ep_addresses (filter (\<lambda>e. ep_ready e \<noteq> Some False) (es_endpoints es))))"

definition appendReadyIPs :: "RRLB \<Rightarrow> EndpointSlice \<Rightarrow> RRLB" where
  "appendReadyIPs lb es = lb\<lparr>IPs := IPs lb @ slice_ready_ips es\<rparr>"

definition endpoints_ready_ips :: "Endpoints \<Rightarrow> string list" where
  "endpoints_ready_ips ep = concat (map ss_addresses (eps_subsets ep))"

definition appendEndpointsReadyIPs :: "RRLB \<Rightarrow> Endpoints \<Rightarrow> RRLB" where
  "appendEndpointsReadyIPs lb ep = lb\<lparr>IPs := IPs lb @ endpoints_ready_ips ep\<rparr>"

definition buildHost :: "string \<Rightarrow> string \<Rightarrow> string" where
  "buildHost namespace name = name @ ''.'' @ namespace @ ''.svc.cluster.local''"

definition buildHostPort :: "string \<Rightarrow> string \<Rightarrow> int \<Rightarrow> string" where
  "buildHostPort namespace name port = name @ ''.'' @ namespace @ ''.svc.cluster.local:'' @ itoa port"

definition newRRLB :: RRLB where
  "newRRLB = \<lparr>IPs = [], current = 0\<rparr>"

definition owned_by :: "string \<Rightarrow> string \<Rightarrow> EndpointSlice \<Rightarrow> bool" where
  "owned_by namespace serviceName es \<longleftrightarrow> es_namespace es = namespace \<and> sliceServiceName es = serviceName"

definition aggregateServiceIPs ::
  "EndpointSlice list \<Rightarrow> (string \<rightharpoonup> Endpoints) \<Rightarrow> string \<Rightarrow> string \<Rightarrow> RRLB option" where
  "aggregateServiceIPs slices eps namespace serviceName =
     (let own = filter (owned_by namespace serviceName) slices;
          b = foldl appendReadyIPs newRRLB own;
          b = (if own = [] then
                 (case eps (object_key namespace serviceName) of
                    None \<Rightarrow> b
                  | Some ep \<Rightarrow> appendEndpointsReadyIPs b ep)
               else b)
      in if IPs b = [] then None else Some b)"

definition reloadEndpointSlice ::
  "EndpointSlice list \<Rightarrow> (string \<rightharpoonup> Endpoints) \<Rightarrow> EndpointSlice \<Rightarrow> Table \<Rightarrow> Table" where
  "reloadEndpointSlice slices eps es t =
     (let svc = sliceServiceName es in
      if svc = [] then t
      else SetHostRoute t (buildHost (es_namespace es) svc) (aggregateServiceIPs slices eps (es_namespace es) svc))"

definition reloadEndpointsObject ::
  "EndpointSlice list \<Rightarrow> (string \<rightharpoonup> Endpoints) \<Rightarrow> Endpoints \<Rightarrow> Table \<Rightarrow> Table" where
  "reloadEndpointsObject slices eps ep t =
     SetHostRoute t (buildHost (eps_namespace ep) (eps_name ep))
       (aggregateServiceIPs slices eps (eps_namespace ep) (eps_name ep))"

definition lb_at :: "(string \<rightharpoonup> RRLB) \<Rightarrow> string \<Rightarrow> RRLB" where
  "lb_at routes host = (case routes host of None \<Rightarrow> newRRLB | Some lb \<Rightarrow> lb)"

definition add_slice :: "(string \<rightharpoonup> RRLB) \<times> string set \<Rightarrow> EndpointSlice \<Rightarrow> (string \<rightharpoonup> RRLB) \<times> string set" where
  "add_slice rs es =
     (let svc = sliceServiceName es; host = buildHost (es_namespace es) svc in
      if svc = [] then rs
      else ((fst rs)(host \<mapsto> appendReadyIPs (lb_at (fst rs) host) es), insert host (snd rs)))"

definition add_endpoints :: "string set \<Rightarrow> (string \<rightharpoonup> RRLB) \<Rightarrow> Endpoints \<Rightarrow> string \<rightharpoonup> RRLB" where
  "add_endpoints sliceHosts routes ep =
     (let host = buildHost (eps_namespace ep) (eps_name ep) in
      if host \<in> sliceHosts then routes
      else routes(host \<mapsto> appendEndpointsReadyIPs (lb_at routes host) ep))"

definition drop_empty :: "(string \<rightharpoonup> RRLB) \<Rightarrow> string \<rightharpoonup> RRLB" where
  "drop_empty routes = (\<lambda>host. case routes host of Some lb \<Rightarrow> if IPs lb = [] then None else Some lb | None \<Rightarrow> None)"

definition reloadEndpointDebounced :: "EndpointSlice list \<Rightarrow> Endpoints list \<Rightarrow> Table \<Rightarrow> Table" where
  "reloadEndpointDebounced slices eps t =
     (let (routes, sliceHosts) = foldl add_slice (Map.empty, {}) slices
      in SetHostRoutes t (drop_empty (foldl (add_endpoints sliceHosts) routes eps)))"

subsection \<open>Service ports\<close>

definition slice_port :: "string \<Rightarrow> EndpointSlice \<Rightarrow> string option" where
  "slice_port name es =
     map_option (\<lambda>epp. itoa (the (epp_port epp)))
       (find (\<lambda>epp. epp_name epp = Some name \<and> epp_port epp \<noteq> None \<and> the (epp_port epp) > 0) (es_ports es))"

fun first_some :: "('a \<Rightarrow> 'b option) \<Rightarrow> 'a list \<Rightarrow> 'b option" where
  "first_some f [] = None"
| "first_some f (x # xs) = (case f x of Some y \<Rightarrow> Some y | None \<Rightarrow> first_some f xs)"

definition resolveTargetPort ::
  "EndpointSlice list \<Rightarrow> (string \<rightharpoonup> Endpoints) \<Rightarrow> Service \<Rightarrow> ServicePort \<Rightarrow> string option" where
  "resolveTargetPort slices eps s p =
     (case svp_targetPort p of
        IntVal n \<Rightarrow> Some (itoa (if n > 0 then n else svp_port p))
      | StrVal _ \<Rightarrow>
          let own = filter (owned_by (svc_namespace s) (svc_name s)) slices in
          case first_some (slice_port (svp_name p)) own of
            Some r \<Rightarrow> Some r
          | None \<Rightarrow>
              if own \<noteq> [] then None
              else case eps (object_key (svc_namespace s) (svc_name s)) of
                None \<Rightarrow> None
              | Some ep \<Rightarrow>
                  map_option (\<lambda>q. itoa (snd q))
                    (find (\<lambda>q. fst q = svp_name p \<and> snd q > 0) (concat (map ss_ports (eps_subsets ep)))))"

definition serviceTypeExternalName :: string where
  "serviceTypeExternalName = ''ExternalName''"

definition add_service ::
  "EndpointSlice list \<Rightarrow> (string \<rightharpoonup> Endpoints) \<Rightarrow> (string \<rightharpoonup> string) \<times> (string \<rightharpoonup> string) \<Rightarrow> Service
    \<Rightarrow> (string \<rightharpoonup> string) \<times> (string \<rightharpoonup> string)" where
  "add_service slices eps acc s =
     (let (addrToPort, externalNames) = acc;
          addr = (\<lambda>p. buildHostPort (svc_namespace s) (svc_name s) (svp_port p))
      in if svc_type s = serviceTypeExternalName then
           (let extName = trim_suffix (trim_space (svc_externalName s)) ''.'' in
            if extName = [] then acc
            else (foldl (\<lambda>m p. m(addr p \<mapsto> itoa (svp_port p))) addrToPort (svc_ports s),
                  externalNames(buildHost (svc_namespace s) (svc_name s) \<mapsto> extName)))
         else
           (foldl (\<lambda>m p. case resolveTargetPort slices eps s p of None \<Rightarrow> m | Some target \<Rightarrow> m(addr p \<mapsto> target))
              addrToPort (svc_ports s),
            externalNames))"

definition reloadServiceDebounced ::
  "EndpointSlice list \<Rightarrow> (string \<rightharpoonup> Endpoints) \<Rightarrow> Service list \<Rightarrow> Table \<Rightarrow> Table" where
  "reloadServiceDebounced slices eps services t =
     (let (addrToPort, externalNames) = foldl (add_service slices eps) (Map.empty, Map.empty) services
      in SetExternalNameRoutes (SetPortRoutes t addrToPort) externalNames)"

subsection \<open>The controller as a state machine\<close>

text \<open>
  Two watch goroutines, one for EndpointSlices and one for Endpoints, first write their store and then
  reload the host they touched; both reload under one mutex, so a reload is one step, but the other
  goroutine may run between a write and its reload. \<open>pending\<close> records, per goroutine, the hosts whose
  reload is still due; the code has no such field. After a relist the whole table is due.
\<close>

datatype watcher = SliceWatcher | EndpointsWatcher

record endpoint_ctrl =
  watchedEndpointSlices :: "string \<rightharpoonup> EndpointSlice"
  watchedEndpoints :: "string \<rightharpoonup> Endpoints"
  routeTable :: Table
  pending :: "watcher \<Rightarrow> string set"

definition slice_key :: "EndpointSlice \<Rightarrow> string" where
  "slice_key es = object_key (es_namespace es) (es_name es)"

definition endpoints_key :: "Endpoints \<Rightarrow> string" where
  "endpoints_key ep = object_key (eps_namespace ep) (eps_name ep)"

definition slice_host :: "EndpointSlice \<Rightarrow> string" where
  "slice_host es = buildHost (es_namespace es) (sliceServiceName es)"

definition endpoints_host :: "Endpoints \<Rightarrow> string" where
  "endpoints_host ep = buildHost (eps_namespace ep) (eps_name ep)"

fun event_object :: "'v watch_event \<Rightarrow> 'v option" where
  "event_object (Added v) = Some v"
| "event_object (Modified v) = Some v"
| "event_object (Deleted v) = Some v"
| "event_object OtherEvent = None"

definition due :: "watcher \<Rightarrow> string set \<Rightarrow> endpoint_ctrl \<Rightarrow> endpoint_ctrl" where
  "due w hs s = s\<lparr>pending := (pending s)(w := pending s w \<union> hs)\<rparr>"

definition settled :: "watcher \<Rightarrow> string set \<Rightarrow> endpoint_ctrl \<Rightarrow> endpoint_ctrl" where
  "settled w hs s = s\<lparr>pending := (pending s)(w := pending s w - hs)\<rparr>"

datatype endpoint_action =
    SliceEvent "EndpointSlice watch_event"
  | SliceReload EndpointSlice "(string \<times> EndpointSlice) list"
  | SliceRelist "EndpointSlice list option"
  | EndpointsEvent "Endpoints watch_event"
  | EndpointsReload Endpoints "(string \<times> EndpointSlice) list"
  | EndpointsRelist "Endpoints list option"
  | FullReload watcher "(string \<times> EndpointSlice) list" "(string \<times> Endpoints) list"
  | ServiceReload "(string \<times> EndpointSlice) list" "Service list"
  | Request time string
  | DialError time string
  | ClearTick time

fun endpoint_step :: "endpoint_action \<Rightarrow> endpoint_ctrl \<Rightarrow> endpoint_ctrl" where
  "endpoint_step (SliceEvent ev) s =
     due SliceWatcher (case event_object ev of None \<Rightarrow> {} | Some es \<Rightarrow> {slice_host es})
       (s\<lparr>watchedEndpointSlices := watch_store slice_key ev (watchedEndpointSlices s)\<rparr>)"
| "endpoint_step (SliceReload es xs) s =
     settled SliceWatcher {slice_host es}
       (s\<lparr>routeTable := reloadEndpointSlice (map snd xs) (watchedEndpoints s) es (routeTable s)\<rparr>)"
| "endpoint_step (SliceRelist listed) s =
     due SliceWatcher (case listed of None \<Rightarrow> {} | Some _ \<Rightarrow> UNIV)
       (s\<lparr>watchedEndpointSlices := resyncStore slice_key listed (watchedEndpointSlices s)\<rparr>)"
| "endpoint_step (EndpointsEvent ev) s =
     due EndpointsWatcher (case event_object ev of None \<Rightarrow> {} | Some ep \<Rightarrow> {endpoints_host ep})
       (s\<lparr>watchedEndpoints := watch_store endpoints_key ev (watchedEndpoints s)\<rparr>)"
| "endpoint_step (EndpointsReload ep xs) s =
     settled EndpointsWatcher {endpoints_host ep}
       (s\<lparr>routeTable := reloadEndpointsObject (map snd xs) (watchedEndpoints s) ep (routeTable s)\<rparr>)"
| "endpoint_step (EndpointsRelist listed) s =
     due EndpointsWatcher (case listed of None \<Rightarrow> {} | Some _ \<Rightarrow> UNIV)
       (s\<lparr>watchedEndpoints := resyncStore endpoints_key listed (watchedEndpoints s)\<rparr>)"
| "endpoint_step (FullReload w xs ys) s =
     settled w UNIV (s\<lparr>routeTable := reloadEndpointDebounced (map snd xs) (map snd ys) (routeTable s)\<rparr>)"
| "endpoint_step (ServiceReload xs svcs) s =
     s\<lparr>routeTable := reloadServiceDebounced (map snd xs) (watchedEndpoints s) svcs (routeTable s)\<rparr>"
| "endpoint_step (Request now addr) s = s\<lparr>routeTable := snd (Lookup (routeTable s) now addr)\<rparr>"
| "endpoint_step (DialError now addr) s = s\<lparr>routeTable := Table_MarkBad (routeTable s) now addr\<rparr>"
| "endpoint_step (ClearTick now) s = s\<lparr>routeTable := clearLoop_step (routeTable s) now\<rparr>"

definition endpoint_init :: endpoint_ctrl where
  "endpoint_init =
     \<lparr>watchedEndpointSlices = Map.empty, watchedEndpoints = Map.empty,
      routeTable = \<lparr>addrToTargetHost = Map.empty, addrToTargetPort = Map.empty, addrToExternalName = Map.empty,
        badAddr = Map.empty, bgJobStarted = False\<rparr>,
      pending = (\<lambda>_. {})\<rparr>"

text \<open>Names the cluster admits: a namespace has no slash, a Service name has no dot. A slice event
  keeps the Service that the stored slice belongs to.\<close>

definition slice_named :: "EndpointSlice \<Rightarrow> bool" where
  "slice_named es \<longleftrightarrow> CHR ''/'' \<notin> set (es_namespace es) \<and> CHR ''.'' \<notin> set (sliceServiceName es)"

definition endpoints_named :: "Endpoints \<Rightarrow> bool" where
  "endpoints_named ep \<longleftrightarrow> CHR ''/'' \<notin> set (eps_namespace ep) \<and> CHR ''.'' \<notin> set (eps_name ep)"

definition keeps_service :: "endpoint_ctrl \<Rightarrow> EndpointSlice \<Rightarrow> bool" where
  "keeps_service s es \<longleftrightarrow>
     (case watchedEndpointSlices s (slice_key es) of
        None \<Rightarrow> True
      | Some old \<Rightarrow> sliceServiceName old = sliceServiceName es)"

fun admissible :: "endpoint_ctrl \<Rightarrow> endpoint_action \<Rightarrow> bool" where
  "admissible s (SliceEvent ev) \<longleftrightarrow>
     (case event_object ev of None \<Rightarrow> True | Some es \<Rightarrow> slice_named es \<and> keeps_service s es)"
| "admissible s (SliceReload es xs) \<longleftrightarrow> slice_named es \<and> range_order (watchedEndpointSlices s) xs"
| "admissible s (SliceRelist listed) \<longleftrightarrow> (case listed of None \<Rightarrow> True | Some items \<Rightarrow> list_all slice_named items)"
| "admissible s (EndpointsEvent ev) \<longleftrightarrow> (case event_object ev of None \<Rightarrow> True | Some ep \<Rightarrow> endpoints_named ep)"
| "admissible s (EndpointsReload ep xs) \<longleftrightarrow> endpoints_named ep \<and> range_order (watchedEndpointSlices s) xs"
| "admissible s (EndpointsRelist listed) \<longleftrightarrow> (case listed of None \<Rightarrow> True | Some items \<Rightarrow> list_all endpoints_named items)"
| "admissible s (FullReload w xs ys) \<longleftrightarrow>
     range_order (watchedEndpointSlices s) xs \<and> range_order (watchedEndpoints s) ys"
| "admissible s (ServiceReload xs svcs) \<longleftrightarrow> range_order (watchedEndpointSlices s) xs"
| "admissible s (Request now addr) \<longleftrightarrow> True"
| "admissible s (DialError now addr) \<longleftrightarrow> True"
| "admissible s (ClearTick now) \<longleftrightarrow> True"

inductive endpoint_reach :: "endpoint_ctrl \<Rightarrow> bool" where
  init: "endpoint_reach endpoint_init"
| step: "endpoint_reach s \<Longrightarrow> admissible s a \<Longrightarrow> endpoint_reach (endpoint_step a s)"

subsection \<open>What a service's route should be\<close>

definition owned_keys :: "(string \<rightharpoonup> EndpointSlice) \<Rightarrow> string \<Rightarrow> string \<Rightarrow> string set" where
  "owned_keys sl namespace name = {k. \<exists>es. sl k = Some es \<and> owned_by namespace name es}"

text \<open>The addresses a slice or an Endpoints object offers: those of endpoints that are ready (or do not say),
  unless the slice holds DNS names.\<close>

definition ready_addresses :: "EndpointSlice \<Rightarrow> string multiset" where
  "ready_addresses es =
     (\<Sum>e \<in># mset (es_endpoints es).
        (if es_addressType es \<noteq> FQDN \<and> (ep_ready e = None \<or> ep_ready e = Some True) then mset (ep_addresses e) else {#}))"

definition endpoints_addresses :: "Endpoints \<Rightarrow> string multiset" where
  "endpoints_addresses ep = (\<Sum>ss \<in># mset (eps_subsets ep). mset (ss_addresses ss))"

definition ready_backends :: "(string \<rightharpoonup> EndpointSlice) \<Rightarrow> (string \<rightharpoonup> Endpoints) \<Rightarrow> string \<Rightarrow> string \<Rightarrow> string multiset" where
  "ready_backends sl eps namespace name =
     (if owned_keys sl namespace name = {} then
        (case eps (object_key namespace name) of None \<Rightarrow> {#} | Some ep \<Rightarrow> endpoints_addresses ep)
      else (\<Sum>k \<in> owned_keys sl namespace name. ready_addresses (the (sl k))))"

definition route_backends :: "Table \<Rightarrow> string \<Rightarrow> string multiset option" where
  "route_backends t host = map_option (\<lambda>lb. mset (IPs lb)) (addrToTargetHost t host)"

definition nonempty_backends :: "string multiset \<Rightarrow> string multiset option" where
  "nonempty_backends m = (if m = {#} then None else Some m)"

definition host_current :: "endpoint_ctrl \<Rightarrow> string \<Rightarrow> string \<Rightarrow> bool" where
  "host_current s namespace name \<longleftrightarrow>
     route_backends (routeTable s) (buildHost namespace name) =
       nonempty_backends (ready_backends (watchedEndpointSlices s) (watchedEndpoints s) namespace name)"


subsection \<open>Aggregation computes the ready backends\<close>

lemma buildHost_inj:
  assumes "CHR ''.'' \<notin> set n" and "CHR ''.'' \<notin> set n'" and "buildHost ns n = buildHost ns' n'"
  shows "n = n' \<and> ns = ns'"
  using split_first [of n "CHR ''.''" "ns @ ''.svc.cluster.local''" n' "ns' @ ''.svc.cluster.local''"] assms
  by (simp add: buildHost_def)

lemma object_key_inj:
  assumes "CHR ''/'' \<notin> set ns" and "CHR ''/'' \<notin> set ns'" and "object_key ns n = object_key ns' n'"
  shows "ns = ns' \<and> n = n'"
  using split_first [of ns "CHR ''/''" n ns' n'] assms by (simp add: object_key_def)

lemma foldl_appendReadyIPs:
  "foldl appendReadyIPs lb own = lb\<lparr>IPs := IPs lb @ concat (map slice_ready_ips own)\<rparr>"
  by (induction own arbitrary: lb) (simp_all add: appendReadyIPs_def)

lemma slice_ready_addresses: "mset (slice_ready_ips es) = ready_addresses es"
proof -
  have "mset (concat (map ep_addresses (filter (\<lambda>e. ep_ready e \<noteq> Some False) xs))) =
      (\<Sum>e \<in># mset xs. if ep_ready e = None \<or> ep_ready e = Some True then mset (ep_addresses e) else {#})" for xs :: "endpoint list"
    by (induction xs) auto
  then show ?thesis by (simp add: slice_ready_ips_def ready_addresses_def)
qed

lemma endpoints_ready_addresses: "mset (endpoints_ready_ips ep) = endpoints_addresses ep"
proof -
  have "mset (concat (map ss_addresses xs)) = (\<Sum>ss \<in># mset xs. mset (ss_addresses ss))" for xs :: "subset list"
    by (induction xs) auto
  then show ?thesis by (simp add: endpoints_ready_ips_def endpoints_addresses_def)
qed

lemma range_orderD:
  assumes "range_order m xs"
  shows "m k = Some v \<longleftrightarrow> (k, v) \<in> set xs"
  using assms by (auto simp: range_order_def dest: map_of_SomeD intro: map_of_is_SomeI)

lemma owned_sum:
  assumes "range_order sl xs"
  shows "(\<Sum>k \<in> owned_keys sl ns n. ready_addresses (the (sl k))) =
    mset (concat (map slice_ready_ips (filter (owned_by ns n) (map snd xs))))"
proof -
  let ?ys = "filter (\<lambda>p. owned_by ns n (snd p)) xs"
  have d: "distinct (map fst ?ys)" using assms by (simp add: range_order_def distinct_map_filter)
  have "owned_keys sl ns n = set (map fst ?ys)"
    using range_orderD [OF assms] by (force simp: owned_keys_def)
  then have "(\<Sum>k \<in> owned_keys sl ns n. ready_addresses (the (sl k))) =
      sum_list (map (\<lambda>k. mset (slice_ready_ips (the (sl k)))) (map fst ?ys))"
    using sum.distinct_set_conv_list [OF d] by (simp add: slice_ready_addresses)
  also have "\<dots> = sum_list (map (\<lambda>p. mset (slice_ready_ips (snd p))) ?ys)"
    using range_orderD [OF assms] by (intro arg_cong [of _ _ sum_list]) (force simp: image_iff)
  also have "\<dots> = mset (concat (map slice_ready_ips (map snd ?ys)))"
    by (induction xs) auto
  also have "map snd ?ys = filter (owned_by ns n) (map snd xs)" by (simp add: filter_map o_def)
  finally show ?thesis .
qed

lemma owned_none:
  assumes "range_order sl xs"
  shows "owned_keys sl ns n = {} \<longleftrightarrow> filter (owned_by ns n) (map snd xs) = []"
  using range_orderD [OF assms] by (force simp: owned_keys_def filter_empty_conv)

lemma aggregate_backends:
  assumes "range_order sl xs"
  shows "map_option (\<lambda>lb. mset (IPs lb)) (aggregateServiceIPs (map snd xs) eps ns n) =
    nonempty_backends (ready_backends sl eps ns n)"
  using owned_none [OF assms, of ns n] owned_sum [OF assms, of ns n]
  by (auto simp: aggregateServiceIPs_def ready_backends_def nonempty_backends_def foldl_appendReadyIPs newRRLB_def
      appendEndpointsReadyIPs_def endpoints_ready_addresses [symmetric] Let_def split: option.splits)

subsection \<open>The full rebuild agrees with the incremental reload\<close>

lemma foldl_add_slice:
  assumes "\<forall>es \<in> set sl. CHR ''.'' \<notin> set (sliceServiceName es)" and "CHR ''.'' \<notin> set n" and "n \<noteq> []"
  shows "fst (foldl add_slice acc sl) (buildHost ns n) =
      (if filter (owned_by ns n) sl = [] then fst acc (buildHost ns n)
       else Some (foldl appendReadyIPs (lb_at (fst acc) (buildHost ns n)) (filter (owned_by ns n) sl))) \<and>
    (buildHost ns n \<in> snd (foldl add_slice acc sl) \<longleftrightarrow> buildHost ns n \<in> snd acc \<or> filter (owned_by ns n) sl \<noteq> [])"
  using assms(1)
proof (induction sl arbitrary: acc)
  case (Cons es sl)
  have "owned_by ns n es \<longleftrightarrow> sliceServiceName es \<noteq> [] \<and> buildHost (es_namespace es) (sliceServiceName es) = buildHost ns n"
    using buildHost_inj [of "sliceServiceName es" n "es_namespace es" ns] Cons.prems assms(2,3) by (auto simp: owned_by_def)
  then show ?case using Cons.IH [of "add_slice acc es"] Cons.prems
    by (auto simp: add_slice_def Let_def lb_at_def)
qed simp

lemma foldl_add_endpoints:
  assumes "\<forall>ep \<in> set el. CHR ''.'' \<notin> set (eps_name ep)" and "CHR ''.'' \<notin> set n"
  shows "foldl (add_endpoints hosts) routes el (buildHost ns n) =
      (if buildHost ns n \<in> hosts \<or> filter (\<lambda>ep. eps_namespace ep = ns \<and> eps_name ep = n) el = [] then routes (buildHost ns n)
       else Some (foldl appendEndpointsReadyIPs (lb_at routes (buildHost ns n))
         (filter (\<lambda>ep. eps_namespace ep = ns \<and> eps_name ep = n) el)))"
  using assms(1)
proof (induction el arbitrary: routes)
  case (Cons ep el)
  have "eps_namespace ep = ns \<and> eps_name ep = n \<longleftrightarrow> buildHost (eps_namespace ep) (eps_name ep) = buildHost ns n"
    using buildHost_inj [of "eps_name ep" n "eps_namespace ep" ns] Cons.prems assms(2) by auto
  then show ?case using Cons.IH [of "add_endpoints hosts routes ep"] Cons.prems
    by (auto simp: add_endpoints_def Let_def lb_at_def)
qed simp

text \<open>The stores hold every object under its own key, with admissible names.\<close>

definition stores_ok :: "endpoint_ctrl \<Rightarrow> bool" where
  "stores_ok s \<longleftrightarrow>
     (\<forall>k es. watchedEndpointSlices s k = Some es \<longrightarrow> k = slice_key es \<and> slice_named es) \<and>
     (\<forall>k ep. watchedEndpoints s k = Some ep \<longrightarrow> k = endpoints_key ep \<and> endpoints_named ep)"

lemma endpoints_of_service:
  assumes "stores_ok s" and "range_order (watchedEndpoints s) ys" and "CHR ''/'' \<notin> set ns"
  shows "filter (\<lambda>ep. eps_namespace ep = ns \<and> eps_name ep = n) (map snd ys) =
    (case watchedEndpoints s (object_key ns n) of None \<Rightarrow> [] | Some ep \<Rightarrow> [ep])"
proof -
  let ?P = "\<lambda>p. eps_namespace (snd p) = ns \<and> eps_name (snd p) = n"
  have k: "?P p \<longleftrightarrow> fst p = object_key ns n" if "p \<in> set ys" for p
  proof -
    have "watchedEndpoints s (fst p) = Some (snd p)" using range_orderD [OF assms(2)] that by simp
    then have "fst p = endpoints_key (snd p)" "CHR ''/'' \<notin> set (eps_namespace (snd p))"
      using assms(1) by (auto simp: stores_ok_def endpoints_named_def)
    then show ?thesis using object_key_inj [of "eps_namespace (snd p)" ns "eps_name (snd p)" n] assms(3)
      by (auto simp: endpoints_key_def)
  qed
  have "filter ?P ys = filter (\<lambda>p. fst p = object_key ns n) ys" using k by (simp cong: filter_cong)
  moreover have "map snd (filter (\<lambda>p. fst p = key) ys) = (case map_of ys key of None \<Rightarrow> [] | Some v \<Rightarrow> [v])"
    if "distinct (map fst ys)" for key
    using that by (induction ys) (auto simp: filter_empty_conv map_of_eq_None_iff rev_image_eqI split: option.splits)
  ultimately show ?thesis using assms(2) by (simp add: range_order_def filter_map o_def)
qed

lemma full_reload_aggregates:
  assumes "stores_ok s" and "range_order (watchedEndpointSlices s) xs" and "range_order (watchedEndpoints s) ys"
    and "CHR ''/'' \<notin> set ns" and "CHR ''.'' \<notin> set n" and "n \<noteq> []"
  shows "addrToTargetHost (reloadEndpointDebounced (map snd xs) (map snd ys) t) (buildHost ns n) =
    aggregateServiceIPs (map snd xs) (watchedEndpoints s) ns n"
proof -
  have sl: "\<forall>es \<in> set (map snd xs). CHR ''.'' \<notin> set (sliceServiceName es)"
    using assms(1) range_orderD [OF assms(2)] by (fastforce simp: stores_ok_def slice_named_def)
  have el: "\<forall>ep \<in> set (map snd ys). CHR ''.'' \<notin> set (eps_name ep)"
    using assms(1) range_orderD [OF assms(3)] by (fastforce simp: stores_ok_def endpoints_named_def)
  obtain routes hosts where f: "foldl add_slice (Map.empty, {}) (map snd xs) = (routes, hosts)" by (rule prod.exhaust)
  have "routes (buildHost ns n) = (if filter (owned_by ns n) (map snd xs) = [] then None
      else Some (foldl appendReadyIPs newRRLB (filter (owned_by ns n) (map snd xs))))"
    using foldl_add_slice [OF sl assms(5,6), of "(Map.empty, {})" ns] by (simp add: f lb_at_def)
  moreover have "buildHost ns n \<in> hosts \<longleftrightarrow> filter (owned_by ns n) (map snd xs) \<noteq> []"
    using foldl_add_slice [OF sl assms(5,6), of "(Map.empty, {})" ns] by (simp add: f)
  ultimately show ?thesis
    using foldl_add_endpoints [OF el assms(5), of hosts routes ns] endpoints_of_service [OF assms(1,3,4), of n]
    by (auto simp: reloadEndpointDebounced_def SetHostRoutes_def drop_empty_def aggregateServiceIPs_def f Let_def
        lb_at_def newRRLB_def split: option.splits)
qed


subsection \<open>The invariant\<close>

definition endpoint_inv :: "endpoint_ctrl \<Rightarrow> bool" where
  "endpoint_inv s \<longleftrightarrow> stores_ok s \<and>
     (\<forall>ns n. CHR ''/'' \<notin> set ns \<longrightarrow> CHR ''.'' \<notin> set n \<longrightarrow> n \<noteq> [] \<longrightarrow>
        (\<forall>w. buildHost ns n \<notin> pending s w) \<longrightarrow> host_current s ns n)"

lemma endpoint_invI:
  assumes "stores_ok s"
    and "\<And>ns n. CHR ''/'' \<notin> set ns \<Longrightarrow> CHR ''.'' \<notin> set n \<Longrightarrow> n \<noteq> [] \<Longrightarrow> \<forall>w. buildHost ns n \<notin> pending s w \<Longrightarrow>
      host_current s ns n"
  shows "endpoint_inv s"
  using assms by (simp add: endpoint_inv_def)

lemma endpoint_invD:
  assumes "endpoint_inv s" and "CHR ''/'' \<notin> set ns" and "CHR ''.'' \<notin> set n" and "n \<noteq> []"
    and "\<forall>w. buildHost ns n \<notin> pending s w"
  shows "host_current s ns n"
  using assms by (simp add: endpoint_inv_def)

lemma stores_ok_frame:
  "watchedEndpointSlices s' = watchedEndpointSlices s \<Longrightarrow> watchedEndpoints s' = watchedEndpoints s \<Longrightarrow>
    stores_ok s' = stores_ok s"
  by (simp add: stores_ok_def)

lemma endpoint_inv_frame:
  assumes "endpoint_inv s" and "watchedEndpointSlices s' = watchedEndpointSlices s"
    and "watchedEndpoints s' = watchedEndpoints s" and "pending s' = pending s"
    and "\<And>h. route_backends (routeTable s') h = route_backends (routeTable s) h"
  shows "endpoint_inv s'"
  using assms by (auto simp: endpoint_inv_def host_current_def stores_ok_def)

lemma due_simps [simp]:
  "watchedEndpointSlices (due w hs s) = watchedEndpointSlices s" "watchedEndpoints (due w hs s) = watchedEndpoints s"
  "routeTable (due w hs s) = routeTable s"
  "pending (due w hs s) v = (if v = w then pending s w \<union> hs else pending s v)"
  by (simp_all add: due_def)

lemma settled_simps [simp]:
  "watchedEndpointSlices (settled w hs s) = watchedEndpointSlices s" "watchedEndpoints (settled w hs s) = watchedEndpoints s"
  "routeTable (settled w hs s) = routeTable s"
  "pending (settled w hs s) v = (if v = w then pending s w - hs else pending s v)"
  by (simp_all add: settled_def)

lemma due_none [simp]: "due w {} s = s"
  by (simp add: due_def)

lemma endpoint_inv_settled:
  assumes "endpoint_inv s" and "\<And>ns n. CHR ''.'' \<notin> set n \<Longrightarrow> n \<noteq> [] \<Longrightarrow> buildHost ns n \<noteq> h"
  shows "endpoint_inv (settled w {h} s)"
proof (rule endpoint_invI, goal_cases)
  case 1
  show ?case using assms(1) by (simp add: endpoint_inv_def stores_ok_def)
next
  case (2 ns n)
  have "host_current s ns n" using endpoint_invD [OF assms(1) 2(1-3)] assms(2) [OF 2(2,3)] 2(4) by (auto split: if_splits)
  then show ?case by (simp add: host_current_def)
qed

text \<open>A reload of one host makes that host current and leaves the others as they were.\<close>

lemma one_host_reload:
  assumes "endpoint_inv s" and "range_order (watchedEndpointSlices s) xs" and "CHR ''.'' \<notin> set n0"
  shows "endpoint_inv (settled w {buildHost ns0 n0} (s\<lparr>routeTable := SetHostRoute (routeTable s) (buildHost ns0 n0)
    (aggregateServiceIPs (map snd xs) (watchedEndpoints s) ns0 n0)\<rparr>))"
proof (rule endpoint_invI, goal_cases)
  case 1
  show ?case using assms(1) by (simp add: endpoint_inv_def stores_ok_def)
next
  case (2 ns n)
  show ?case
  proof (cases "buildHost ns n = buildHost ns0 n0")
    case True
    then have "n = n0" "ns = ns0" using buildHost_inj [of n n0 ns ns0] 2(2) assms(3) by auto
    then show ?thesis using aggregate_backends [OF assms(2), of "watchedEndpoints s" ns n]
      by (auto simp: host_current_def route_backends_def SetHostRoute_def split: option.splits)
  next
    case False
    moreover have "host_current s ns n" using endpoint_invD [OF assms(1) 2(1-3)] 2(4) False by (auto split: if_splits)
    ultimately show ?thesis by (auto simp: host_current_def route_backends_def SetHostRoute_def split: option.splits)
  qed
qed

text \<open>A store write by a watcher changes what only the host it announces should have.\<close>

lemma ready_backends_slices_cong:
  assumes "\<And>k es. owned_by ns n es \<Longrightarrow> sl k = Some es \<longleftrightarrow> sl' k = Some es"
  shows "ready_backends sl eps ns n = ready_backends sl' eps ns n"
proof -
  have "owned_keys sl ns n = owned_keys sl' ns n" using assms by (auto simp: owned_keys_def)
  moreover have "the (sl k) = the (sl' k)" if "k \<in> owned_keys sl ns n" for k
    using that assms by (force simp: owned_keys_def)
  ultimately show ?thesis by (simp add: ready_backends_def)
qed

lemma slice_host_eq:
  assumes "slice_named es" and "CHR ''.'' \<notin> set n"
  shows "slice_host es = buildHost ns n \<longleftrightarrow> owned_by ns n es"
  using buildHost_inj [of "sliceServiceName es" n "es_namespace es" ns] assms
  by (auto simp: slice_host_def owned_by_def slice_named_def)

lemma slice_event_frame:
  assumes "stores_ok s" and "event_object ev = Some es" and "slice_named es" and "keeps_service s es"
    and "\<not> owned_by ns n es"
  shows "ready_backends (watch_store slice_key ev (watchedEndpointSlices s)) eps ns n =
    ready_backends (watchedEndpointSlices s) eps ns n"
proof (rule ready_backends_slices_cong)
  fix k es' assume o: "owned_by ns n es'"
  have "watchedEndpointSlices s (slice_key es) \<noteq> Some es'"
  proof
    assume old: "watchedEndpointSlices s (slice_key es) = Some es'"
    then have "es_namespace es = es_namespace es'"
      using assms(1,3) object_key_inj [of "es_namespace es" "es_namespace es'" "es_name es" "es_name es'"]
      by (auto simp: stores_ok_def slice_key_def slice_named_def)
    moreover have "sliceServiceName es' = sliceServiceName es" using assms(4) old by (simp add: keeps_service_def)
    ultimately show False using o assms(5) by (simp add: owned_by_def)
  qed
  then show "watch_store slice_key ev (watchedEndpointSlices s) k = Some es' \<longleftrightarrow> watchedEndpointSlices s k = Some es'"
    using assms(2,5) o by (cases ev) (auto simp: watch_store_def)
qed

lemma watch_store_Some:
  assumes "watch_store key ev m k = Some v"
  shows "m k = Some v \<or> (event_object ev = Some v \<and> k = key v)"
  using assms by (cases ev) (auto simp: watch_store_def split: if_splits)

lemma resync_Some:
  assumes "resyncStore key (Some items) store k = Some v"
  shows "v \<in> set items \<and> k = key v"
proof -
  have "foldl (\<lambda>m obj. m(key obj \<mapsto> obj)) m xs k = Some v \<Longrightarrow> m k = Some v \<and> k \<notin> key ` set xs \<or> v \<in> set xs \<and> k = key v"
    for m xs
  proof (induction xs arbitrary: m)
    case (Cons x xs)
    from Cons.IH [of "m(key x \<mapsto> x)"] Cons.prems show ?case by (auto split: if_splits)
  qed simp
  then show ?thesis using assms by (auto simp: resyncStore_def Let_def split: if_splits)
qed


lemma Lookup_backends [simp]: "route_backends (snd (Lookup t now addr)) h = route_backends t h"
  by (auto simp: Lookup_def route_backends_def Let_def split: option.splits prod.splits)
    (metis RRLB_Get_IPs snd_conv)+

lemma table_frames [simp]:
  "route_backends (Table_MarkBad t now addr) h = route_backends t h"
  "route_backends (clearLoop_step t now) h = route_backends t h"
  "route_backends (reloadServiceDebounced sl eps svcs t) h = route_backends t h"
  by (simp_all add: route_backends_def Table_MarkBad_def clearLoop_step_def reloadServiceDebounced_def
      SetExternalNameRoutes_def SetPortRoutes_def split: prod.splits)

lemma inv_slice_event:
  assumes "endpoint_inv s" and "admissible s (SliceEvent ev)"
  shows "endpoint_inv (endpoint_step (SliceEvent ev) s)"
proof (cases "event_object ev")
  case None
  then show ?thesis using assms(1) by (cases ev) (simp_all add: watch_store_def)
next
  case (Some es)
  have es: "slice_named es" "keeps_service s es" using assms(2) Some by auto
  have st: "stores_ok s" using assms(1) by (simp add: endpoint_inv_def)
  show ?thesis
  proof (rule endpoint_invI, goal_cases)
    case 1
    show ?case using st es(1) Some by (auto simp: stores_ok_def dest!: watch_store_Some)
  next
    case (2 ns n)
    have "slice_host es \<noteq> buildHost ns n" using 2(4) Some by (auto split: if_splits)
    then have "\<not> owned_by ns n es" using slice_host_eq [OF es(1) 2(2), of ns] by simp
    moreover have "host_current s ns n" using endpoint_invD [OF assms(1) 2(1-3)] 2(4) by (auto split: if_splits)
    ultimately show ?case using slice_event_frame [OF st Some es] by (simp add: host_current_def)
  qed
qed

lemma inv_endpoints_event:
  assumes "endpoint_inv s" and "admissible s (EndpointsEvent ev)"
  shows "endpoint_inv (endpoint_step (EndpointsEvent ev) s)"
proof (cases "event_object ev")
  case None
  then show ?thesis using assms(1) by (cases ev) (simp_all add: watch_store_def)
next
  case (Some ep)
  have ep: "endpoints_named ep" using assms(2) Some by auto
  have st: "stores_ok s" using assms(1) by (simp add: endpoint_inv_def)
  show ?thesis
  proof (rule endpoint_invI, goal_cases)
    case 1
    show ?case using st ep Some by (auto simp: stores_ok_def dest!: watch_store_Some)
  next
    case (2 ns n)
    have "endpoints_host ep \<noteq> buildHost ns n" using 2(4) Some by (auto split: if_splits)
    then have "endpoints_key ep \<noteq> object_key ns n"
      using object_key_inj [of "eps_namespace ep" ns "eps_name ep" n] ep 2(1)
      by (auto simp: endpoints_key_def endpoints_host_def endpoints_named_def)
    then have "watch_store endpoints_key ev (watchedEndpoints s) (object_key ns n) = watchedEndpoints s (object_key ns n)"
      using Some by (cases ev) (auto simp: watch_store_def)
    moreover have "host_current s ns n" using endpoint_invD [OF assms(1) 2(1-3)] 2(4) by (auto split: if_splits)
    ultimately show ?case by (simp add: host_current_def ready_backends_def)
  qed
qed

lemma inv_relist:
  assumes "endpoint_inv s"
  shows "admissible s (SliceRelist listed) \<Longrightarrow> endpoint_inv (endpoint_step (SliceRelist listed) s)"
    and "admissible s (EndpointsRelist listed') \<Longrightarrow> endpoint_inv (endpoint_step (EndpointsRelist listed') s)"
proof (goal_cases)
  case 1
  show ?case
  proof (cases listed)
    case None
    then show ?thesis using assms by (simp add: resyncStore_def)
  next
    case (Some items)
    then show ?thesis using assms 1
      by (auto simp: endpoint_inv_def stores_ok_def list_all_iff dest: resync_Some)
  qed
next
  case 2
  show ?case
  proof (cases listed')
    case None
    then show ?thesis using assms by (simp add: resyncStore_def)
  next
    case (Some items)
    then show ?thesis using assms 2
      by (auto simp: endpoint_inv_def stores_ok_def list_all_iff dest: resync_Some)
  qed
qed

lemma inv_full_reload:
  assumes "endpoint_inv s" and "admissible s (FullReload w xs ys)"
  shows "endpoint_inv (endpoint_step (FullReload w xs ys) s)"
proof (rule endpoint_invI, goal_cases)
  case 1
  show ?case using assms(1) by (simp add: endpoint_inv_def stores_ok_def)
next
  case (2 ns n)
  have "stores_ok s" "range_order (watchedEndpointSlices s) xs" "range_order (watchedEndpoints s) ys"
    using assms by (simp_all add: endpoint_inv_def)
  then show ?case
    using full_reload_aggregates [of s xs ys ns n "routeTable s"] 2(1-3) aggregate_backends [of _ xs "watchedEndpoints s" ns n]
    by (simp add: host_current_def route_backends_def)
qed

lemma endpoint_inv_step:
  assumes "endpoint_inv s" and "admissible s a"
  shows "endpoint_inv (endpoint_step a s)"
proof (cases a)
  case (SliceReload es xs)
  show ?thesis
  proof (cases "sliceServiceName es = []")
    case True
    have "slice_host es \<noteq> buildHost ns n" if "CHR ''.'' \<notin> set n" "n \<noteq> []" for ns n
      using that buildHost_inj [of "[]" n "es_namespace es" ns] True by (auto simp: slice_host_def)
    then show ?thesis using endpoint_inv_settled [OF assms(1), of "slice_host es"] True SliceReload
      by (simp add: reloadEndpointSlice_def) (metis)
  next
    case False
    then show ?thesis using one_host_reload [OF assms(1), of xs "sliceServiceName es"] assms(2) SliceReload
      by (simp add: reloadEndpointSlice_def slice_named_def slice_host_def Let_def)
  qed
next
  case (EndpointsReload ep xs)
  then show ?thesis using one_host_reload [OF assms(1), of xs "eps_name ep"] assms(2)
    by (simp add: reloadEndpointsObject_def endpoints_named_def endpoints_host_def)
qed (use assms inv_slice_event inv_endpoints_event inv_relist inv_full_reload in
    \<open>simp_all add: endpoint_inv_frame [OF assms(1)] del: admissible.simps endpoint_step.simps(1,3,4,6,7)\<close>)

lemma endpoint_reach_inv: "endpoint_reach s \<Longrightarrow> endpoint_inv s"
proof (induction rule: endpoint_reach.induct)
  case init
  show ?case
    by (simp add: endpoint_inv_def stores_ok_def host_current_def endpoint_init_def route_backends_def nonempty_backends_def
        ready_backends_def owned_keys_def)
next
  case (step s a)
  then show ?case by (blast intro: endpoint_inv_step)
qed



subsection \<open>Requests reach ready pods\<close>

lemma itoa_no:
  assumes "(of_char c :: nat) < 48 \<or> 57 < (of_char c :: nat)" and "c \<noteq> CHR ''-''"
  shows "c \<notin> set (itoa p)"
  using nat_digits_no [OF assms(1)] assms(2) by (auto simp: itoa_def)

lemma itoa_colon [simp]: "CHR '':'' \<notin> set (itoa p)"
  by (rule itoa_no) simp_all

lemma buildHostPort_eq: "buildHostPort ns n p = buildHost ns n @ CHR '':'' # itoa p"
  by (simp add: buildHostPort_def buildHost_def)

lemma buildHostPort_inj:
  assumes "CHR ''.'' \<notin> set n" and "CHR ''.'' \<notin> set n'" and "buildHostPort ns n p = buildHostPort ns' n' p'"
  shows "ns = ns' \<and> n = n' \<and> p = p'"
  using split_last [of "buildHost ns n" "CHR '':''" "itoa p" "buildHost ns' n'" "itoa p'"] buildHost_inj [OF assms(1,2), of ns ns']
    assms(3) itoa_inj [of p p'] by (auto simp: buildHostPort_eq)



subsection \<open>Port routes\<close>

definition services_ok :: "Service list \<Rightarrow> bool" where
  "services_ok services \<longleftrightarrow>
     distinct (map (\<lambda>s. (svc_namespace s, svc_name s)) services) \<and> list_all (\<lambda>s. CHR ''.'' \<notin> set (svc_name s)) services"

definition service_port_route ::
  "EndpointSlice list \<Rightarrow> (string \<rightharpoonup> Endpoints) \<Rightarrow> Service \<Rightarrow> ServicePort \<Rightarrow> string option" where
  "service_port_route slices eps s p =
     (if svc_type s = serviceTypeExternalName then
        (if trim_suffix (trim_space (svc_externalName s)) ''.'' = [] then None else Some (itoa (svp_port p)))
      else resolveTargetPort slices eps s p)"

lemma foldl_route_other:
  assumes "\<And>p. p \<in> set ps \<Longrightarrow> addr p \<noteq> a"
  shows "foldl (\<lambda>m p. case f p of None \<Rightarrow> m | Some v \<Rightarrow> m(addr p \<mapsto> v)) m ps a = m a"
  using assms by (induction ps arbitrary: m) (auto split: option.splits)

lemma foldl_route_hit:
  assumes "p \<in> set ps" and "\<And>q. q \<in> set ps \<Longrightarrow> addr q = addr p \<Longrightarrow> q = p"
  shows "foldl (\<lambda>m p. case f p of None \<Rightarrow> m | Some v \<Rightarrow> m(addr p \<mapsto> v)) m ps (addr p) =
    (case f p of None \<Rightarrow> m (addr p) | Some v \<Rightarrow> Some v)"
  using assms
proof (induction ps arbitrary: m)
  case (Cons q ps)
  show ?case
  proof (cases "p \<in> set ps")
    case True
    then show ?thesis using Cons.IH Cons.prems(2) by (cases "q = p") (auto split: option.splits)
  next
    case False
    then have "q = p" "\<And>r. r \<in> set ps \<Longrightarrow> addr r \<noteq> addr p" using Cons.prems by auto
    then show ?thesis using foldl_route_other [of ps addr "addr p" f] by (auto split: option.splits)
  qed
qed simp

lemma add_service_routes:
  "fst (add_service sl eps acc s) =
    foldl (\<lambda>m p. case service_port_route sl eps s p of None \<Rightarrow> m
      | Some v \<Rightarrow> m(buildHostPort (svc_namespace s) (svc_name s) (svp_port p) \<mapsto> v)) (fst acc) (svc_ports s)"
proof -
  have "foldl (\<lambda>m p. m) m ps = m" for m :: "string \<rightharpoonup> string" and ps :: "ServicePort list"
    by (induction ps) auto
  then show ?thesis by (auto simp: add_service_def service_port_route_def Let_def split: prod.splits)
qed

lemma foldl_services_other:
  assumes "\<And>s. s \<in> set services \<Longrightarrow> CHR ''.'' \<notin> set (svc_name s) \<and> (svc_namespace s, svc_name s) \<noteq> (ns, n)"
    and "CHR ''.'' \<notin> set n"
  shows "fst (foldl (add_service sl eps) acc services) (buildHostPort ns n port) = fst acc (buildHostPort ns n port)"
  using assms(1)
proof (induction services arbitrary: acc)
  case (Cons s services)
  have "buildHostPort (svc_namespace s) (svc_name s) q \<noteq> buildHostPort ns n port" for q
    using buildHostPort_inj [of "svc_name s" n "svc_namespace s" q ns port] Cons.prems assms(2) by auto
  then have "fst (add_service sl eps acc s) (buildHostPort ns n port) = fst acc (buildHostPort ns n port)"
    by (simp add: add_service_routes foldl_route_other)
  then show ?case using Cons.IH [of "add_service sl eps acc s"] Cons.prems by simp
qed simp



subsection \<open>Concrete runs\<close>

definition demo_slice :: "string \<Rightarrow> EndpointSlice" where
  "demo_slice svc =
     \<lparr>es_namespace = ''d'', es_name = ''e1'', es_labels = [labelServiceName \<mapsto> svc], es_addressType = IPv4,
      es_endpoints = [\<lparr>ep_addresses = [''10.0.0.1''], ep_ready = None\<rparr>],
      es_ports = [\<lparr>epp_name = Some ''http'', epp_port = Some 81\<rparr>]\<rparr>"

definition demo_service :: Service where
  "demo_service =
     \<lparr>svc_namespace = ''d'', svc_name = ''web'', svc_type = ''ClusterIP'', svc_externalName = [],
      svc_ports = [\<lparr>svp_name = ''http'', svp_port = 80, svp_targetPort = StrVal ''http'', svp_appProtocol = None\<rparr>]\<rparr>"

definition demo_order :: "string \<Rightarrow> (string \<times> EndpointSlice) list" where
  "demo_order svc = [(''d/e1'', demo_slice svc)]"

definition demo_run :: "endpoint_action list" where
  "demo_run =
     [SliceEvent (Added (demo_slice ''web'')), SliceReload (demo_slice ''web'') (demo_order ''web''),
      ServiceReload (demo_order ''web'') [demo_service]]"

definition run_actions :: "endpoint_action list \<Rightarrow> endpoint_ctrl" where
  "run_actions acts = foldl (\<lambda>s a. endpoint_step a s) endpoint_init acts"

lemma demo_slice_simps [simp]:
  "slice_key (demo_slice svc) = ''d/e1''" "sliceServiceName (demo_slice svc) = svc" "es_namespace (demo_slice svc) = ''d''"
  "slice_ready_ips (demo_slice svc) = [''10.0.0.1'']"
  by (simp_all add: demo_slice_def slice_key_def object_key_def sliceServiceName_def slice_ready_ips_def)

lemma demo_run_stores:
  "watchedEndpointSlices (run_actions demo_run) = [''d/e1'' \<mapsto> demo_slice ''web'']"
  "watchedEndpoints (run_actions demo_run) = Map.empty" "pending (run_actions demo_run) w = {}"
  by (simp_all add: run_actions_def demo_run_def endpoint_init_def watch_store_def slice_host_def)

lemma demo_run_reach: "endpoint_reach (run_actions demo_run)"
  unfolding run_actions_def demo_run_def
  by (simp del: endpoint_step.simps, intro endpoint_reach.intros)
    (simp_all add: slice_named_def keeps_service_def endpoint_init_def range_order_def demo_order_def watch_store_def)

lemma demo_ready: "ready_backends [''d/e1'' \<mapsto> demo_slice svc] Map.empty ''d'' svc = {#''10.0.0.1''#}"
proof -
  have "owned_keys [''d/e1'' \<mapsto> demo_slice svc] ''d'' svc = {''d/e1''}" by (auto simp: owned_keys_def owned_by_def)
  then show ?thesis using slice_ready_addresses [of "demo_slice svc"] by (simp add: ready_backends_def)
qed


lemma demo_run_lookup: "fst (Lookup (routeTable (run_actions demo_run)) 0 (buildHostPort ''d'' ''web'' 80)) = ''10.0.0.1:81''"
  by code_simp



text \<open>The assumption that slices keep their Service is needed: when a slice is relabelled from one Service to
  another and the event is processed completely, the old Service owns no slice any more and has
  no ready address, yet it stays routed to the pod.\<close>
theorem relabelled_slice_leaves_route:
  "let s = run_actions (demo_run @ [SliceEvent (Modified (demo_slice ''api'')), SliceReload (demo_slice ''api'') (demo_order ''api'')])
   in pending s SliceWatcher = {} \<and> pending s EndpointsWatcher = {} \<and>
      range_order (watchedEndpointSlices s) (demo_order ''api'') \<and>
      ready_backends (watchedEndpointSlices s) (watchedEndpoints s) ''d'' ''web'' = {#} \<and>
      fst (Lookup (routeTable s) 0 (buildHostPort ''d'' ''web'' 80)) = ''10.0.0.1:81''"
proof -
  let ?s = "run_actions (demo_run @ [SliceEvent (Modified (demo_slice ''api'')), SliceReload (demo_slice ''api'') (demo_order ''api'')])"
  have st: "watchedEndpointSlices ?s = [''d/e1'' \<mapsto> demo_slice ''api'']" "watchedEndpoints ?s = Map.empty"
    "pending ?s SliceWatcher = {}" "pending ?s EndpointsWatcher = {}"
    by (simp_all add: run_actions_def demo_run_def endpoint_init_def watch_store_def slice_host_def)
  moreover have "owned_keys [''d/e1'' \<mapsto> demo_slice ''api''] ''d'' ''web'' = {}" by (auto simp: owned_keys_def owned_by_def)
  moreover have "fst (Lookup (routeTable ?s) 0 (buildHostPort ''d'' ''web'' 80)) = ''10.0.0.1:81''" by code_simp
  ultimately show ?thesis by (simp add: Let_def range_order_def demo_order_def ready_backends_def)
qed


end
