(* ===== verification/Config_Docs.thy ===== *)
theory Config_Docs
  imports Go_Text "HOL-Library.List_Lexorder" "HOL-Library.Char_ord" "HOL-Library.Product_Lexorder" "HOL-Library.Multiset"
begin

text \<open>
  How feature configuration reaches the controller and the control plane: ConfigMaps marked by a
  feature label whose value is the role \<^verbatim>\<open>global\<close> or \<^verbatim>\<open>zone\<close> (\<^verbatim>\<open>controller_waf.go\<close>,
  \<^verbatim>\<open>featurelabel.go\<close>), their data values in key order as documents, the document fingerprint, and
  the YAML-to-rules layer (\<^verbatim>\<open>wafrule\<close>, \<^verbatim>\<open>ratelimitrule\<close>, \<^verbatim>\<open>cacherule\<close>).

  A Go map with string keys is an association list with distinct keys in the order of one
  iteration; nothing may depend on that order, which is what the lemmas on \<open>sortedDataValues\<close> and
  \<open>global_docs\<close> show. The YAML decoder and SHA-256 are parameters.
\<close>

record configmap =
  cm_namespace :: string
  cm_name :: string
  cm_labels :: "string \<rightharpoonup> string"
  cm_data :: "(string \<times> string) list"

definition wafLabelKey :: string where "wafLabelKey = ''parapet.moonrhythm.io/waf''"
definition rateLimitLabelKey :: string where "rateLimitLabelKey = ''parapet.moonrhythm.io/ratelimit''"
definition corazaLabelKey :: string where "corazaLabelKey = ''parapet.moonrhythm.io/coraza''"
definition transformLabelKey :: string where "transformLabelKey = ''parapet.moonrhythm.io/transform''"
definition cacheLabelKey :: string where "cacheLabelKey = ''parapet.moonrhythm.io/cache''"
definition roleGlobal :: string where "roleGlobal = ''global''"
definition roleZone :: string where "roleZone = ''zone''"

text \<open>The mutually exclusive feature labels, as the controller and as the control plane list them.\<close>

definition ctrl_featureLabelKeys :: "string list" where
  "ctrl_featureLabelKeys = [wafLabelKey, rateLimitLabelKey, corazaLabelKey, transformLabelKey]"

definition cp_featureLabelKeys :: "string list" where
  "cp_featureLabelKeys = [wafLabelKey, rateLimitLabelKey, corazaLabelKey, cacheLabelKey]"

definition carriesOtherFeatureLabel :: "string list \<Rightarrow> configmap \<Rightarrow> string \<Rightarrow> string option" where
  "carriesOtherFeatureLabel keys cm self = find (\<lambda>k. k \<noteq> self \<and> cm_labels cm k \<noteq> None) keys"

definition sortedDataValues :: "(string \<times> string) list \<Rightarrow> string list" where
  "sortedDataValues data = map snd (sort_key fst data)"

definition zone_key :: "configmap \<Rightarrow> string" where
  "zone_key cm = cm_namespace cm @ ''/'' @ cm_name cm"

text \<open>The part of a reload pass that picks the documents: ConfigMaps of a recognised role that carry no
  other feature label; global ones only from the controller's own namespace.\<close>

definition has_role :: "string \<Rightarrow> string \<Rightarrow> configmap \<Rightarrow> bool" where
  "has_role label role cm \<longleftrightarrow> cm_labels cm label = Some role"

definition accepted :: "string list \<Rightarrow> string \<Rightarrow> configmap \<Rightarrow> bool" where
  "accepted keys label cm \<longleftrightarrow>
     (has_role label roleGlobal cm \<or> has_role label roleZone cm) \<and> carriesOtherFeatureLabel keys cm label = None"

definition global_docs :: "string list \<Rightarrow> string \<Rightarrow> string \<Rightarrow> configmap list \<Rightarrow> string list" where
  "global_docs keys label pod cms =
     concat (map (\<lambda>cm. sortedDataValues (cm_data cm))
       (sort_key (\<lambda>cm. (cm_namespace cm, cm_name cm))
         (filter (\<lambda>cm. accepted keys label cm \<and> has_role label roleGlobal cm \<and> cm_namespace cm = pod) cms)))"

definition zone_docs :: "string list \<Rightarrow> string \<Rightarrow> configmap list \<Rightarrow> string \<rightharpoonup> string list" where
  "zone_docs keys label cms key =
     (case filter (\<lambda>cm. accepted keys label cm \<and> has_role label roleZone cm \<and> zone_key cm = key) cms of
        [] \<Rightarrow> None
      | zs \<Rightarrow> Some (concat (map (\<lambda>cm. sortedDataValues (cm_data cm)) zs)))"

text \<open>\<open>fingerprintDocs\<close>: a hash of the documents, each preceded by its length in eight bytes.\<close>

definition le64 :: "nat \<Rightarrow> string" where
  "le64 n = map (\<lambda>i. char_of (n div 256 ^ i mod 256 :: nat)) [0..<8]"

definition frame_docs :: "string list \<Rightarrow> string" where
  "frame_docs docs = concat (map (\<lambda>d. le64 (length d) @ d) docs)"

definition fingerprintDocs :: "(string \<Rightarrow> string) \<Rightarrow> string list \<Rightarrow> string" where
  "fingerprintDocs sha256 docs = sha256 (frame_docs docs)"

subsection \<open>Parsing documents\<close>

text \<open>
  \<open>ratelimitrule.Parse\<close>: blank documents are skipped, every other one must decode and hold at least
  one limit. \<open>decode\<close> is the YAML decoder into the document type.
\<close>

datatype doc_error = Undecodable string | NoEntries string | UnknownAction nat string

fun parse_docs :: "(string \<Rightarrow> 'l list option) \<Rightarrow> string list \<Rightarrow> 'l list \<times> doc_error list" where
  "parse_docs decode [] = ([], [])"
| "parse_docs decode (d # ds) =
     (let (out, errs) = parse_docs decode ds in
      if trim_space d = [] then (out, errs)
      else case decode d of
        None \<Rightarrow> (out, Undecodable d # errs)
      | Some ls \<Rightarrow> if ls = [] then (out, NoEntries d # errs) else (ls @ out, errs))"

text \<open>\<open>cacherule.Parse\<close>: the same, but a document without overrides is accepted.\<close>

fun cache_parse_docs :: "(string \<Rightarrow> 'l list option) \<Rightarrow> string list \<Rightarrow> 'l list \<times> doc_error list" where
  "cache_parse_docs decode [] = ([], [])"
| "cache_parse_docs decode (d # ds) =
     (let (out, errs) = cache_parse_docs decode ds in
      if trim_space d = [] then (out, errs)
      else case decode d of None \<Rightarrow> (out, Undecodable d # errs) | Some ls \<Rightarrow> (ls @ out, errs))"

datatype waf_action = ActionLog | ActionAllow | ActionBlock

record Rule =
  rule_id :: string
  Description :: string
  Expression :: string
  rule_action :: string
  rule_status :: int
  rule_message :: string
  Priority :: int

record waf_rule =
  wr_id :: string
  wr_description :: string
  wr_expression :: string
  wr_action :: waf_action
  wr_status :: int
  wr_message :: string
  wr_priority :: int

definition ParseAction :: "string \<Rightarrow> waf_action option" where
  "ParseAction s =
     (let a = to_lower (trim_space s) in
      if a = [] \<or> a = ''log'' then Some ActionLog
      else if a = ''allow'' then Some ActionAllow
      else if a = ''block'' then Some ActionBlock
      else None)"

definition convert_rule :: "Rule \<Rightarrow> waf_action \<Rightarrow> waf_rule" where
  "convert_rule r a =
     \<lparr>wr_id = rule_id r, wr_description = Description r, wr_expression = Expression r, wr_action = a,
      wr_status = rule_status r, wr_message = rule_message r, wr_priority = Priority r\<rparr>"

fun convert_rules :: "nat \<Rightarrow> Rule list \<Rightarrow> waf_rule list \<times> doc_error list" where
  "convert_rules i [] = ([], [])"
| "convert_rules i (r # rs) =
     (let (out, errs) = convert_rules (Suc i) rs in
      case ParseAction (rule_action r) of
        None \<Rightarrow> (out, UnknownAction i (rule_id r) # errs)
      | Some a \<Rightarrow> (convert_rule r a # out, errs))"

text \<open>\<open>wafrule.Parse\<close>.\<close>

fun waf_parse_docs :: "(string \<Rightarrow> Rule list option) \<Rightarrow> string list \<Rightarrow> waf_rule list \<times> doc_error list" where
  "waf_parse_docs decode [] = ([], [])"
| "waf_parse_docs decode (d # ds) =
     (let (out, errs) = waf_parse_docs decode ds in
      if trim_space d = [] then (out, errs)
      else case decode d of
        None \<Rightarrow> (out, Undecodable d # errs)
      | Some rs \<Rightarrow>
          if rs = [] then (out, NoEntries d # errs)
          else let (o1, e1) = convert_rules 0 rs in (o1 @ out, e1 @ errs))"

subsection \<open>Order of iteration does not matter\<close>

lemma sort_key_order:
  assumes "mset xs = mset ys" and "inj_on f (set xs)"
  shows "sort_key f xs = sort_key f ys"
  by (rule sort_key_inj_key_eq) (use assms in auto)

lemma sortedDataValues_order:
  assumes "mset xs = mset ys" and "distinct (map fst xs)"
  shows "sortedDataValues xs = sortedDataValues ys"
  using assms sort_key_order [of xs ys fst] by (simp add: sortedDataValues_def distinct_map)

text \<open>A watched store holds one ConfigMap per namespace and name.\<close>

definition well_keyed :: "configmap list \<Rightarrow> bool" where
  "well_keyed cms \<longleftrightarrow> distinct (map (\<lambda>cm. (cm_namespace cm, cm_name cm)) cms)"

lemma well_keyed_filter: "well_keyed cms \<Longrightarrow> well_keyed (filter P cms)"
  by (simp add: well_keyed_def distinct_map_filter)

lemma global_docs_order:
  assumes "well_keyed cms" and "mset cms = mset cms'"
  shows "global_docs keys label pod cms = global_docs keys label pod cms'"
proof -
  let ?P = "\<lambda>cm. accepted keys label cm \<and> has_role label roleGlobal cm \<and> cm_namespace cm = pod"
  have "mset (filter ?P cms) = mset (filter ?P cms')" using assms(2) by (simp add: mset_filter)
  moreover have "inj_on (\<lambda>cm. (cm_namespace cm, cm_name cm)) (set (filter ?P cms))"
    using well_keyed_filter [OF assms(1), of ?P] by (simp add: well_keyed_def distinct_map)
  ultimately have "sort_key (\<lambda>cm. (cm_namespace cm, cm_name cm)) (filter ?P cms) =
      sort_key (\<lambda>cm. (cm_namespace cm, cm_name cm)) (filter ?P cms')" by (rule sort_key_order)
  then show ?thesis by (simp only: global_docs_def)
qed

text \<open>A namespace has no slash, so a zone key names one ConfigMap.\<close>

definition dns_namespaces :: "configmap list \<Rightarrow> bool" where
  "dns_namespaces cms \<longleftrightarrow> (\<forall>cm \<in> set cms. CHR ''/'' \<notin> set (cm_namespace cm))"

lemma zone_key_inj:
  assumes "CHR ''/'' \<notin> set (cm_namespace a)" and "CHR ''/'' \<notin> set (cm_namespace b)" and "zone_key a = zone_key b"
  shows "cm_namespace a = cm_namespace b \<and> cm_name a = cm_name b"
  using split_first [of "cm_namespace a" "CHR ''/''" "cm_name a" "cm_namespace b" "cm_name b"] assms
  by (simp add: zone_key_def)

lemma zone_docs_Some:
  assumes "well_keyed cms" and "dns_namespaces cms" and "cm \<in> set cms"
    and "accepted keys label cm" and "has_role label roleZone cm"
  shows "zone_docs keys label cms (zone_key cm) = Some (sortedDataValues (cm_data cm))"
proof -
  let ?P = "\<lambda>c. accepted keys label c \<and> has_role label roleZone c \<and> zone_key c = zone_key cm"
  have one: "c = cm" if "c \<in> set (filter ?P cms)" for c
    using that assms(1-3) zone_key_inj [of c cm] by (auto simp: dns_namespaces_def well_keyed_def distinct_map dest: inj_onD)
  moreover have "cm \<in> set (filter ?P cms)" using assms by simp
  moreover have "distinct (filter ?P cms)" using assms(1) by (simp add: well_keyed_def distinct_map)
  ultimately have f: "set (filter ?P cms) = {cm}" "distinct (filter ?P cms)" by blast+
  then have "length (filter ?P cms) = 1" using distinct_card [OF f(2)] by simp
  then have "filter ?P cms = [cm]" using f(1) by (cases "filter ?P cms") auto
  then show ?thesis by (simp add: zone_docs_def)
qed

lemma zone_docs_None:
  assumes "\<And>cm. cm \<in> set cms \<Longrightarrow> accepted keys label cm \<Longrightarrow> has_role label roleZone cm \<Longrightarrow> zone_key cm \<noteq> key"
  shows "zone_docs keys label cms key = None"
proof -
  have "filter (\<lambda>cm. accepted keys label cm \<and> has_role label roleZone cm \<and> zone_key cm = key) cms = []"
    using assms by (auto simp: filter_empty_conv)
  then show ?thesis by (simp add: zone_docs_def)
qed

subsection \<open>Fingerprints identify documents\<close>

lemma digits_mod:
  assumes "\<forall>i < k. m div 256 ^ i mod 256 = n div 256 ^ i mod (256 :: nat)"
  shows "m mod 256 ^ k = n mod 256 ^ k"
  using assms
proof (induction k)
  case (Suc k)
  then have "m mod 256 ^ k = n mod 256 ^ k" "m div 256 ^ k mod 256 = n div 256 ^ k mod 256" by auto
  then show ?case by (simp add: power_Suc2 mod_mult2_eq del: power_Suc)
qed simp

lemma le64_inj:
  assumes "le64 m = le64 n" and "m < 2 ^ 64" and "n < 2 ^ 64"
  shows "m = n"
proof -
  have "m div 256 ^ i mod 256 = n div 256 ^ i mod 256" if "i < 8" for i
  proof -
    have "le64 m ! i = le64 n ! i" using assms(1) by simp
    then have "char_of (m div 256 ^ i mod 256) = char_of (n div 256 ^ i mod (256 :: nat))" using that by (simp add: le64_def)
    then show ?thesis by (simp add: char_of_eq_iff [of "m div 256 ^ i mod 256"])
  qed
  then have "m mod 256 ^ 8 = n mod 256 ^ 8" by (intro digits_mod) simp
  then show ?thesis using assms(2,3) by simp
qed

lemma le64_length [simp]: "length (le64 n) = 8"
  by (simp add: le64_def)

lemma frame_docs_Cons [simp]: "frame_docs (d # ds) = le64 (length d) @ d @ frame_docs ds" "frame_docs [] = []"
  by (simp_all add: frame_docs_def)

lemma frame_docs_inj:
  assumes "frame_docs xs = frame_docs ys" and "\<forall>d \<in> set xs \<union> set ys. length d < 2 ^ 64"
  shows "xs = ys"
  using assms
proof (induction xs arbitrary: ys)
  case Nil
  then show ?case by (cases ys) (auto simp: le64_def)
next
  case (Cons x xs)
  have "frame_docs ys \<noteq> []" using Cons.prems(1) by (auto simp: le64_def)
  then obtain y ys' where ys: "ys = y # ys'" by (cases ys) auto
  have e: "le64 (length x) @ x @ frame_docs xs = le64 (length y) @ y @ frame_docs ys'" using Cons.prems(1) by (simp add: ys)
  then have "le64 (length x) = le64 (length y)" "x @ frame_docs xs = y @ frame_docs ys'" by (simp_all add: append_eq_append_conv)
  moreover from this(1) have "length x = length y" using le64_inj Cons.prems(2) by (simp add: ys)
  ultimately have "x = y" "frame_docs xs = frame_docs ys'" by (auto simp: append_eq_append_conv)
  then show ?case using Cons.IH [of ys'] Cons.prems(2) by (simp add: ys)
qed


subsection \<open>Namespaces are isolated\<close>

lemma zone_docs_isolated:
  assumes "well_keyed cms" and "well_keyed cms'" and "dns_namespaces cms" and "dns_namespaces cms'"
    and "CHR ''/'' \<notin> set ns" and "\<forall>cm. cm_namespace cm = ns \<longrightarrow> (cm \<in> set cms \<longleftrightarrow> cm \<in> set cms')"
  shows "zone_docs keys label cms (ns @ ''/'' @ n) = zone_docs keys label cms' (ns @ ''/'' @ n)"
proof -
  have ns: "cm_namespace cm = ns" if "cm \<in> set cms \<union> set cms'" "zone_key cm = ns @ ''/'' @ n" for cm
    using that assms(3-5) split_first [of "cm_namespace cm" "CHR ''/''" "cm_name cm" ns n]
    by (auto simp: dns_namespaces_def zone_key_def)
  show ?thesis
  proof (cases "\<exists>cm \<in> set cms. accepted keys label cm \<and> has_role label roleZone cm \<and> zone_key cm = ns @ ''/'' @ n")
    case True
    then obtain cm where cm: "cm \<in> set cms" "accepted keys label cm" "has_role label roleZone cm" "zone_key cm = ns @ ''/'' @ n"
      by blast
    then have "cm \<in> set cms'" using ns [of cm] assms(6) by blast
    then show ?thesis using zone_docs_Some [OF assms(1,3) cm(1-3)] zone_docs_Some [OF assms(2,4) _ cm(2,3)] cm(4) by simp
  next
    case False
    then have "zone_docs keys label cms (ns @ ''/'' @ n) = None" by (intro zone_docs_None) blast
    moreover have "zone_docs keys label cms' (ns @ ''/'' @ n) = None"
      using False ns assms(6) by (intro zone_docs_None) blast
    ultimately show ?thesis by simp
  qed
qed

lemma global_docs_isolated:
  assumes "well_keyed cms" and "well_keyed cms'" and "\<forall>cm. cm_namespace cm = pod \<longrightarrow> (cm \<in> set cms \<longleftrightarrow> cm \<in> set cms')"
  shows "global_docs keys label pod cms = global_docs keys label pod cms'"
proof -
  let ?P = "\<lambda>cm. accepted keys label cm \<and> has_role label roleGlobal cm \<and> cm_namespace cm = pod"
  have d: "distinct (filter ?P cms)" "distinct (filter ?P cms')" using assms(1,2) by (auto simp: well_keyed_def distinct_map)
  have "set (filter ?P cms) = set (filter ?P cms')" using assms(3) by auto
  then have "mset (filter ?P cms) = mset (filter ?P cms')" using d by (simp only: set_eq_iff_mset_eq_distinct)
  moreover have "inj_on (\<lambda>cm. (cm_namespace cm, cm_name cm)) (set (filter ?P cms))"
    using well_keyed_filter [OF assms(1), of ?P] by (simp add: well_keyed_def distinct_map)
  ultimately have "sort_key (\<lambda>cm. (cm_namespace cm, cm_name cm)) (filter ?P cms) =
      sort_key (\<lambda>cm. (cm_namespace cm, cm_name cm)) (filter ?P cms')" by (rule sort_key_order)
  then show ?thesis by (simp only: global_docs_def)
qed


lemma zone_docs_order:
  assumes "well_keyed cms" and "dns_namespaces cms" and "mset cms = mset cms'"
  shows "zone_docs keys label cms key = zone_docs keys label cms' key"
proof -
  have s: "set cms = set cms'" using assms(3) by (rule mset_eq_setD)
  have "mset (map (\<lambda>cm. (cm_namespace cm, cm_name cm)) cms) = mset (map (\<lambda>cm. (cm_namespace cm, cm_name cm)) cms')"
    using assms(3) by simp
  then have k: "well_keyed cms'" using assms(1) unfolding well_keyed_def by (metis mset_eq_imp_distinct_iff)
  have n: "dns_namespaces cms'" using assms(2) s by (simp add: dns_namespaces_def)
  show ?thesis
  proof (cases "\<exists>cm \<in> set cms. accepted keys label cm \<and> has_role label roleZone cm \<and> zone_key cm = key")
    case True
    then obtain cm where cm: "cm \<in> set cms" "accepted keys label cm" "has_role label roleZone cm" "zone_key cm = key" by blast
    then show ?thesis using zone_docs_Some [OF assms(1,2) cm(1-3)] zone_docs_Some [OF k n _ cm(2,3)] s by simp
  next
    case False
    then show ?thesis using zone_docs_None [of cms] zone_docs_None [of cms'] s by metis
  qed
qed


end
