(* ===== verification/Policy_Store.thy ===== *)
theory Policy_Store
  imports Config_Docs Authz
begin

text \<open>
  The control plane's policy stores (\<^verbatim>\<open>edgecp/wafstore.go\<close>, \<^verbatim>\<open>ratelimitstore.go\<close>, \<^verbatim>\<open>corazastore.go\<close>,
  \<^verbatim>\<open>cachestore.go\<close>), the collection of ConfigMaps into them (\<^verbatim>\<open>*reload.go\<close>), their per-edge scoping,
  and the handlers that serve the scoped payload with an ETag (\<^verbatim>\<open>server.go\<close>).

  The four stores have one shape and differ in the document type (\<^typ>\<open>string\<close> for the WAF and Coraza,
  a list of strings for rate limits and cache overrides), in how documents are concatenated, and in
  which Ingress-derived bindings they keep; the fields a store does not have stay empty. Setters
  and \<open>scoped\<close> hold the store's lock, so each is one step. SHA-256 and the JSON encoder are
  parameters.
\<close>

type_synonym 'v gomap = "(string \<times> 'v) list"

record 'd policy_store =
  ps_global :: 'd
  ps_zones :: "'d gomap"
  ps_hostZone :: "string gomap"
  ps_routeZone :: "string gomap"
  ps_hosts :: "string list"
  ps_gen :: nat
  ps_etag :: string

definition hex_digit :: "nat \<Rightarrow> char" where
  "hex_digit d = (if d < 10 then char_of (48 + d) else char_of (87 + d))"

definition hex_encode :: "string \<Rightarrow> string" where
  "hex_encode s = concat (map (\<lambda>c. [hex_digit (of_char c div 16), hex_digit (of_char c mod 16)]) s)"

definition etagOfString :: "(string \<Rightarrow> string) \<Rightarrow> string \<Rightarrow> string" where
  "etagOfString sha s = [CHR 34] @ hex_encode (take 16 (sha s)) @ [CHR 34]"

definition writeSortedMap :: "string gomap \<Rightarrow> string" where
  "writeSortedMap m = concat (map (\<lambda>(k, v). k @ ''='' @ v @ [CHR 10]) (sort_key fst m))"

text \<open>The stable serialisations: plain text for the WAF, length-prefixed documents for rate limits.\<close>

definition waf_fingerprint :: "string policy_store \<Rightarrow> string" where
  "waf_fingerprint s =
     ps_global s @ [CHR 0x00] @ writeSortedMap (ps_zones s) @ [CHR 0x00] @ writeSortedMap (ps_hostZone s) @ [CHR 0x00] @
     writeSortedMap (ps_routeZone s)"

definition coraza_fingerprint :: "string policy_store \<Rightarrow> string" where
  "coraza_fingerprint s =
     ps_global s @ [CHR 0x00] @ writeSortedMap (ps_zones s) @ [CHR 0x00] @ writeSortedMap (ps_routeZone s)"

definition writeDocs :: "string list \<Rightarrow> string" where
  "writeDocs docs = concat (map (\<lambda>d. itoa (int (length d)) @ '':'' @ d) docs)"

definition write_zone_docs :: "string list gomap \<Rightarrow> string" where
  "write_zone_docs m = concat (map (\<lambda>(k, ds). k @ [CHR 0x01] @ writeDocs ds @ [CHR 0x01]) (sort_key fst m))"

definition ratelimit_fingerprint :: "string list policy_store \<Rightarrow> string" where
  "ratelimit_fingerprint s =
     writeDocs (ps_global s) @ [CHR 0x00] @ write_zone_docs (ps_zones s) @ [CHR 0x00] @ writeSortedMap (ps_hostZone s) @ [CHR 0x00] @
     writeSortedMap (ps_routeZone s) @ [CHR 0x00] @ concat (map (\<lambda>h. h @ [CHR 0x01]) (ps_hosts s))"

definition cache_fingerprint :: "string list policy_store \<Rightarrow> string" where
  "cache_fingerprint s =
     writeDocs (ps_global s) @ [CHR 0x00] @ write_zone_docs (ps_zones s) @ [CHR 0x00] @ writeSortedMap (ps_routeZone s)"

definition new_store :: "(string \<Rightarrow> string) \<Rightarrow> 'd \<Rightarrow> 'd policy_store" where
  "new_store sha g0 =
     \<lparr>ps_global = g0, ps_zones = [], ps_hostZone = [], ps_routeZone = [], ps_hosts = [], ps_gen = 0,
      ps_etag = etagOfString sha []\<rparr>"

text \<open>\<open>recompute\<close> bumps the generation when the content hash moved.\<close>

definition recompute :: "(string \<Rightarrow> string) \<Rightarrow> ('d policy_store \<Rightarrow> string) \<Rightarrow> 'd policy_store \<Rightarrow> 'd policy_store" where
  "recompute sha finger s =
     (let et = etagOfString sha (finger s) in
      if ps_etag s = et then s else s\<lparr>ps_gen := ps_gen s + 1, ps_etag := et\<rparr>)"

definition patternHost :: "string \<Rightarrow> string" where
  "patternHost pattern = (case index_byte CHR ''/'' pattern of Some i \<Rightarrow> take i pattern | None \<Rightarrow> pattern)"

text \<open>The scoped payload: bindings of allowed hosts, and the zones those bindings name.\<close>

record 'd snapshot =
  sn_gen :: nat
  sn_global :: 'd
  sn_zones :: "'d gomap"
  sn_hostZone :: "string gomap"
  sn_routeZone :: "string gomap"
  sn_hosts :: "string list"

definition scoped :: "(string \<Rightarrow> bool) \<Rightarrow> 'd policy_store \<Rightarrow> 'd snapshot" where
  "scoped allow s =
     (let hz = filter (\<lambda>p. allow (fst p)) (ps_hostZone s);
          rz = filter (\<lambda>p. allow (patternHost (fst p))) (ps_routeZone s)
      in \<lparr>sn_gen = ps_gen s, sn_global = ps_global s,
          sn_zones = filter (\<lambda>z. fst z \<in> snd ` set hz \<or> fst z \<in> snd ` set rz) (ps_zones s),
          sn_hostZone = hz, sn_routeZone = rz, sn_hosts = filter allow (ps_hosts s)\<rparr>)"

subsection \<open>The four stores\<close>

definition NewWafStore :: "(string \<Rightarrow> string) \<Rightarrow> string policy_store" where
  "NewWafStore sha = new_store sha []"

definition WafStore_recompute :: "(string \<Rightarrow> string) \<Rightarrow> string policy_store \<Rightarrow> string policy_store" where
  "WafStore_recompute sha = recompute sha waf_fingerprint"

definition WafStore_SetGlobal :: "(string \<Rightarrow> string) \<Rightarrow> string \<Rightarrow> string policy_store \<Rightarrow> string policy_store" where
  "WafStore_SetGlobal sha g s = WafStore_recompute sha (s\<lparr>ps_global := g\<rparr>)"

definition WafStore_SetZones :: "(string \<Rightarrow> string) \<Rightarrow> string gomap \<Rightarrow> string policy_store \<Rightarrow> string policy_store" where
  "WafStore_SetZones sha zs s = WafStore_recompute sha (s\<lparr>ps_zones := zs\<rparr>)"

definition WafStore_SetIngressDerived :: "(string \<Rightarrow> string) \<Rightarrow> string gomap \<Rightarrow> string gomap \<Rightarrow> string policy_store \<Rightarrow> string policy_store" where
  "WafStore_SetIngressDerived sha hz rz s = WafStore_recompute sha (s\<lparr>ps_hostZone := hz, ps_routeZone := rz\<rparr>)"

definition WafStore_scoped :: "(string \<Rightarrow> bool) \<Rightarrow> string policy_store \<Rightarrow> string snapshot" where
  "WafStore_scoped = scoped"

definition NewRateLimitStore :: "(string \<Rightarrow> string) \<Rightarrow> string list policy_store" where
  "NewRateLimitStore sha = new_store sha []"

definition RateLimitStore_recompute :: "(string \<Rightarrow> string) \<Rightarrow> string list policy_store \<Rightarrow> string list policy_store" where
  "RateLimitStore_recompute sha = recompute sha ratelimit_fingerprint"

definition RateLimitStore_SetGlobal :: "(string \<Rightarrow> string) \<Rightarrow> string list \<Rightarrow> string list policy_store \<Rightarrow> string list policy_store" where
  "RateLimitStore_SetGlobal sha g s = RateLimitStore_recompute sha (s\<lparr>ps_global := g\<rparr>)"

definition RateLimitStore_SetZones :: "(string \<Rightarrow> string) \<Rightarrow> string list gomap \<Rightarrow> string list policy_store \<Rightarrow> string list policy_store" where
  "RateLimitStore_SetZones sha zs s = RateLimitStore_recompute sha (s\<lparr>ps_zones := zs\<rparr>)"

definition RateLimitStore_SetIngressDerived :: "(string \<Rightarrow> string) \<Rightarrow> string gomap \<Rightarrow> string gomap \<Rightarrow> string list \<Rightarrow> string list policy_store \<Rightarrow> string list policy_store" where
  "RateLimitStore_SetIngressDerived sha hz rz hs s = RateLimitStore_recompute sha (s\<lparr>ps_hostZone := hz, ps_routeZone := rz, ps_hosts := hs\<rparr>)"

definition RateLimitStore_scoped :: "(string \<Rightarrow> bool) \<Rightarrow> string list policy_store \<Rightarrow> string list snapshot" where
  "RateLimitStore_scoped = scoped"

definition NewCorazaStore :: "(string \<Rightarrow> string) \<Rightarrow> string policy_store" where
  "NewCorazaStore sha = new_store sha []"

definition CorazaStore_recompute :: "(string \<Rightarrow> string) \<Rightarrow> string policy_store \<Rightarrow> string policy_store" where
  "CorazaStore_recompute sha = recompute sha coraza_fingerprint"

definition CorazaStore_SetGlobal :: "(string \<Rightarrow> string) \<Rightarrow> string \<Rightarrow> string policy_store \<Rightarrow> string policy_store" where
  "CorazaStore_SetGlobal sha g s = CorazaStore_recompute sha (s\<lparr>ps_global := g\<rparr>)"

definition CorazaStore_SetZones :: "(string \<Rightarrow> string) \<Rightarrow> string gomap \<Rightarrow> string policy_store \<Rightarrow> string policy_store" where
  "CorazaStore_SetZones sha zs s = CorazaStore_recompute sha (s\<lparr>ps_zones := zs\<rparr>)"

definition CorazaStore_SetIngressDerived :: "(string \<Rightarrow> string) \<Rightarrow> string gomap \<Rightarrow> string policy_store \<Rightarrow> string policy_store" where
  "CorazaStore_SetIngressDerived sha rz s = CorazaStore_recompute sha (s\<lparr>ps_routeZone := rz\<rparr>)"

definition CorazaStore_scoped :: "(string \<Rightarrow> bool) \<Rightarrow> string policy_store \<Rightarrow> string snapshot" where
  "CorazaStore_scoped = scoped"

definition NewCacheStore :: "(string \<Rightarrow> string) \<Rightarrow> string list policy_store" where
  "NewCacheStore sha = new_store sha []"

definition CacheStore_recompute :: "(string \<Rightarrow> string) \<Rightarrow> string list policy_store \<Rightarrow> string list policy_store" where
  "CacheStore_recompute sha = recompute sha cache_fingerprint"

definition CacheStore_SetGlobal :: "(string \<Rightarrow> string) \<Rightarrow> string list \<Rightarrow> string list policy_store \<Rightarrow> string list policy_store" where
  "CacheStore_SetGlobal sha g s = CacheStore_recompute sha (s\<lparr>ps_global := g\<rparr>)"

definition CacheStore_SetZones :: "(string \<Rightarrow> string) \<Rightarrow> string list gomap \<Rightarrow> string list policy_store \<Rightarrow> string list policy_store" where
  "CacheStore_SetZones sha zs s = CacheStore_recompute sha (s\<lparr>ps_zones := zs\<rparr>)"

definition CacheStore_SetIngressDerived :: "(string \<Rightarrow> string) \<Rightarrow> string gomap \<Rightarrow> string list policy_store \<Rightarrow> string list policy_store" where
  "CacheStore_SetIngressDerived sha rz s = CacheStore_recompute sha (s\<lparr>ps_routeZone := rz\<rparr>)"

definition CacheStore_scoped :: "(string \<Rightarrow> bool) \<Rightarrow> string list policy_store \<Rightarrow> string list snapshot" where
  "CacheStore_scoped = scoped"

subsection \<open>The known-host store\<close>

record HostsStore =
  hs_hosts :: "string list"
  hs_gen :: nat
  hs_etag :: string

definition NewHostsStore :: "(string \<Rightarrow> string) \<Rightarrow> HostsStore" where
  "NewHostsStore sha = \<lparr>hs_hosts = [], hs_gen = 0, hs_etag = etagOfString sha []\<rparr>"

definition HostsStore_recompute :: "(string \<Rightarrow> string) \<Rightarrow> HostsStore \<Rightarrow> HostsStore" where
  "HostsStore_recompute sha s =
     (let et = etagOfString sha (concat (map (\<lambda>h. h @ [CHR 0x00]) (hs_hosts s))) in
      if hs_etag s = et then s else s\<lparr>hs_gen := hs_gen s + 1, hs_etag := et\<rparr>)"

definition SetHosts :: "(string \<Rightarrow> string) \<Rightarrow> string list \<Rightarrow> HostsStore \<Rightarrow> HostsStore" where
  "SetHosts sha hosts s = HostsStore_recompute sha (s\<lparr>hs_hosts := hosts\<rparr>)"

definition HostsStore_scoped :: "(string \<Rightarrow> bool) \<Rightarrow> HostsStore \<Rightarrow> nat \<times> string list" where
  "HostsStore_scoped allow s = (hs_gen s, sort (filter allow (hs_hosts s)))"

subsection \<open>From ConfigMaps to the stores\<close>

text \<open>The projection loop of the reloaders: a ConfigMap of a recognised role that carries another
  feature's label is skipped.\<close>

definition project :: "string \<Rightarrow> configmap list \<Rightarrow> configmap list" where
  "project label cms =
     filter (\<lambda>cm. \<not> ((has_role label roleGlobal cm \<or> has_role label roleZone cm) \<and>
       carriesOtherFeatureLabel cp_featureLabelKeys cm label \<noteq> None)) cms"

definition sortConfigMapsByName :: "configmap list \<Rightarrow> configmap list" where
  "sortConfigMapsByName = sort_key (\<lambda>cm. (cm_namespace cm, cm_name cm))"

definition collect_global :: "string \<Rightarrow> configmap list \<Rightarrow> string \<Rightarrow> string list" where
  "collect_global label cms pod =
     concat (map (\<lambda>cm. sortedDataValues (cm_data cm))
       (sortConfigMapsByName (filter (\<lambda>cm. has_role label roleGlobal cm \<and> cm_namespace cm = pod) cms)))"

definition doc_separator :: string where
  "doc_separator = [CHR 10] @ ''---'' @ [CHR 10]"

fun join_docs :: "string \<Rightarrow> string list \<Rightarrow> string" where
  "join_docs sep [] = []"
| "join_docs sep [d] = d"
| "join_docs sep (d # e # ds) = d @ sep @ join_docs sep (e # ds)"

definition concatGlobalRules :: "configmap list \<Rightarrow> string \<Rightarrow> string" where
  "concatGlobalRules cms pod = join_docs doc_separator (collect_global wafLabelKey cms pod)"

definition concatGlobalCorazaRules :: "configmap list \<Rightarrow> string \<Rightarrow> string" where
  "concatGlobalCorazaRules cms pod = join_docs [CHR 10] (collect_global corazaLabelKey cms pod)"

definition collectGlobalLimitDocs :: "configmap list \<Rightarrow> string \<Rightarrow> string list" where
  "collectGlobalLimitDocs cms pod = collect_global rateLimitLabelKey cms pod"

definition collectGlobalCacheDocs :: "configmap list \<Rightarrow> string \<Rightarrow> string list" where
  "collectGlobalCacheDocs cms pod = collect_global cacheLabelKey cms pod"

text \<open>Zone collection: a later ConfigMap with the same key extends the entry.\<close>

fun put_zone :: "('d option \<Rightarrow> 'd) \<Rightarrow> string \<Rightarrow> 'd gomap \<Rightarrow> 'd gomap" where
  "put_zone upd key [] = [(key, upd None)]"
| "put_zone upd key ((k, v) # m) = (if k = key then (k, upd (Some v)) # m else (k, v) # put_zone upd key m)"

definition collect_zones :: "(string list \<Rightarrow> 'd option \<Rightarrow> 'd) \<Rightarrow> string \<Rightarrow> configmap list \<Rightarrow> 'd gomap" where
  "collect_zones upd label cms =
     foldl (\<lambda>m cm. put_zone (upd (sortedDataValues (cm_data cm))) (zone_key cm) m) []
       (filter (has_role label roleZone) cms)"

definition extend_text :: "string \<Rightarrow> string list \<Rightarrow> string option \<Rightarrow> string" where
  "extend_text sep docs old =
     (case old of
        Some e \<Rightarrow> join_docs sep (if e = [] then docs else e # docs)
      | None \<Rightarrow> join_docs sep docs)"

definition extend_list :: "string list \<Rightarrow> string list option \<Rightarrow> string list" where
  "extend_list docs old = (case old of Some e \<Rightarrow> e @ docs | None \<Rightarrow> docs)"

definition collectZoneRules :: "configmap list \<Rightarrow> string gomap" where
  "collectZoneRules = collect_zones (extend_text doc_separator) wafLabelKey"

definition collectZoneLimitDocs :: "configmap list \<Rightarrow> string list gomap" where
  "collectZoneLimitDocs = collect_zones extend_list rateLimitLabelKey"

definition collectZoneCacheDocs :: "configmap list \<Rightarrow> string list gomap" where
  "collectZoneCacheDocs = collect_zones extend_list cacheLabelKey"

definition collectCorazaZoneRules :: "configmap list \<Rightarrow> string gomap" where
  "collectCorazaZoneRules = collect_zones (extend_text [CHR 10]) corazaLabelKey"

text \<open>\<open>reload\<close>: a failed list leaves the store as it is.\<close>

definition waf_reload ::
  "(string \<Rightarrow> string) \<Rightarrow> string \<Rightarrow> configmap list option \<Rightarrow> string policy_store \<Rightarrow> bool \<times> string policy_store" where
  "waf_reload sha pod listed s =
     (case listed of
        None \<Rightarrow> (False, s)
      | Some cms \<Rightarrow>
          let p = project wafLabelKey cms in
          (True, WafStore_SetZones sha (collectZoneRules p) (WafStore_SetGlobal sha (concatGlobalRules p pod) s)))"

definition ratelimit_reload ::
  "(string \<Rightarrow> string) \<Rightarrow> string \<Rightarrow> configmap list option \<Rightarrow> string list policy_store \<Rightarrow> bool \<times> string list policy_store" where
  "ratelimit_reload sha pod listed s =
     (case listed of
        None \<Rightarrow> (False, s)
      | Some cms \<Rightarrow>
          let p = project rateLimitLabelKey cms in
          (True, RateLimitStore_SetZones sha (collectZoneLimitDocs p) (RateLimitStore_SetGlobal sha (collectGlobalLimitDocs p pod) s)))"

definition coraza_reload ::
  "(string \<Rightarrow> string) \<Rightarrow> string \<Rightarrow> configmap list option \<Rightarrow> string policy_store \<Rightarrow> bool \<times> string policy_store" where
  "coraza_reload sha pod listed s =
     (case listed of
        None \<Rightarrow> (False, s)
      | Some cms \<Rightarrow>
          let p = project corazaLabelKey cms in
          (True, CorazaStore_SetZones sha (collectCorazaZoneRules p) (CorazaStore_SetGlobal sha (concatGlobalCorazaRules p pod) s)))"

definition cache_reload ::
  "(string \<Rightarrow> string) \<Rightarrow> string \<Rightarrow> configmap list option \<Rightarrow> string list policy_store \<Rightarrow> bool \<times> string list policy_store" where
  "cache_reload sha pod listed s =
     (case listed of
        None \<Rightarrow> (False, s)
      | Some cms \<Rightarrow>
          let p = project cacheLabelKey cms in
          (True, CacheStore_SetZones sha (collectZoneCacheDocs p) (CacheStore_SetGlobal sha (collectGlobalCacheDocs p pod) s)))"

subsection \<open>Scoping\<close>

lemma map_of_filter_fst: "map_of (filter (\<lambda>p. P (fst p)) m) k = (if P k then map_of m k else None)"
  by (induction m) auto

lemma scoped_zones:
  assumes "z \<in> snd ` set (sn_hostZone (scoped allow s)) \<or> z \<in> snd ` set (sn_routeZone (scoped allow s))"
  shows "map_of (sn_zones (scoped allow s)) z = map_of (ps_zones s) z"
  using assms by (simp add: scoped_def Let_def map_of_filter_fst [where P = "\<lambda>k. k \<in> snd ` _ \<or> k \<in> snd ` _"])

lemma map_of_snd: "map_of m k = Some v \<Longrightarrow> v \<in> snd ` set m"
  by (force dest: map_of_SomeD)

text \<open>C26. The payload scoped for an edge is exactly what its hosts need: a route or host the edge may serve resolves
  to the same zone documents as in the full store, one it may not serve resolves to nothing, and
  every zone in the payload is bound by some route or host the edge may serve.\<close>
theorem scoped_least_privilege:
  "let p = RateLimitStore_scoped allow s in
     Option.bind (map_of (sn_routeZone p) pat) (map_of (sn_zones p)) =
       (if allow (patternHost pat) then Option.bind (map_of (ps_routeZone s) pat) (map_of (ps_zones s)) else None) \<and>
     Option.bind (map_of (sn_hostZone p) host) (map_of (sn_zones p)) =
       (if allow host then Option.bind (map_of (ps_hostZone s) host) (map_of (ps_zones s)) else None) \<and>
     list_all (\<lambda>z. list_ex (\<lambda>b. snd b = fst z \<and> allow (patternHost (fst b))) (ps_routeZone s) \<or>
       list_ex (\<lambda>b. snd b = fst z \<and> allow (fst b)) (ps_hostZone s)) (sn_zones p) \<and>
     list_all allow (sn_hosts p)"
proof -
  let ?p = "scoped allow s"
  have r: "map_of (sn_routeZone ?p) pat = (if allow (patternHost pat) then map_of (ps_routeZone s) pat else None)"
    "map_of (sn_hostZone ?p) host = (if allow host then map_of (ps_hostZone s) host else None)"
    by (simp_all add: scoped_def Let_def map_of_filter_fst [where P = "\<lambda>k. allow (patternHost k)"] map_of_filter_fst [where P = allow])
  have z: "Option.bind (map_of m k) (map_of (sn_zones ?p)) = Option.bind (map_of m k) (map_of (ps_zones s))"
    if "m = sn_hostZone ?p \<or> m = sn_routeZone ?p" for m k
    using that scoped_zones [of _ allow s] map_of_snd [of m k] by (cases "map_of m k") auto
  have "Option.bind (map_of (sn_routeZone ?p) pat) (map_of (sn_zones ?p)) =
      (if allow (patternHost pat) then Option.bind (map_of (ps_routeZone s) pat) (map_of (ps_zones s)) else None)"
    "Option.bind (map_of (sn_hostZone ?p) host) (map_of (sn_zones ?p)) =
      (if allow host then Option.bind (map_of (ps_hostZone s) host) (map_of (ps_zones s)) else None)"
    using z [of "sn_routeZone ?p" pat] z [of "sn_hostZone ?p" host] r by simp_all
  moreover have "list_all (\<lambda>z. list_ex (\<lambda>b. snd b = fst z \<and> allow (patternHost (fst b))) (ps_routeZone s) \<or>
      list_ex (\<lambda>b. snd b = fst z \<and> allow (fst b)) (ps_hostZone s)) (sn_zones ?p)" "list_all allow (sn_hosts ?p)"
    by (auto simp: scoped_def Let_def list_all_iff list_ex_iff)
  ultimately show ?thesis by (simp add: RateLimitStore_scoped_def Let_def)
qed


end
