(* ===== verification/Cert_Table.thy ===== *)
theory Cert_Table
  imports Host_Names
begin

section \<open>The SNI certificate table (package cert)\<close>

text \<open>
  \<^verbatim>\<open>cert/table.go\<close>: the index from SAN to certificates that \<^verbatim>\<open>Set\<close> builds and the selection that
  \<^verbatim>\<open>Get\<close> makes for a TLS handshake. The parser \<^verbatim>\<open>x509.ParseCertificate\<close> and the handshake predicate
  \<^verbatim>\<open>ClientHelloInfo.SupportsCertificate\<close> are parameters (\<open>parse\<close>, \<open>supports\<close>). A certificate with neither
  a parsed leaf nor any DER block makes \<^verbatim>\<open>cert.Certificate[0]\<close> panic: that run is \<^const>\<open>None\<close>.

  The main result: the index answers exactly what a scan over the certificate list would
  (\<open>Cert_Get_scan\<close>), first by exact SAN and then by one-label wildcard.
\<close>

record x509 =
  DNSNames :: "string list"

record certificate =
  Certificate :: "string list"
  Leaf :: "x509 option"

type_synonym cert_index = "string \<rightharpoonup> certificate list"

fun add_sans :: "cert_index \<Rightarrow> certificate \<Rightarrow> string list \<Rightarrow> cert_index" where
  "add_sans m c [] = m"
| "add_sans m c (san # sans) =
     add_sans (m(san \<mapsto> (case m san of None \<Rightarrow> [] | Some cs \<Rightarrow> cs) @ [c])) c sans"

fun build_loop :: "(string \<Rightarrow> x509 option) \<Rightarrow> certificate list \<Rightarrow> cert_index \<Rightarrow> cert_index option" where
  "build_loop parse [] m = Some m"
| "build_loop parse (cert # certs) m =
     (case Leaf cert of
        Some x \<Rightarrow> build_loop parse certs (add_sans m cert (DNSNames x))
      | None \<Rightarrow>
          (case Certificate cert of
             [] \<Rightarrow> None
           | der # _ \<Rightarrow>
               (case parse der of
                  None \<Rightarrow> build_loop parse certs m
                | Some x \<Rightarrow>
                    build_loop parse certs (add_sans m (cert\<lparr>Leaf := Some x\<rparr>) (DNSNames x)))))"

definition buildNameToCertificate :: "(string \<Rightarrow> x509 option) \<Rightarrow> certificate list \<Rightarrow> cert_index option" where
  "buildNameToCertificate parse certs = build_loop parse certs Map.empty"

fun findSupportCert :: "(certificate \<Rightarrow> bool) \<Rightarrow> certificate list \<Rightarrow> certificate option" where
  "findSupportCert supports [] = None"
| "findSupportCert supports (cert # certs) =
     (if supports cert then Some cert else findSupportCert supports certs)"

definition server_name :: "string \<Rightarrow> string" where
  "server_name sni = trim_suffix (to_lower sni) ''.''"

definition Cert_Get :: "cert_index \<Rightarrow> (certificate \<Rightarrow> bool) \<Rightarrow> string \<Rightarrow> certificate option" where
  "Cert_Get certs supports ServerName =
     (let name = server_name ServerName;
          wildcard = (case wildcard_name name of
                        None \<Rightarrow> None
                      | Some w \<Rightarrow> (case certs w of
                                     None \<Rightarrow> None
                                   | Some cs \<Rightarrow> findSupportCert supports cs))
      in case certs name of
           Some cs \<Rightarrow> (case findSupportCert supports cs of Some c \<Rightarrow> Some c | None \<Rightarrow> wildcard)
         | None \<Rightarrow> wildcard)"

text \<open>\<^verbatim>\<open>Table.Set\<close> replaces the whole index; a panic in the build leaves the table as it was.\<close>

definition Cert_Set :: "(string \<Rightarrow> x509 option) \<Rightarrow> cert_index \<Rightarrow> certificate list \<Rightarrow> cert_index option" where
  "Cert_Set parse t certs = buildNameToCertificate parse certs"

subsection \<open>Reference: a scan over the certificates\<close>

text \<open>The certificates the index keeps, with their parsed leaf, in order.\<close>

definition load_cert :: "(string \<Rightarrow> x509 option) \<Rightarrow> certificate \<Rightarrow> certificate option" where
  "load_cert parse c =
     (case Leaf c of
        Some _ \<Rightarrow> Some c
      | None \<Rightarrow>
          (case Certificate c of
             [] \<Rightarrow> None
           | der # _ \<Rightarrow> map_option (\<lambda>x. c\<lparr>Leaf := Some x\<rparr>) (parse der)))"

definition loaded :: "(string \<Rightarrow> x509 option) \<Rightarrow> certificate list \<Rightarrow> certificate list" where
  "loaded parse certs = List.map_filter (load_cert parse) certs"

definition has_san :: "string \<Rightarrow> certificate \<Rightarrow> bool" where
  "has_san s c \<longleftrightarrow> (case Leaf c of None \<Rightarrow> False | Some x \<Rightarrow> s \<in> set (DNSNames x))"

definition scan :: "(certificate \<Rightarrow> bool) \<Rightarrow> string \<Rightarrow> certificate list \<Rightarrow> certificate option" where
  "scan supports s cs = find (\<lambda>c. supports c \<and> has_san s c) cs"

subsection \<open>The index against the scan\<close>

abbreviation bucket :: "cert_index \<Rightarrow> string \<Rightarrow> certificate list" where
  "bucket m s \<equiv> (case m s of None \<Rightarrow> [] | Some cs \<Rightarrow> cs)"

lemma findSupportCert_find: "findSupportCert supports cs = find supports cs"
  by (induction cs) auto

lemma find_append: "find P (xs @ ys) = (case find P xs of None \<Rightarrow> find P ys | Some x \<Rightarrow> Some x)"
  by (induction xs) auto

lemma find_replicate: "find P (replicate n x) = (if n \<noteq> 0 \<and> P x then Some x else None)"
  by (induction n) auto

lemma bucket_add_sans:
  "bucket (add_sans m c sans) s = bucket m s @ replicate (count_list sans s) c"
  by (induction sans arbitrary: m) (auto simp: replicate_append_same)

lemma find_bucket_add_sans:
  "find P (bucket (add_sans m c sans) s) =
     (case find P (bucket m s) of Some x \<Rightarrow> Some x | None \<Rightarrow> if s \<in> set sans \<and> P c then Some c else None)"
  by (auto simp: bucket_add_sans find_append find_replicate count_list_0_iff split: option.splits)

lemma find_bucket_build_loop:
  "build_loop parse certs m = Some m' \<Longrightarrow>
   find P (bucket m' s) =
     (case find P (bucket m s) of Some x \<Rightarrow> Some x
      | None \<Rightarrow> find (\<lambda>c. P c \<and> has_san s c) (loaded parse certs))"
proof (induction certs arbitrary: m)
  case Nil
  then show ?case by (simp add: loaded_def map_filter_simps split: option.splits)
next
  case (Cons cert certs)
  let ?l = "\<lambda>cs. find (\<lambda>c. P c \<and> has_san s c) (loaded parse cs)"
  have step: "find P (bucket m' s) =
      (case find P (bucket (add_sans m c (DNSNames x)) s) of Some y \<Rightarrow> Some y | None \<Rightarrow> ?l certs)"
    if "build_loop parse certs (add_sans m c (DNSNames x)) = Some m'" for c x
    using Cons.IH [OF that] .
  show ?case
  proof (cases "load_cert parse cert")
    case None
    then have "build_loop parse certs m = Some m'" and "loaded parse (cert # certs) = loaded parse certs"
      using Cons.prems by (auto simp: load_cert_def loaded_def map_filter_simps split: option.splits list.splits)
    then show ?thesis using Cons.IH by (simp cong: option.case_cong)
  next
    case (Some c)
    then obtain x where b: "build_loop parse certs (add_sans m c (DNSNames x)) = Some m'" and x: "Leaf c = Some x"
      using Cons.prems by (auto simp: load_cert_def split: option.splits list.splits)
    from Some have "loaded parse (cert # certs) = c # loaded parse certs"
      by (simp add: loaded_def map_filter_simps)
    then show ?thesis
      using step [OF b] x by (simp add: find_bucket_add_sans has_san_def split: option.splits)
  qed
qed

lemma lookup_scan:
  assumes "buildNameToCertificate parse certs = Some m"
  shows "(case m s of None \<Rightarrow> None | Some cs \<Rightarrow> findSupportCert supports cs) = scan supports s (loaded parse certs)"
proof -
  have "(case m s of None \<Rightarrow> None | Some cs \<Rightarrow> findSupportCert supports cs) = find supports (bucket m s)"
    by (simp add: findSupportCert_find split: option.split)
  then show ?thesis
    using find_bucket_build_loop [of parse certs Map.empty m supports s] assms
    by (simp add: scan_def buildNameToCertificate_def)
qed

lemma build_total:
  "(\<forall>c \<in> set certs. Leaf c \<noteq> None \<or> Certificate c \<noteq> []) \<Longrightarrow> build_loop parse certs m \<noteq> None"
  by (induction certs arbitrary: m) (auto split: option.splits list.splits)

subsection \<open>Properties\<close>

text \<open>C20. The certificate served for an SNI name is the one a scan over the installed certificates
  finds: the first certificate the client supports that carries the (lower-cased, dot-trimmed) name
  as a SAN, otherwise the first supported one that carries the name with its first label replaced by
  a star, otherwise none. The precondition (every certificate has a leaf or a DER block) rules out
  the index panic.\<close>

theorem Cert_Get_scan:
  assumes "\<forall>c \<in> set certs. Leaf c \<noteq> None \<or> Certificate c \<noteq> []"
  shows "\<exists>m. Cert_Set parse t certs = Some m \<and>
    Cert_Get m supports sni =
      (case scan supports (server_name sni) (loaded parse certs) of
         Some c \<Rightarrow> Some c
       | None \<Rightarrow>
           (case wildcard_name (server_name sni) of
              None \<Rightarrow> None
            | Some w \<Rightarrow> scan supports w (loaded parse certs)))"
proof -
  obtain m where m: "buildNameToCertificate parse certs = Some m"
    using build_total [OF assms, of parse Map.empty] by (auto simp: buildNameToCertificate_def)
  have ex: "(case m s of None \<Rightarrow> None | Some cs \<Rightarrow> findSupportCert supports cs) = scan supports s (loaded parse certs)"
    for s by (rule lookup_scan [OF m])
  have "Cert_Get m supports sni =
      (case (case m (server_name sni) of None \<Rightarrow> None | Some cs \<Rightarrow> findSupportCert supports cs) of
         Some c \<Rightarrow> Some c
       | None \<Rightarrow> (case wildcard_name (server_name sni) of None \<Rightarrow> None
                 | Some w \<Rightarrow> (case m w of None \<Rightarrow> None | Some cs \<Rightarrow> findSupportCert supports cs)))"
    by (simp add: Cert_Get_def Let_def split: option.split)
  with m show ?thesis by (simp add: ex Cert_Set_def cong: option.case_cong)
qed

definition demo_cert :: "string list \<Rightarrow> certificate" where
  "demo_cert sans = \<lparr>Certificate = [''der''], Leaf = Some \<lparr>DNSNames = sans\<rparr>\<rparr>"

theorem Cert_Get_scan_witness:
  "\<exists>m. Cert_Set (\<lambda>_. None) Map.empty [demo_cert [''*.a.io''], demo_cert [''w.a.io'']] = Some m \<and>
     Cert_Get m (\<lambda>_. True) ''W.a.io.'' = Some (demo_cert [''w.a.io''])"
proof -
  let ?cs = "[demo_cert [''*.a.io''], demo_cert [''w.a.io'']]"
  have h: "\<forall>c \<in> set ?cs. Leaf c \<noteq> None \<or> Certificate c \<noteq> []" by (simp add: demo_cert_def)
  have "scan (\<lambda>_. True) (server_name ''W.a.io.'') (loaded (\<lambda>_. None) ?cs) = Some (demo_cert [''w.a.io''])"
    by code_simp
  then show ?thesis
    using Cert_Get_scan [OF h, of "\<lambda>_. None" Map.empty "\<lambda>_. True" "''W.a.io.''"] by simp
qed

text \<open>A served certificate is valid for the requested name: it is supported by the client, it is one
  of the installed certificates, and one of its SANs covers the requested name in the sense of TLS
  wildcards (at most the leftmost label is starred).\<close>

theorem Cert_Get_covers:
  assumes "Cert_Set parse t certs = Some m" and "Cert_Get m supports sni = Some c"
  shows "c \<in> set (loaded parse certs) \<and> supports c \<and>
    (\<exists>x. Leaf c = Some x \<and> (\<exists>san \<in> set (DNSNames x). covers san (server_name sni)))"
proof -
  let ?n = "server_name sni"
  from assms(1) have ex: "(case m s of None \<Rightarrow> None | Some cs \<Rightarrow> findSupportCert supports cs) =
      scan supports s (loaded parse certs)" for s
    by (intro lookup_scan) (simp add: Cert_Set_def)
  from assms(2) consider
      "(case m ?n of None \<Rightarrow> None | Some cs \<Rightarrow> findSupportCert supports cs) = Some c"
    | w where "wildcard_name ?n = Some w"
        "(case m w of None \<Rightarrow> None | Some cs \<Rightarrow> findSupportCert supports cs) = Some c"
    by (auto simp: Cert_Get_def Let_def split: option.splits)
  then obtain s where s: "scan supports s (loaded parse certs) = Some c" and cov: "covers s ?n"
    by cases (auto simp: ex covers_iff)
  then have "c \<in> set (loaded parse certs)" "supports c" "has_san s c"
    by (auto simp: scan_def find_Some_iff)
  with cov show ?thesis by (auto simp: has_san_def split: option.splits)
qed

theorem Cert_Get_covers_witness:
  "demo_cert [''*.a.io''] \<in> set (loaded (\<lambda>_. None) [demo_cert [''*.a.io'']]) \<and>
   (\<exists>x. Leaf (demo_cert [''*.a.io'']) = Some x \<and> (\<exists>san \<in> set (DNSNames x). covers san (server_name ''w.a.io'')))"
proof -
  have s: "Cert_Set (\<lambda>_. None) Map.empty [demo_cert [''*.a.io'']] =
      Some [''*.a.io'' \<mapsto> [demo_cert [''*.a.io'']]]"
    by (simp add: Cert_Set_def buildNameToCertificate_def demo_cert_def)
  have g: "Cert_Get [''*.a.io'' \<mapsto> [demo_cert [''*.a.io'']]] (\<lambda>_. True) ''w.a.io'' = Some (demo_cert [''*.a.io''])"
    by code_simp
  from Cert_Get_covers [OF s g] show ?thesis by blast
qed

end
