(* ===== verification/Ingress_Routes.thy ===== *)
theory Ingress_Routes
  imports Endpoint_Routes Policy_Store Cert_Table "HOL-Library.AList"
begin

section \<open>From Ingresses to routes and zone bindings\<close>

text \<open>
  The controller builds its route map from the watched Ingresses (\<open>reloadIngressDebounced\<close> in
  \<^verbatim>\<open>controller.go\<close>) and loads the certificates they name; the control plane derives from the same
  Ingresses the zone bindings it hands to edges (\<^verbatim>\<open>edgecp/ingressreload.go\<close>). The theory models both
  sides and compares them.

  The map of routes goes to \<^verbatim>\<open>http.ServeMux\<close>, which is not modelled; \<open>plug\<close> stands for the
  configured plugins, which may add routes of their own. An Ingress list is one order of iteration.
\<close>

subsection \<open>Ingress objects\<close>

datatype path_type = PathTypePrefix | PathTypeExact | PathTypeImplementationSpecific | OtherPathType

record service_backend =
  sb_name :: string
  sb_portName :: string
  sb_portNumber :: int

record http_path =
  hp_path :: string
  hp_pathType :: "path_type option"
  hp_service :: "service_backend option"

record ingress_rule =
  ir_host :: string
  ir_http :: "http_path list option"

record Ingress =
  ing_namespace :: string
  ing_name :: string
  ing_className :: "string option"
  ing_annotations :: "string \<rightharpoonup> string"
  ing_rules :: "ingress_rule list"
  ing_tls :: "string list"

definition annotation :: "Ingress \<Rightarrow> string \<Rightarrow> string" where
  "annotation ing k = (case ing_annotations ing k of None \<Rightarrow> [] | Some v \<Rightarrow> v)"

definition getIngressClass :: "Ingress \<Rightarrow> string" where
  "getIngressClass ing =
     (case ing_className ing of Some c \<Rightarrow> c | None \<Rightarrow> annotation ing ''kubernetes.io/ingress.class'')"

record backendConfig =
  Protocol :: string
  PortName :: string
  PortNumber :: int

definition no_config :: backendConfig where
  "no_config = \<lparr>Protocol = [], PortName = [], PortNumber = 0\<rparr>"

definition with_protocol :: "ServicePort \<Rightarrow> backendConfig \<Rightarrow> backendConfig" where
  "with_protocol p c = (case svp_appProtocol p of None \<Rightarrow> c | Some a \<Rightarrow> c\<lparr>Protocol := a\<rparr>)"

definition getBackendConfig :: "service_backend \<Rightarrow> Service \<Rightarrow> backendConfig option" where
  "getBackendConfig backend svc =
     (if sb_portName backend \<noteq> [] then
        (let c = foldl (\<lambda>c p. if svp_name p = sb_portName backend then with_protocol p (c\<lparr>PortNumber := svp_port p\<rparr>) else c)
               (no_config\<lparr>PortName := sb_portName backend\<rparr>) (svc_ports svc)
         in if PortNumber c = 0 then None else Some c)
      else
        (let (c, found) = foldl (\<lambda>(c, found) p.
               if svp_port p = sb_portNumber backend then (with_protocol p (c\<lparr>PortName := svp_name p\<rparr>), True) else (c, found))
               (no_config\<lparr>PortNumber := sb_portNumber backend\<rparr>, False) (svc_ports svc)
         in if found then Some c else None))"

subsection \<open>The controller's route map\<close>

definition normal_path :: "string \<Rightarrow> string" where
  "normal_path path = (let path = (if path = [] then ''/'' else path) in if has_prefix path ''/'' then path else ''/'' @ path)"

text \<open>The keys that the switch on the path type writes for one path.\<close>

definition registered_keys :: "string \<Rightarrow> http_path \<Rightarrow> string list" where
  "registered_keys host hp =
     (let path = normal_path (hp_path hp);
          src = host @ trim_suffix path ''/''
      in case (case hp_pathType hp of None \<Rightarrow> PathTypeImplementationSpecific | Some t \<Rightarrow> t) of
           PathTypePrefix \<Rightarrow> (if path \<noteq> ''/'' then [src] else []) @ [src @ ''/'']
         | PathTypeExact \<Rightarrow> [if path = ''/'' then host @ path else src]
         | PathTypeImplementationSpecific \<Rightarrow> [host @ path]
         | OtherPathType \<Rightarrow> [])"

datatype handler = ServiceHandler Ingress Service backendConfig string | RedirectHandler Ingress string int

type_synonym routes = "handler gomap"

definition path_handler :: "(string \<rightharpoonup> Service) \<Rightarrow> Ingress \<Rightarrow> http_path \<Rightarrow> handler option" where
  "path_handler services ing hp =
     (case hp_service hp of
        None \<Rightarrow> None
      | Some backend \<Rightarrow>
          (case services (object_key (ing_namespace ing) (sb_name backend)) of
             None \<Rightarrow> None
           | Some svc \<Rightarrow>
               (case getBackendConfig backend svc of
                  None \<Rightarrow> None
                | Some config \<Rightarrow>
                    if PortNumber config \<le> 0 then None
                    else Some (ServiceHandler ing svc config
                      (buildHostPort (ing_namespace ing) (sb_name backend) (PortNumber config))))))"

definition register_path :: "(string \<rightharpoonup> Service) \<Rightarrow> Ingress \<Rightarrow> string \<Rightarrow> routes \<Rightarrow> http_path \<Rightarrow> routes" where
  "register_path services ing host routes hp =
     (case path_handler services ing hp of
        None \<Rightarrow> routes
      | Some h \<Rightarrow> foldl (\<lambda>m k. AList.update k h m) routes (registered_keys host hp))"

definition register_rule :: "(string \<rightharpoonup> Service) \<Rightarrow> Ingress \<Rightarrow> routes \<Rightarrow> ingress_rule \<Rightarrow> routes" where
  "register_rule services ing routes rule =
     (case ir_http rule of
        None \<Rightarrow> routes
      | Some paths \<Rightarrow> foldl (register_path services ing (to_lower (ir_host rule))) routes paths)"

definition register_ingress ::
  "string \<Rightarrow> (Ingress \<Rightarrow> routes \<Rightarrow> routes) \<Rightarrow> (string \<rightharpoonup> Service) \<Rightarrow> routes \<Rightarrow> Ingress \<Rightarrow> routes" where
  "register_ingress cls plug services routes ing =
     (if getIngressClass ing \<noteq> cls then routes
      else foldl (register_rule services ing) (plug ing routes) (ing_rules ing))"

text \<open>The plugin \<open>RedirectRules\<close>, the only one that registers routes; \<open>yaml\<close> decodes the annotation into
  a string map, here in one order of iteration.\<close>

definition redirect_target :: "string \<Rightarrow> string \<times> int" where
  "redirect_target targetURL =
     (case index_byte (CHR '','') targetURL of
        None \<Rightarrow> (targetURL, 302)
      | Some i \<Rightarrow>
          let st = atoi (take i targetURL) in
          if st > 0 then (drop (Suc i) targetURL, st) else (targetURL, 302))"

definition RedirectRules :: "(string \<Rightarrow> string gomap option) \<Rightarrow> Ingress \<Rightarrow> routes \<Rightarrow> routes" where
  "RedirectRules yaml ing routes =
     (let a = annotation ing ''parapet.moonrhythm.io/redirect'' in
      if a = [] then routes
      else case yaml a of
        None \<Rightarrow> routes
      | Some obj \<Rightarrow>
          foldl (\<lambda>m (srcHost, targetURL).
              if srcHost = [] \<or> targetURL = [] \<or> has_prefix srcHost ''/'' then m
              else
                let srcHost = (if has_suffix srcHost ''/'' then srcHost else srcHost @ ''/'');
                    (target, status) = redirect_target targetURL
                in AList.update srcHost (RedirectHandler ing target status) m)
            routes obj)"

definition buildKnownHosts :: "routes \<Rightarrow> string set" where
  "buildKnownHosts routes =
     set (List.map_filter (\<lambda>(r, h). case index_byte (CHR ''/'') r of
        Some i \<Rightarrow> if i > 0 then Some (take i r) else None
      | None \<Rightarrow> None) routes)"

record routeState =
  rs_routes :: routes
  rs_knownHosts :: "string set"

definition IsKnownHost :: "routeState \<Rightarrow> string \<Rightarrow> bool" where
  "IsKnownHost st host \<longleftrightarrow> host \<in> rs_knownHosts st"

definition build_route_map ::
  "string \<Rightarrow> (Ingress \<Rightarrow> routes \<Rightarrow> routes) \<Rightarrow> (string \<rightharpoonup> Service) \<Rightarrow> Ingress list \<Rightarrow> routes" where
  "build_route_map cls plug services ings = foldl (register_ingress cls plug services) [] ings"

definition reloadIngressDebounced ::
  "string \<Rightarrow> (Ingress \<Rightarrow> routes \<Rightarrow> routes) \<Rightarrow> (string \<rightharpoonup> Service) \<Rightarrow> Ingress list \<Rightarrow> routeState" where
  "reloadIngressDebounced cls plug services ings =
     (let routes = build_route_map cls plug services ings
      in \<lparr>rs_routes = routes, rs_knownHosts = buildKnownHosts routes\<rparr>)"

subsection \<open>Serving a route\<close>

record backend_request =
  br_scheme :: string
  br_host :: string
  br_upstreamKey :: "string option"

text \<open>\<open>makeHandler\<close>: the request is answered 503 (\<^const>\<open>None\<close>) when the table has no address, and is otherwise
  proxied to the looked-up address with the backend's protocol.\<close>

definition makeHandler ::
  "bool \<Rightarrow> Service \<Rightarrow> backendConfig \<Rightarrow> string \<Rightarrow> time \<Rightarrow> string \<Rightarrow> Table \<Rightarrow> backend_request option \<times> Table" where
  "makeHandler autoH2C svc config target now scheme t =
     (let (addr, t') = Lookup t now target;
          upstreamKey = (if autoH2C then Some (svc_namespace svc @ ''/'' @ svc_name svc @ '':'' @ itoa (PortNumber config)) else None)
      in if addr = [] then (None, t')
         else (Some \<lparr>br_scheme = (if Protocol config \<noteq> [] then Protocol config else scheme), br_host = addr,
                 br_upstreamKey = upstreamKey\<rparr>, t'))"

subsection \<open>Certificates\<close>

record Secret =
  sec_namespace :: string
  sec_name :: string
  sec_type :: string
  sec_crt :: string
  sec_key :: string

definition secretTypeTLS :: string where
  "secretTypeTLS = ''kubernetes.io/tls''"

text \<open>\<open>reloadSecretDebounced\<close>: \<open>pair\<close> is \<^verbatim>\<open>tls.X509KeyPair\<close>, \<open>refs\<close> one order of the referenced secret keys.\<close>

definition tls_refs :: "Ingress list \<Rightarrow> string set" where
  "tls_refs ings = (\<Union>ing \<in> set ings. (\<lambda>t. object_key (ing_namespace ing) t) ` set (ing_tls ing))"

definition load_all_certs :: "(string \<Rightarrow> string \<Rightarrow> 'c option) \<Rightarrow> Secret list \<Rightarrow> 'c list" where
  "load_all_certs pair secrets =
     List.map_filter (\<lambda>s. if sec_type s \<noteq> secretTypeTLS then None else pair (sec_crt s) (sec_key s)) secrets"

definition load_ref_certs :: "(string \<Rightarrow> string \<Rightarrow> 'c option) \<Rightarrow> (string \<rightharpoonup> Secret) \<Rightarrow> string list \<Rightarrow> 'c list" where
  "load_ref_certs pair secrets refs =
     List.map_filter (\<lambda>k. case secrets k of None \<Rightarrow> None | Some s \<Rightarrow> pair (sec_crt s) (sec_key s)) refs"

definition reloadSecretDebounced ::
  "bool \<Rightarrow> (string \<Rightarrow> string \<Rightarrow> 'c option) \<Rightarrow> (string \<times> Secret) list \<Rightarrow> string list \<Rightarrow> 'c list" where
  "reloadSecretDebounced loadAllCerts pair secrets refs =
     (if loadAllCerts then load_all_certs pair (map snd secrets) else load_ref_certs pair (map_of secrets) refs)"

subsection \<open>The control plane's bindings\<close>

definition zoneKeyOf :: "string \<Rightarrow> string \<Rightarrow> string option" where
  "zoneKeyOf ingressNamespace ann =
     (let v = trim_space ann in
      if v = [] then None
      else case index_byte (CHR ''/'') v of
        Some i \<Rightarrow>
          let ns = trim_space (take i v); name = trim_space (drop (Suc i) v) in
          if ns = [] \<or> name = [] \<or> CHR ''/'' \<in> set name then None else Some (ns @ ''/'' @ name)
      | None \<Rightarrow> Some (ingressNamespace @ ''/'' @ v))"

definition routePatterns :: "string \<Rightarrow> http_path \<Rightarrow> string list" where
  "routePatterns host hp =
     (let path = (if hp_path hp = [] then ''/'' else hp_path hp);
          path = (if has_prefix path ''/'' then path else ''/'' @ path);
          pathType = (case hp_pathType hp of None \<Rightarrow> PathTypeImplementationSpecific | Some t \<Rightarrow> t);
          src = host @ trim_suffix path ''/''
      in case pathType of
           PathTypePrefix \<Rightarrow> (if path \<noteq> ''/'' then [src] else []) @ [src @ ''/'']
         | PathTypeExact \<Rightarrow> [if path = ''/'' then host @ path else src]
         | _ \<Rightarrow> [host @ path])"

definition rule_host :: "ingress_rule \<Rightarrow> string" where
  "rule_host rule = to_lower (trim_space (ir_host rule))"

definition rule_patterns :: "ingress_rule \<Rightarrow> string list" where
  "rule_patterns rule =
     (if rule_host rule = [] then []
      else case ir_http rule of None \<Rightarrow> [] | Some paths \<Rightarrow> concat (map (routePatterns (rule_host rule)) paths))"

definition bound_zone :: "string \<Rightarrow> bool \<Rightarrow> Ingress \<Rightarrow> string option" where
  "bound_zone ann sameNamespaceOnly ing =
     (case zoneKeyOf (ing_namespace ing) (annotation ing ann) of
        None \<Rightarrow> None
      | Some key \<Rightarrow> if sameNamespaceOnly \<and> \<not> has_prefix key (ing_namespace ing @ ''/'') then None else Some key)"

definition buildZoneRoutes :: "Ingress list \<Rightarrow> string \<Rightarrow> bool \<Rightarrow> string gomap" where
  "buildZoneRoutes ings ann sameNamespaceOnly =
     foldl (\<lambda>rz ing. case bound_zone ann sameNamespaceOnly ing of
         None \<Rightarrow> rz
       | Some key \<Rightarrow> foldl (\<lambda>rz pattern. AList.update pattern key rz) rz (concat (map rule_patterns (ing_rules ing))))
       [] ings"

definition host_bindings :: "(Ingress \<Rightarrow> string option) \<Rightarrow> Ingress list \<Rightarrow> string gomap" where
  "host_bindings zone ings =
     foldl (\<lambda>hz ing. case zone ing of
         None \<Rightarrow> hz
       | Some key \<Rightarrow> foldl (\<lambda>hz rule. if rule_host rule = [] then hz else AList.update (rule_host rule) key hz) hz (ing_rules ing))
       [] ings"

definition wafZoneAnnotation :: string where "wafZoneAnnotation = ''parapet.moonrhythm.io/waf-zone''"
definition corazaZoneAnnotation :: string where "corazaZoneAnnotation = ''parapet.moonrhythm.io/coraza-zone''"
definition rateLimitZoneAnnotation :: string where "rateLimitZoneAnnotation = ''parapet.moonrhythm.io/ratelimit-zone''"
definition cacheZoneAnnotation :: string where "cacheZoneAnnotation = ''parapet.moonrhythm.io/cache-zone''"

definition buildHostZone :: "Ingress list \<Rightarrow> string gomap" where
  "buildHostZone = host_bindings (bound_zone wafZoneAnnotation False)"

definition buildRateLimitHostZone :: "Ingress list \<Rightarrow> string gomap" where
  "buildRateLimitHostZone = host_bindings (bound_zone rateLimitZoneAnnotation True)"

definition collectIngressHosts :: "Ingress list \<Rightarrow> string list" where
  "collectIngressHosts ings =
     sort (remdups (filter (\<lambda>h. h \<noteq> []) (concat (map (\<lambda>ing. map rule_host (ing_rules ing)) ings))))"

text \<open>\<open>IngressReloader.reload\<close>: every store that is wired is refreshed; a failed list changes nothing.\<close>

record cp_stores =
  cps_waf :: "string policy_store option"
  cps_coraza :: "string policy_store option"
  cps_rl :: "string list policy_store option"
  cps_cache :: "string list policy_store option"
  cps_hosts :: "HostsStore option"

definition ingress_reload :: "(string \<Rightarrow> string) \<Rightarrow> Ingress list option \<Rightarrow> cp_stores \<Rightarrow> bool \<times> cp_stores" where
  "ingress_reload sha listed st =
     (case listed of
        None \<Rightarrow> (False, st)
      | Some ings \<Rightarrow>
          (True,
           \<lparr>cps_waf = map_option (WafStore_SetIngressDerived sha (buildHostZone ings) (buildZoneRoutes ings wafZoneAnnotation False)) (cps_waf st),
            cps_coraza = map_option (CorazaStore_SetIngressDerived sha (buildZoneRoutes ings corazaZoneAnnotation False)) (cps_coraza st),
            cps_rl = map_option (RateLimitStore_SetIngressDerived sha (buildRateLimitHostZone ings)
              (buildZoneRoutes ings rateLimitZoneAnnotation True) (collectIngressHosts ings)) (cps_rl st),
            cps_cache = map_option (CacheStore_SetIngressDerived sha (buildZoneRoutes ings cacheZoneAnnotation False)) (cps_cache st),
            cps_hosts = map_option (SetHosts sha (collectIngressHosts ings)) (cps_hosts st)\<rparr>))"

subsection \<open>The controller's zone plugins\<close>

definition ZoneKey :: "string \<Rightarrow> string \<Rightarrow> string option" where
  "ZoneKey ingressNamespace ann =
     (let v = trim_space ann in
      if v = [] then None
      else case index_byte (CHR ''/'') v of
        Some i \<Rightarrow>
          let ns = trim_space (take i v); name = trim_space (drop (Suc i) v) in
          if ns = [] \<or> name = [] \<or> CHR ''/'' \<in> set name then None else Some (ns @ ''/'' @ name)
      | None \<Rightarrow> Some (ingressNamespace @ ''/'' @ v))"

text \<open>The zone a plugin puts in front of an Ingress's handlers; the instance is looked up per request.\<close>

definition WAFZone :: "(string \<rightharpoonup> 'w) \<Rightarrow> bool \<Rightarrow> Ingress \<Rightarrow> 'w option" where
  "WAFZone lookup skip ing =
     (case ZoneKey (ing_namespace ing) (annotation ing wafZoneAnnotation) of
        None \<Rightarrow> None
      | Some key \<Rightarrow> if skip then None else lookup key)"

definition RateLimitZone :: "(string \<rightharpoonup> 'l) \<Rightarrow> Ingress \<Rightarrow> 'l option" where
  "RateLimitZone lookup ing =
     (case ZoneKey (ing_namespace ing) (annotation ing rateLimitZoneAnnotation) of
        None \<Rightarrow> None
      | Some key \<Rightarrow> if has_prefix key (ing_namespace ing @ ''/'') then lookup key else None)"

subsection \<open>Where routes come from\<close>

lemma foldl_keeps:
  assumes "P a" and "\<And>x acc. x \<in> set xs \<Longrightarrow> P acc \<Longrightarrow> P (f acc x)"
  shows "P (foldl f a xs)"
  using assms by (induction xs arbitrary: a) auto

text \<open>\<open>declares\<close>: an Ingress has a rule and path whose registered keys contain the pattern and whose
  backend resolves to the handler.\<close>

definition declares :: "(string \<rightharpoonup> Service) \<Rightarrow> Ingress \<Rightarrow> string \<Rightarrow> handler \<Rightarrow> bool" where
  "declares services ing pat h \<longleftrightarrow>
     (\<exists>rule \<in> set (ing_rules ing). \<exists>paths. ir_http rule = Some paths \<and>
        (\<exists>hp \<in> set paths. pat \<in> set (registered_keys (to_lower (ir_host rule)) hp) \<and> path_handler services ing hp = Some h))"

definition traced :: "string \<Rightarrow> (string \<rightharpoonup> Service) \<Rightarrow> Ingress list \<Rightarrow> routes \<Rightarrow> bool" where
  "traced cls services ings m \<longleftrightarrow>
     (\<forall>k ing svc c t. map_of m k = Some (ServiceHandler ing svc c t) \<longrightarrow>
        ing \<in> set ings \<and> getIngressClass ing = cls \<and> declares services ing k (ServiceHandler ing svc c t))"

lemma path_handler_ingress:
  "path_handler services ing hp = Some h \<Longrightarrow> \<exists>svc c t. h = ServiceHandler ing svc c t"
  by (auto simp: path_handler_def split: option.splits if_splits)

lemma traced_update:
  assumes "traced cls services ings m"
    and "\<And>ing svc c t. h = ServiceHandler ing svc c t \<Longrightarrow>
      ing \<in> set ings \<and> getIngressClass ing = cls \<and> declares services ing k h"
  shows "traced cls services ings (AList.update k h m)"
  using assms by (auto simp: traced_def update_conv')

lemma traced_RedirectRules:
  assumes "traced cls services ings m"
  shows "traced cls services ings (RedirectRules yaml ing m)"
  using assms unfolding RedirectRules_def
  by (auto simp: Let_def split: option.splits prod.splits intro!: foldl_keeps [where P = "traced cls services ings"] traced_update)

lemma traced_register:
  assumes "traced cls services ings m" and "ing \<in> set ings" and "getIngressClass ing = cls"
  shows "traced cls services ings (foldl (register_rule services ing) m (ing_rules ing))"
proof (rule foldl_keeps [where P = "traced cls services ings"], rule assms(1))
  fix rule acc assume r: "rule \<in> set (ing_rules ing)" and a: "traced cls services ings acc"
  show "traced cls services ings (register_rule services ing acc rule)"
  proof (cases "ir_http rule")
    case None
    then show ?thesis using a by (simp add: register_rule_def)
  next
    case (Some paths)
    have "traced cls services ings (foldl (register_path services ing (to_lower (ir_host rule))) acc paths)"
    proof (rule foldl_keeps [where P = "traced cls services ings"], rule a)
      fix hp acc assume h: "hp \<in> set paths" and a: "traced cls services ings acc"
      show "traced cls services ings (register_path services ing (to_lower (ir_host rule)) acc hp)"
      proof (cases "path_handler services ing hp")
        case None
        then show ?thesis using a by (simp add: register_path_def)
      next
        case (Some hd)
        then obtain svc c t where hd: "hd = ServiceHandler ing svc c t" using path_handler_ingress by blast
        have "declares services ing k hd" if "k \<in> set (registered_keys (to_lower (ir_host rule)) hp)" for k
          using that r h Some \<open>ir_http rule = Some paths\<close> by (auto simp: declares_def)
        then have "traced cls services ings (foldl (\<lambda>m k. AList.update k hd m) acc (registered_keys (to_lower (ir_host rule)) hp))"
          by (intro foldl_keeps [where P = "traced cls services ings", OF a] traced_update) (use assms(2,3) hd in auto)
        then show ?thesis using Some by (simp add: register_path_def)
      qed
    qed
    then show ?thesis using Some by (simp add: register_rule_def)
  qed
qed

lemma routes_traced: "traced cls services ings (build_route_map cls (RedirectRules yaml) services ings)"
  unfolding build_route_map_def
  by (rule foldl_keeps [where P = "traced cls services ings"])
    (auto simp: register_ingress_def traced_RedirectRules traced_register, simp add: traced_def)

subsection \<open>Zone bindings of the control plane\<close>

definition ingress_patterns :: "Ingress \<Rightarrow> string list" where
  "ingress_patterns ing = concat (map rule_patterns (ing_rules ing))"

lemma foldl_update_const:
  "map_of (foldl (\<lambda>rz k. AList.update k v rz) rz ks) pat = (if pat \<in> set ks then Some v else map_of rz pat)"
  by (induction ks arbitrary: rz) (auto simp: update_conv')

lemma buildZoneRoutes_snoc:
  "map_of (buildZoneRoutes (ings @ [ing]) ann sn) pat =
    (if pat \<in> set (ingress_patterns ing) \<and> bound_zone ann sn ing \<noteq> None then bound_zone ann sn ing
     else map_of (buildZoneRoutes ings ann sn) pat)"
  by (auto simp: buildZoneRoutes_def ingress_patterns_def foldl_update_const split: option.splits)

lemma buildZoneRoutes_unique:
  assumes "\<And>ing'. ing' \<in> set ings \<Longrightarrow> ing' \<noteq> ing \<Longrightarrow> pat \<notin> set (ingress_patterns ing')"
  shows "map_of (buildZoneRoutes ings ann sn) pat =
    (if ing \<in> set ings \<and> pat \<in> set (ingress_patterns ing) then bound_zone ann sn ing else None)"
  using assms
proof (induction ings rule: rev_induct)
  case Nil
  show ?case by (simp add: buildZoneRoutes_def)
next
  case (snoc x xs)
  then show ?case by (cases "x = ing") (auto simp: buildZoneRoutes_snoc)
qed

lemma normal_path_slash: "\<exists>r. normal_path path = CHR ''/'' # r"
  by (cases path) (auto simp: normal_path_def Let_def has_prefix_def split: if_splits)

lemma trim_root:
  assumes "CHR ''/'' # r \<noteq> ''/''"
  shows "\<exists>q. trim_suffix (CHR ''/'' # r) ''/'' = CHR ''/'' # q"
  using assms by (cases r rule: rev_cases) (auto simp: trim_suffix_def has_suffix_def)

lemma registered_hostless:
  assumes "pat \<in> set (registered_keys [] hp)"
  shows "has_prefix pat ''/''"
proof -
  obtain r where r: "normal_path (hp_path hp) = CHR ''/'' # r" using normal_path_slash by blast
  have "trim_suffix ''/'' ''/'' = []" by (simp add: trim_suffix_def has_suffix_def)
  then show ?thesis using assms r trim_root [of r]
    by (cases "r = []") (auto simp: registered_keys_def Let_def has_prefix_def split: option.splits path_type.splits if_splits)
qed

lemma registered_patterns: "set (registered_keys host hp) \<subseteq> set (routePatterns host hp)"
  by (auto simp: registered_keys_def routePatterns_def normal_path_def Let_def split: option.splits path_type.splits)

lemma declares_pattern:
  assumes "declares services ing pat h" and "\<not> has_prefix pat ''/''"
    and "list_all (\<lambda>rule. trim_space (ir_host rule) = ir_host rule) (ing_rules ing)"
  shows "pat \<in> set (ingress_patterns ing)"
proof -
  obtain rule paths hp where d: "rule \<in> set (ing_rules ing)" "ir_http rule = Some paths" "hp \<in> set paths"
    "pat \<in> set (registered_keys (to_lower (ir_host rule)) hp)" using assms(1) by (auto simp: declares_def)
  have "to_lower (ir_host rule) \<noteq> []" using registered_hostless [of pat hp] d(4) assms(2) by metis
  moreover have "rule_host rule = to_lower (ir_host rule)" using assms(3) d(1) by (simp add: rule_host_def list_all_iff)
  ultimately have "pat \<in> set (routePatterns (rule_host rule) hp)" "rule_host rule \<noteq> []" using d(4) registered_patterns by auto
  then have "pat \<in> set (rule_patterns rule)" using d(2,3) by (auto simp: rule_patterns_def)
  then show ?thesis using d(1) by (auto simp: ingress_patterns_def)
qed

lemma ZoneKey_eq: "ZoneKey ns a = zoneKeyOf ns a"
  by (simp add: ZoneKey_def zoneKeyOf_def)



definition demo_ingress :: "string \<Rightarrow> string \<Rightarrow> string \<Rightarrow> Ingress" where
  "demo_ingress nm cls zone =
     \<lparr>ing_namespace = ''d'', ing_name = nm, ing_className = Some cls, ing_annotations = [wafZoneAnnotation \<mapsto> zone],
      ing_rules = [\<lparr>ir_host = ''a.com'', ir_http = Some [\<lparr>hp_path = ''/api'', hp_pathType = Some PathTypePrefix,
        hp_service = Some \<lparr>sb_name = ''web'', sb_portName = [], sb_portNumber = 80\<rparr>\<rparr>]\<rparr>],
      ing_tls = []\<rparr>"

definition demo_route_map :: "Ingress list \<Rightarrow> routes" where
  "demo_route_map ings =
     rs_routes (reloadIngressDebounced ''parapet'' (RedirectRules (\<lambda>_. None)) [''d/web'' \<mapsto> demo_service] ings)"


text \<open>The control plane does not look at the ingress class: an Ingress of another class, which the
  controller ignores, replaces the zone of a pattern that the controller serves.\<close>
theorem foreign_class_rebinds_zone:
  "(case map_of (demo_route_map [demo_ingress ''i'' ''parapet'' ''z'', demo_ingress ''other'' ''nginx'' ''w'']) ''a.com/api/'' of
      Some (ServiceHandler ing svc c t) \<Rightarrow> ing_name ing = ''i'' \<and> WAFZone Some False ing = Some ''d/z''
    | _ \<Rightarrow> False) \<and>
    map_of (buildZoneRoutes [demo_ingress ''i'' ''parapet'' ''z'', demo_ingress ''other'' ''nginx'' ''w''] wafZoneAnnotation False)
      ''a.com/api/'' = Some ''d/w''"
  by code_simp


end
