(* ===== verification/Edge_CA.thy ===== *)
theory Edge_CA
  imports Policy_Store
begin

section \<open>The edge certificate authority\<close>

text \<open>
  The signer of \<^verbatim>\<open>edgecp/signer.go\<close>, the bundle id of \<^verbatim>\<open>caid/caid.go\<close> and the tools of \<^verbatim>\<open>edgecp/ca.go\<close> that create
  the CA, widen it to OLD and NEW, flip the signing key and drop OLD.

  PEM, X.509 and SHA-256 come from the standard library as the record \<open>pki\<close>: \<open>pem_blocks\<close> is \<^verbatim>\<open>pem.Decode\<close> run to
  the end, as pairs of block type and bytes, \<open>pem_encode\<close> is \<^verbatim>\<open>pem.EncodeToMemory\<close>, the parsers return \<^const>\<open>None\<close> on
  an error, and \<open>public_matches\<close> compares the public key of a certificate with that of a private key.
  A certificate is its DER bytes. \<open>pki_ok\<close> states what the proofs use of them.
\<close>

record ('c, 'k) pki =
  pem_blocks :: "string \<Rightarrow> (string \<times> string) list"
  pem_encode :: "string \<times> string \<Rightarrow> string"
  ParseCertificate :: "string \<Rightarrow> 'c option"
  ParsePKCS8PrivateKey :: "string \<Rightarrow> 'k option"
  ParseECPrivateKey :: "string \<Rightarrow> 'k option"
  ParsePKCS1PrivateKey :: "string \<Rightarrow> 'k option"
  public_matches :: "'c \<Rightarrow> 'k \<Rightarrow> bool"
  sha256 :: "string \<Rightarrow> string"

definition pki_ok :: "('c, 'k) pki \<Rightarrow> bool" where
  "pki_ok P \<longleftrightarrow> pem_blocks P [] = [] \<and>
     (\<forall>b s. pem_blocks P (pem_encode P b @ s) = b # pem_blocks P s)"

subsection \<open>The bundle id\<close>

definition cert_fp :: "('c, 'k) pki \<Rightarrow> string \<Rightarrow> string" where
  "cert_fp P der = hex_encode (sha256 P der)"

definition FromDER :: "('c, 'k) pki \<Rightarrow> string list \<Rightarrow> string option" where
  "FromDER P ders =
     (if ders = [] then None
      else let sums = sort (map (cert_fp P) ders)
           in Some (hex_encode (take 16 (sha256 P (concat (map (\<lambda>s. s @ [CHR 0x00]) sums))))))"

fun cert_blocks :: "(string \<times> string) list \<Rightarrow> string list" where
  "cert_blocks [] = []"
| "cert_blocks ((ty, bytes) # rest) = (if ty \<noteq> ''CERTIFICATE'' then cert_blocks rest else bytes # cert_blocks rest)"

definition FromPEM :: "('c, 'k) pki \<Rightarrow> string \<Rightarrow> string option" where
  "FromPEM P bundlePEM = FromDER P (cert_blocks (pem_blocks P bundlePEM))"

definition caBundleID :: "('c, 'k) pki \<Rightarrow> string \<Rightarrow> string option" where
  "caBundleID P bundlePEM = FromPEM P bundlePEM"

definition certBundleFPs :: "('c, 'k) pki \<Rightarrow> string \<Rightarrow> string list" where
  "certBundleFPs P certPEM = map (cert_fp P) (cert_blocks (pem_blocks P certPEM))"

text \<open>\<open>lastCertFP\<close> of \<^verbatim>\<open>cmd/edge-controlplane/revoke.go\<close>.\<close>

definition lastCertFP :: "('c, 'k) pki \<Rightarrow> string \<Rightarrow> string option" where
  "lastCertFP P bundlePEM =
     (let ders = cert_blocks (pem_blocks P bundlePEM) in if ders = [] then None else Some (cert_fp P (last ders)))"

subsection \<open>Keys and bundles\<close>

definition parseCACert :: "('c, 'k) pki \<Rightarrow> string \<Rightarrow> 'c option" where
  "parseCACert P certPEM =
     (case pem_blocks P certPEM of
        [] \<Rightarrow> None
      | (ty, bytes) # _ \<Rightarrow> if ty \<noteq> ''CERTIFICATE'' then None else ParseCertificate P bytes)"

definition parsePrivateKey :: "('c, 'k) pki \<Rightarrow> string \<Rightarrow> 'k option" where
  "parsePrivateKey P keyPEM =
     (case pem_blocks P keyPEM of
        [] \<Rightarrow> None
      | (ty, bytes) # _ \<Rightarrow>
          if ty = ''PRIVATE KEY'' then ParsePKCS8PrivateKey P bytes
          else if ty = ''EC PRIVATE KEY'' then ParseECPrivateKey P bytes
          else if ty = ''RSA PRIVATE KEY'' then ParsePKCS1PrivateKey P bytes
          else None)"

definition validCAKeypair :: "('c, 'k) pki \<Rightarrow> string \<Rightarrow> string \<Rightarrow> bool" where
  "validCAKeypair P certPEM keyPEM =
     (if certPEM = [] \<or> keyPEM = [] then False
      else case parseCACert P certPEM of
        None \<Rightarrow> False
      | Some cert \<Rightarrow> (case parsePrivateKey P keyPEM of None \<Rightarrow> False | Some key \<Rightarrow> public_matches P cert key))"

definition cert_pem :: "('c, 'k) pki \<Rightarrow> string \<Rightarrow> string" where
  "cert_pem P der = pem_encode P (''CERTIFICATE'', der)"

fun reencode_loop :: "('c, 'k) pki \<Rightarrow> (string \<times> string) list \<Rightarrow> string \<times> nat \<Rightarrow> (string \<times> nat) option" where
  "reencode_loop P [] acc = Some acc"
| "reencode_loop P ((ty, bytes) # rest) (out, n) =
     (if ty \<noteq> ''CERTIFICATE'' then reencode_loop P rest (out, n)
      else case ParseCertificate P bytes of
        None \<Rightarrow> None
      | Some _ \<Rightarrow> reencode_loop P rest (out @ cert_pem P bytes, n + 1))"

definition reencodeCertBundle :: "('c, 'k) pki \<Rightarrow> string \<Rightarrow> (string \<times> nat) option" where
  "reencodeCertBundle P certPEM = reencode_loop P (pem_blocks P certPEM) ([], 0)"

fun split_loop :: "('c, 'k) pki \<Rightarrow> (string \<times> string) list \<Rightarrow> string list \<Rightarrow> string list option" where
  "split_loop P [] certs = Some certs"
| "split_loop P ((ty, bytes) # rest) certs =
     (if ty \<noteq> ''CERTIFICATE'' then split_loop P rest certs
      else case ParseCertificate P bytes of
        None \<Rightarrow> None
      | Some _ \<Rightarrow> split_loop P rest (certs @ [cert_pem P bytes]))"

definition splitCertBundle :: "('c, 'k) pki \<Rightarrow> string \<Rightarrow> string list option" where
  "splitCertBundle P certPEM = split_loop P (pem_blocks P certPEM) []"

subsection \<open>The signer\<close>

text \<open>The parsed certificates and keys are kept as the bytes they were parsed from.\<close>

record Signer =
  caCert :: string
  caKey :: string
  BundlePEM :: string
  bundlePool :: "string list"
  signer_caID :: string
  activeFP :: string
  certCount :: nat
  signer_ttl :: duration
  signer_skew :: duration

definition DefaultClientCertTTL :: duration where
  "DefaultClientCertTTL = 168 * hour"

definition DefaultClientCertSkew :: duration where
  "DefaultClientCertSkew = 10 * minute"

datatype signer_error = BadKey | BadBundleCert | AmbiguousActive | NoCertificates | NoKeyMatch

record signer_scan =
  sc_certs :: "string list"
  sc_rebuilt :: string
  sc_active :: "nat option"

fun signer_loop :: "('c, 'k) pki \<Rightarrow> 'k \<Rightarrow> string \<Rightarrow> (string \<times> string) list \<Rightarrow> signer_scan \<Rightarrow> signer_error + signer_scan" where
  "signer_loop P key want [] sc = Inr sc"
| "signer_loop P key want ((ty, bytes) # rest) sc =
     (if ty \<noteq> ''CERTIFICATE'' then signer_loop P key want rest sc
      else case ParseCertificate P bytes of
        None \<Rightarrow> Inl BadBundleCert
      | Some c \<Rightarrow>
          let matches = public_matches P c key \<and> (want = [] \<or> cert_fp P bytes = want) in
          if matches \<and> sc_active sc \<noteq> None then Inl AmbiguousActive
          else signer_loop P key want rest
            \<lparr>sc_certs = sc_certs sc @ [bytes], sc_rebuilt = sc_rebuilt sc @ cert_pem P bytes,
             sc_active = (if matches then Some (length (sc_certs sc)) else sc_active sc)\<rparr>)"

definition NewProvidedSignerActive ::
  "('c, 'k) pki \<Rightarrow> string \<Rightarrow> string \<Rightarrow> string \<Rightarrow> duration \<Rightarrow> duration \<Rightarrow> signer_error + Signer" where
  "NewProvidedSignerActive P bundlePEM keyPEM want ttl skew =
     (case parsePrivateKey P keyPEM of
        None \<Rightarrow> Inl BadKey
      | Some key \<Rightarrow>
          (case signer_loop P key want (pem_blocks P bundlePEM) \<lparr>sc_certs = [], sc_rebuilt = [], sc_active = None\<rparr> of
             Inl e \<Rightarrow> Inl e
           | Inr sc \<Rightarrow>
               if sc_certs sc = [] then Inl NoCertificates
               else case sc_active sc of
                 None \<Rightarrow> Inl NoKeyMatch
               | Some i \<Rightarrow>
                   (case caBundleID P (sc_rebuilt sc) of
                      None \<Rightarrow> Inl NoCertificates
                    | Some cid \<Rightarrow>
                        Inr \<lparr>caCert = sc_certs sc ! i, caKey = keyPEM, BundlePEM = sc_rebuilt sc, bundlePool = sc_certs sc,
                             signer_caID = cid, activeFP = map (cert_fp P) (sc_certs sc) ! i, certCount = length (sc_certs sc),
                             signer_ttl = (if ttl \<le> 0 then DefaultClientCertTTL else ttl),
                             signer_skew = (if skew < 0 then DefaultClientCertSkew else skew)\<rparr>)))"

definition NewProvidedSigner :: "('c, 'k) pki \<Rightarrow> string \<Rightarrow> string \<Rightarrow> duration \<Rightarrow> duration \<Rightarrow> signer_error + Signer" where
  "NewProvidedSigner P certPEM keyPEM ttl skew = NewProvidedSignerActive P certPEM keyPEM [] ttl skew"

subsection \<open>The CA Secret and its tools\<close>

text \<open>The Secret: the data fields \<^verbatim>\<open>tls.crt\<close>, \<^verbatim>\<open>tls.key\<close> and \<^verbatim>\<open>tls-new.key\<close> and the four annotations. The code reads an absent
  field as an empty one; only of the generation annotation does it ask whether it is present.\<close>

record CASecret =
  tls_crt :: string
  tls_key :: string
  tls_new_key :: string
  an_generation :: "string option"
  an_phase :: string
  an_active :: string
  an_started :: string

abbreviation caPhaseOverlap :: string where "caPhaseOverlap \<equiv> ''overlap''"
abbreviation caPhaseTrimmed :: string where "caPhaseTrimmed \<equiv> ''trimmed''"
abbreviation caActiveOld :: string where "caActiveOld \<equiv> ''old''"
abbreviation caActiveNew :: string where "caActiveNew \<equiv> ''new''"

datatype ca_error =
    SecretMissing | GetFailed | BadMaterial | Blanked | GenerateFailed | NotPopulated | BadBundle | NotSingle | AssembleFailed
  | WrongPin | NotOverlap | NoStagedKey | KeyMismatch | NotActiveNew | PinRequired | PersistFailed | VerifyFailed | Exhausted

text \<open>What one attempt of a tool decides from the Secret it read: an error, a result without a write, or the Secret
  to write and the result. \<open>gen\<close> is what \<open>GenerateCA\<close> returns, the DER of the new certificate and of its key, and
  \<open>now\<close> the Unix time in seconds.\<close>

datatype 'r ca_plan = Refuse ca_error | Keep 'r | Write CASecret 'r

definition generated_pem :: "('c, 'k) pki \<Rightarrow> string \<times> string \<Rightarrow> string \<times> string" where
  "generated_pem P g = (cert_pem P (fst g), pem_encode P (''PRIVATE KEY'', snd g))"

definition ensure_plan :: "('c, 'k) pki \<Rightarrow> (string \<times> string) option \<Rightarrow> CASecret \<Rightarrow> (string \<times> string) ca_plan" where
  "ensure_plan P gen sec =
     (if tls_crt sec \<noteq> [] \<or> tls_key sec \<noteq> [] then
        (if validCAKeypair P (tls_crt sec) (tls_key sec) then Keep (tls_crt sec, tls_key sec) else Refuse BadMaterial)
      else if an_generation sec \<noteq> None then Refuse Blanked
      else case gen of
        None \<Rightarrow> Refuse GenerateFailed
      | Some g \<Rightarrow>
          let (certPEM, keyPEM) = generated_pem P g in
          (case caBundleID P certPEM of
             None \<Rightarrow> Refuse GenerateFailed
           | Some cid \<Rightarrow>
               Write (sec\<lparr>tls_crt := certPEM, tls_key := keyPEM, an_generation := Some cid\<rparr>) (certPEM, keyPEM)))"

definition rotate_plan :: "('c, 'k) pki \<Rightarrow> (string \<times> string) option \<Rightarrow> int \<Rightarrow> CASecret \<Rightarrow> string ca_plan" where
  "rotate_plan P gen now sec =
     (if \<not> validCAKeypair P (tls_crt sec) (tls_key sec) then Refuse NotPopulated
      else case reencodeCertBundle P (tls_crt sec) of
        None \<Rightarrow> Refuse BadBundle
      | Some (oldBundle, n) \<Rightarrow>
          if an_phase sec = caPhaseOverlap \<and> n = 2 \<and> tls_new_key sec \<noteq> [] then Keep (tls_crt sec)
          else if n \<noteq> 1 then Refuse NotSingle
          else case gen of
            None \<Rightarrow> Refuse GenerateFailed
          | Some g \<Rightarrow>
              let (newCert, newKey) = generated_pem P g; newBundle = oldBundle @ newCert in
              (case reencodeCertBundle P newBundle of
                 None \<Rightarrow> Refuse AssembleFailed
               | Some (_, n2) \<Rightarrow>
                   if n2 \<noteq> 2 then Refuse AssembleFailed
                   else case caBundleID P newBundle of
                     None \<Rightarrow> Refuse BadBundle
                   | Some cid \<Rightarrow>
                       Write (sec\<lparr>tls_crt := newBundle, tls_new_key := newKey, an_phase := caPhaseOverlap,
                                  an_active := caActiveOld, an_started := itoa now, an_generation := Some cid\<rparr>) newBundle))"

definition flip_plan :: "('c, 'k) pki \<Rightarrow> string \<Rightarrow> CASecret \<Rightarrow> string ca_plan" where
  "flip_plan P expectedNewFP sec =
     (case splitCertBundle P (tls_crt sec) of
        None \<Rightarrow> Refuse BadBundle
      | Some certs \<Rightarrow>
          let fps = certBundleFPs P (tls_crt sec) in
          if an_active sec = caActiveNew then
            (if expectedNewFP \<noteq> [] \<and> (fps = [] \<or> last fps \<noteq> expectedNewFP) then Refuse WrongPin else Keep (tls_crt sec))
          else if an_phase sec \<noteq> caPhaseOverlap \<or> length certs \<noteq> 2 then Refuse NotOverlap
          else if tls_new_key sec = [] then Refuse NoStagedKey
          else if expectedNewFP \<noteq> [] \<and> last fps \<noteq> expectedNewFP then Refuse WrongPin
          else if \<not> validCAKeypair P (last certs) (tls_new_key sec) then Refuse KeyMismatch
          else Write (sec\<lparr>an_active := caActiveNew\<rparr>) (tls_crt sec))"

definition trim_plan :: "('c, 'k) pki \<Rightarrow> string \<Rightarrow> CASecret \<Rightarrow> string ca_plan" where
  "trim_plan P expectedNewFP sec =
     (case splitCertBundle P (tls_crt sec) of
        None \<Rightarrow> Refuse BadBundle
      | Some certs \<Rightarrow>
          let fps = certBundleFPs P (tls_crt sec) in
          if an_phase sec = caPhaseTrimmed \<and> length certs = 1 then
            (if hd fps \<noteq> expectedNewFP then Refuse WrongPin
             else if \<not> validCAKeypair P (tls_crt sec) (tls_key sec) then Refuse KeyMismatch
             else Keep (tls_crt sec))
          else if an_active sec \<noteq> caActiveNew then Refuse NotActiveNew
          else if an_phase sec \<noteq> caPhaseOverlap \<or> length certs \<noteq> 2 then Refuse NotOverlap
          else if last fps \<noteq> expectedNewFP then Refuse WrongPin
          else if tls_new_key sec = [] \<or> \<not> validCAKeypair P (last certs) (tls_new_key sec) then Refuse KeyMismatch
          else case caBundleID P (last certs) of
            None \<Rightarrow> Refuse BadBundle
          | Some cid \<Rightarrow>
              Write (sec\<lparr>tls_crt := last certs, tls_key := tls_new_key sec, tls_new_key := [], an_phase := caPhaseTrimmed,
                         an_active := caActiveOld, an_started := [], an_generation := Some cid\<rparr>) (last certs))"

subsection \<open>The compare-and-swap loop\<close>

text \<open>The loop the four tools share: at most five attempts, each reads the Secret, plans, and writes under the
  resource version it read; a conflict re-reads. The environment of attempt \<open>i\<close> is \<open>env i\<close>: the outcomes of its API
  calls, of \<open>GenerateCA\<close> and of the clock. \<open>verify\<close> is the check of the Secret read back after a write; \<open>EnsureCA\<close> has none.
  The loop returns the outcome and the Secrets it wrote.\<close>

datatype get_outcome = GotSecret CASecret | GetMissing | GetError

datatype update_outcome = Updated | UpdateConflict | UpdateError

record attempt_env =
  at_get :: get_outcome
  at_gen :: "(string \<times> string) option"
  at_now :: int
  at_update :: update_outcome
  at_check :: get_outcome

definition check_written :: "(CASecret \<Rightarrow> bool) option \<Rightarrow> get_outcome \<Rightarrow> bool" where
  "check_written verify got = (case verify of None \<Rightarrow> True | Some ok \<Rightarrow> (case got of GotSecret s \<Rightarrow> ok s | _ \<Rightarrow> False))"

fun cas_loop ::
  "(attempt_env \<Rightarrow> CASecret \<Rightarrow> 'r ca_plan) \<Rightarrow> (CASecret \<Rightarrow> bool) option \<Rightarrow> (nat \<Rightarrow> attempt_env) \<Rightarrow> nat \<Rightarrow> nat
    \<Rightarrow> (ca_error + 'r) \<times> CASecret list" where
  "cas_loop plan verify env i 0 = (Inl Exhausted, [])"
| "cas_loop plan verify env i (Suc left) =
     (case at_get (env i) of
        GetMissing \<Rightarrow> (Inl SecretMissing, [])
      | GetError \<Rightarrow> (Inl GetFailed, [])
      | GotSecret sec \<Rightarrow>
          (case plan (env i) sec of
             Refuse e \<Rightarrow> (Inl e, [])
           | Keep r \<Rightarrow> (Inr r, [])
           | Write sec' r \<Rightarrow>
               (case at_update (env i) of
                  UpdateConflict \<Rightarrow> cas_loop plan verify env (Suc i) left
                | UpdateError \<Rightarrow> (Inl PersistFailed, [])
                | Updated \<Rightarrow> (if check_written verify (at_check (env i)) then Inr r else Inl VerifyFailed, [sec']))))"

definition maxAttempts :: nat where
  "maxAttempts = 5"

definition EnsureCA :: "('c, 'k) pki \<Rightarrow> (nat \<Rightarrow> attempt_env) \<Rightarrow> (ca_error + string \<times> string) \<times> CASecret list" where
  "EnsureCA P env = cas_loop (\<lambda>e. ensure_plan P (at_gen e)) None env 0 maxAttempts"

definition bundle_count_is :: "('c, 'k) pki \<Rightarrow> nat \<Rightarrow> CASecret \<Rightarrow> bool" where
  "bundle_count_is P n s = (case reencodeCertBundle P (tls_crt s) of None \<Rightarrow> False | Some (_, k) \<Rightarrow> k = n)"

definition RotateCA :: "('c, 'k) pki \<Rightarrow> (nat \<Rightarrow> attempt_env) \<Rightarrow> (ca_error + string) \<times> CASecret list" where
  "RotateCA P env = cas_loop (\<lambda>e. rotate_plan P (at_gen e) (at_now e)) (Some (bundle_count_is P 2)) env 0 maxAttempts"

definition SetActiveNew :: "('c, 'k) pki \<Rightarrow> string \<Rightarrow> (nat \<Rightarrow> attempt_env) \<Rightarrow> (ca_error + string) \<times> CASecret list" where
  "SetActiveNew P expectedNewFP env =
     cas_loop (\<lambda>e. flip_plan P expectedNewFP) (Some (\<lambda>s. an_active s = caActiveNew)) env 0 maxAttempts"

definition TrimCA :: "('c, 'k) pki \<Rightarrow> string \<Rightarrow> (nat \<Rightarrow> attempt_env) \<Rightarrow> (ca_error + string) \<times> CASecret list" where
  "TrimCA P expectedNewFP env =
     (if expectedNewFP = [] then (Inl PinRequired, [])
      else cas_loop (\<lambda>e. trim_plan P expectedNewFP)
        (Some (\<lambda>s. bundle_count_is P 1 s \<and> certBundleFPs P (tls_crt s) = [expectedNewFP] \<and> validCAKeypair P (tls_crt s) (tls_key s)))
        env 0 maxAttempts)"


lemma cas_loop_writes:
  "s' \<in> set (snd (cas_loop plan verify env i n)) \<Longrightarrow> \<exists>j sec r. at_get (env j) = GotSecret sec \<and> plan (env j) sec = Write s' r"
  by (induction plan verify env i n rule: cas_loop.induct) (auto split: get_outcome.splits ca_plan.splits update_outcome.splits if_splits)

subsection \<open>Which key signs\<close>

text \<open>The candidate signer that the serving reloader builds from a Secret: key field and pinned fingerprint are chosen
  together by the active annotation. \<^const>\<open>None\<close> stands for an empty key field.\<close>

definition signer_candidate :: "('c, 'k) pki \<Rightarrow> duration \<Rightarrow> duration \<Rightarrow> CASecret \<Rightarrow> (signer_error + Signer) option" where
  "signer_candidate P ttl skew sec =
     (let fps = certBundleFPs P (tls_crt sec);
          keyPEM = (if an_active sec = caActiveNew then tls_new_key sec else tls_key sec);
          fp = (if fps = [] then [] else if an_active sec = caActiveNew then last fps else hd fps)
      in if keyPEM = [] then None else Some (NewProvidedSignerActive P (tls_crt sec) keyPEM fp ttl skew))"

subsection \<open>Bundles as certificate lists\<close>

abbreviation ders :: "('c, 'k) pki \<Rightarrow> string \<Rightarrow> string list" where
  "ders P pem \<equiv> cert_blocks (pem_blocks P pem)"

definition all_parse :: "('c, 'k) pki \<Rightarrow> string list \<Rightarrow> bool" where
  "all_parse P ds \<longleftrightarrow> list_all (\<lambda>d. ParseCertificate P d \<noteq> None) ds"

lemma all_parse_simps [simp]:
  "all_parse P []" "all_parse P (d # ds) \<longleftrightarrow> ParseCertificate P d \<noteq> None \<and> all_parse P ds"
  by (simp_all add: all_parse_def)

lemma split_loop_eq: "split_loop P bs acc = (if all_parse P (cert_blocks bs) then Some (acc @ map (cert_pem P) (cert_blocks bs)) else None)"
  by (induction P bs acc rule: split_loop.induct) (auto split: option.split)

lemma splitCertBundle_eq: "splitCertBundle P pem = (if all_parse P (ders P pem) then Some (map (cert_pem P) (ders P pem)) else None)"
  by (simp add: splitCertBundle_def split_loop_eq)

lemma reencode_loop_eq:
  "reencode_loop P bs acc =
     (if all_parse P (cert_blocks bs)
      then Some (fst acc @ concat (map (cert_pem P) (cert_blocks bs)), snd acc + length (cert_blocks bs)) else None)"
  by (induction P bs acc rule: reencode_loop.induct) (auto split: option.split)

lemma reencodeCertBundle_eq:
  "reencodeCertBundle P pem =
     (if all_parse P (ders P pem) then Some (concat (map (cert_pem P) (ders P pem)), length (ders P pem)) else None)"
  by (simp add: reencodeCertBundle_def reencode_loop_eq)

lemma pem_blocks_Nil: "pki_ok P \<Longrightarrow> pem_blocks P [] = []"
  by (simp add: pki_ok_def)

lemma ders_cert_pem: "pki_ok P \<Longrightarrow> ders P (cert_pem P d @ s) = d # ders P s"
  by (simp add: pki_ok_def cert_pem_def)

lemma ders_one: "pki_ok P \<Longrightarrow> ders P (cert_pem P d) = [d]"
  using ders_cert_pem [of P d "[]"] by (simp add: pem_blocks_Nil)

lemma ders_concat: "pki_ok P \<Longrightarrow> ders P (concat (map (cert_pem P) ds) @ s) = ds @ ders P s"
  by (induction ds) (simp_all add: ders_cert_pem)

lemma ders_rebuilt: "pki_ok P \<Longrightarrow> ders P (concat (map (cert_pem P) ds)) = ds"
  using ders_concat [of P ds "[]"] by (simp add: pem_blocks_Nil)

lemma pem_encode_nonempty: "pki_ok P \<Longrightarrow> pem_encode P b \<noteq> []"
  unfolding pki_ok_def by (metis append_Nil list.distinct(1))

lemma pem_blocks_one: "pki_ok P \<Longrightarrow> pem_blocks P (pem_encode P b) = [b]"
  unfolding pki_ok_def by (metis append_Nil2)

definition key_for :: "('c, 'k) pki \<Rightarrow> string \<Rightarrow> string \<Rightarrow> bool" where
  "key_for P der keyPEM =
     (case ParseCertificate P der of
        None \<Rightarrow> False
      | Some c \<Rightarrow> (case parsePrivateKey P keyPEM of None \<Rightarrow> False | Some k \<Rightarrow> keyPEM \<noteq> [] \<and> public_matches P c k))"

lemma validCAKeypair_head:
  "validCAKeypair P pem key \<Longrightarrow> \<exists>d ds. ders P pem = d # ds \<and> key_for P d key"
  by (fastforce simp: validCAKeypair_def parseCACert_def key_for_def split: if_splits option.splits list.splits)

lemma validCAKeypair_cert_pem: "pki_ok P \<Longrightarrow> validCAKeypair P (cert_pem P d @ s) key \<longleftrightarrow> key_for P d key"
  using pem_encode_nonempty [of P "(''CERTIFICATE'', d)"]
  by (auto simp: validCAKeypair_def parseCACert_def key_for_def cert_pem_def pki_ok_def split: option.splits)

lemma validCAKeypair_one: "pki_ok P \<Longrightarrow> validCAKeypair P (cert_pem P d) key \<longleftrightarrow> key_for P d key"
  using validCAKeypair_cert_pem [of P d "[]"] by simp

subsection \<open>The order of the bundle does not matter to its id\<close>

lemma FromDER_order: "mset ds = mset ds' \<Longrightarrow> FromDER P ds = FromDER P ds'"
proof -
  assume m: "mset ds = mset ds'"
  then have "mset (map (cert_fp P) ds) = mset (map (cert_fp P) ds')" by (metis mset_map)
  then have "sort (map (cert_fp P) ds) = sort (map (cert_fp P) ds')" by (metis mset_sort properties_for_sort sorted_sort)
  moreover have "ds = [] \<longleftrightarrow> ds' = []" using m by (metis mset_zero_iff)
  ultimately show ?thesis by (simp add: FromDER_def)
qed

subsection \<open>The signer picks the certificate its caller named\<close>

definition active_hits :: "('c, 'k) pki \<Rightarrow> 'k \<Rightarrow> string \<Rightarrow> string \<Rightarrow> bool" where
  "active_hits P key want d =
     (case ParseCertificate P d of None \<Rightarrow> False | Some c \<Rightarrow> public_matches P c key \<and> (want = [] \<or> cert_fp P d = want))"

lemma signer_loop_cert:
  "ParseCertificate P bytes \<noteq> None \<Longrightarrow> signer_loop P key want ((''CERTIFICATE'', bytes) # rest) sc =
     (if active_hits P key want bytes \<and> sc_active sc \<noteq> None then Inl AmbiguousActive
      else signer_loop P key want rest
        \<lparr>sc_certs = sc_certs sc @ [bytes], sc_rebuilt = sc_rebuilt sc @ cert_pem P bytes,
         sc_active = (if active_hits P key want bytes then Some (length (sc_certs sc)) else sc_active sc)\<rparr>)"
  by (auto simp: active_hits_def Let_def)

lemma signer_loop_other: "ty \<noteq> ''CERTIFICATE'' \<Longrightarrow> signer_loop P key want ((ty, bytes) # rest) sc = signer_loop P key want rest sc"
  by simp

lemma signer_loop_skip:
  "all_parse P (cert_blocks bs) \<Longrightarrow> list_all (\<lambda>d. \<not> active_hits P key want d) (cert_blocks bs) \<Longrightarrow>
   signer_loop P key want bs sc =
     Inr (sc\<lparr>sc_certs := sc_certs sc @ cert_blocks bs, sc_rebuilt := sc_rebuilt sc @ concat (map (cert_pem P) (cert_blocks bs))\<rparr>)"
proof (induction bs arbitrary: sc)
  case (Cons b bs)
  obtain ty bytes where b: "b = (ty, bytes)" by (cases b)
  show ?case
  proof (cases "ty = ''CERTIFICATE''")
    case True
    then show ?thesis using Cons by (simp add: b signer_loop_cert del: signer_loop.simps)
  qed (use Cons in \<open>simp add: b\<close>)
qed simp

lemma signer_loop_pick:
  assumes "cert_blocks bs = ds @ d # ds'" and "all_parse P (cert_blocks bs)"
    and "list_all (\<lambda>x. \<not> active_hits P key want x) (ds @ ds')" and "active_hits P key want d" and "sc_active sc = None"
  shows "signer_loop P key want bs sc =
    Inr \<lparr>sc_certs = sc_certs sc @ cert_blocks bs, sc_rebuilt = sc_rebuilt sc @ concat (map (cert_pem P) (cert_blocks bs)),
         sc_active = Some (length (sc_certs sc) + length ds)\<rparr>"
  using assms
proof (induction bs arbitrary: sc ds)
  case (Cons b bs)
  obtain ty bytes where b: "b = (ty, bytes)" by (cases b)
  show ?case
  proof (cases "ty = ''CERTIFICATE''")
    case cert: True
    show ?thesis
    proof (cases ds)
      case Nil
      then have "all_parse P (cert_blocks bs)" "list_all (\<lambda>x. \<not> active_hits P key want x) (cert_blocks bs)"
        using Cons.prems cert by (simp_all add: b)
      note skip = signer_loop_skip [OF this]
      show ?thesis using Nil Cons.prems cert by (simp add: b signer_loop_cert skip del: signer_loop.simps)
    next
      case (Cons a as)
      then show ?thesis
        using Cons.IH [of as] Cons.prems cert by (simp add: b signer_loop_cert del: signer_loop.simps)
    qed
  qed (use Cons in \<open>simp add: b\<close>)
qed simp

lemma NewProvidedSignerActive_picks:
  assumes "pki_ok P" and "ders P pem = ds @ d # ds'" and "all_parse P (ds @ d # ds')" and "parsePrivateKey P keyPEM = Some key"
    and "active_hits P key want d" and "list_all (\<lambda>x. \<not> active_hits P key want x) (ds @ ds')"
  shows "\<exists>sg. NewProvidedSignerActive P pem keyPEM want ttl skew = Inr sg \<and> caCert sg = d \<and> activeFP sg = cert_fp P d \<and>
    bundlePool sg = ds @ d # ds' \<and> ders P (BundlePEM sg) = ds @ d # ds' \<and> caKey sg = keyPEM \<and> certCount sg = length (ds @ d # ds') \<and>
    Some (signer_caID sg) = FromDER P (ds @ d # ds')"
proof -
  have "signer_loop P key want (pem_blocks P pem) \<lparr>sc_certs = [], sc_rebuilt = [], sc_active = None\<rparr> =
      Inr \<lparr>sc_certs = ds @ d # ds', sc_rebuilt = concat (map (cert_pem P) (ds @ d # ds')), sc_active = Some (length ds)\<rparr>"
    using signer_loop_pick [of "pem_blocks P pem" ds d ds' P key want] assms by simp
  moreover have "caBundleID P (concat (map (cert_pem P) (ds @ d # ds'))) = FromDER P (ds @ d # ds')"
    using ders_rebuilt [OF assms(1)] by (simp only: caBundleID_def FromPEM_def)
  moreover have "\<exists>cid. FromDER P (ds @ d # ds') = Some cid" by (simp add: FromDER_def Let_def)
  ultimately show ?thesis
    using assms(4) ders_rebuilt [OF assms(1), of "ds @ d # ds'"] by (auto simp: NewProvidedSignerActive_def nth_append)
qed


subsection \<open>The states of the Secret\<close>

text \<open>A stub before the bootstrap, one CA, or OLD and NEW side by side with both keys.\<close>

definition ca_virgin :: "CASecret \<Rightarrow> bool" where
  "ca_virgin s \<longleftrightarrow> tls_crt s = [] \<and> tls_key s = [] \<and> an_active s \<noteq> caActiveNew \<and> an_phase s \<noteq> caPhaseOverlap"

definition ca_single :: "('c, 'k) pki \<Rightarrow> string \<Rightarrow> CASecret \<Rightarrow> bool" where
  "ca_single P d s \<longleftrightarrow> ders P (tls_crt s) = [d] \<and> key_for P d (tls_key s) \<and> validCAKeypair P (tls_crt s) (tls_key s) \<and>
     an_active s \<noteq> caActiveNew \<and> an_phase s \<noteq> caPhaseOverlap"

definition ca_overlap :: "('c, 'k) pki \<Rightarrow> string \<Rightarrow> string \<Rightarrow> CASecret \<Rightarrow> bool" where
  "ca_overlap P old new s \<longleftrightarrow> ders P (tls_crt s) = [old, new] \<and> key_for P old (tls_key s) \<and> validCAKeypair P (tls_crt s) (tls_key s) \<and>
     key_for P new (tls_new_key s) \<and> cert_fp P old \<noteq> cert_fp P new \<and> an_phase s = caPhaseOverlap"

definition ca_ok :: "('c, 'k) pki \<Rightarrow> CASecret \<Rightarrow> bool" where
  "ca_ok P s \<longleftrightarrow> ca_virgin s \<or> (\<exists>d. ca_single P d s) \<or> (\<exists>old new. ca_overlap P old new s)"

lemma key_for_parses: "key_for P d key \<Longrightarrow> \<exists>c. ParseCertificate P d = Some c"
  by (auto simp: key_for_def split: option.splits)

lemma key_for_nonempty: "key_for P d key \<Longrightarrow> key \<noteq> []"
  by (auto simp: key_for_def split: option.splits)

lemma key_for_key: "key_for P d key \<Longrightarrow> \<exists>k. parsePrivateKey P key = Some k \<and> active_hits P k (cert_fp P d) d"
  by (auto simp: key_for_def active_hits_def split: option.splits)

lemma active_hits_fp: "want \<noteq> [] \<Longrightarrow> cert_fp P d \<noteq> want \<Longrightarrow> \<not> active_hits P k want d"
  by (auto simp: active_hits_def split: option.splits)

text \<open>Fingerprints are hex digests of 32 bytes, so never empty.\<close>

definition digest_ok :: "('c, 'k) pki \<Rightarrow> bool" where
  "digest_ok P \<longleftrightarrow> (\<forall>x. sha256 P x \<noteq> [])"

lemma cert_fp_nonempty: "digest_ok P \<Longrightarrow> cert_fp P d \<noteq> []"
proof -
  assume "digest_ok P"
  then obtain c cs where "sha256 P d = c # cs" unfolding digest_ok_def by (meson neq_Nil_conv)
  then show "cert_fp P d \<noteq> []" by (simp add: cert_fp_def hex_encode_def)
qed

text \<open>In every populated state the reloader's candidate builds, and signs with the certificate of the active annotation.\<close>

definition active_cert :: "('c, 'k) pki \<Rightarrow> CASecret \<Rightarrow> string" where
  "active_cert P s = (if an_active s = caActiveNew then last (ders P (tls_crt s)) else hd (ders P (tls_crt s)))"

definition active_key :: "CASecret \<Rightarrow> string" where
  "active_key s = (if an_active s = caActiveNew then tls_new_key s else tls_key s)"

definition signs_as :: "('c, 'k) pki \<Rightarrow> CASecret \<Rightarrow> Signer \<Rightarrow> bool" where
  "signs_as P s sg \<longleftrightarrow> caCert sg = active_cert P s \<and> caKey sg = active_key s \<and> activeFP sg = cert_fp P (active_cert P s) \<and>
     bundlePool sg = ders P (tls_crt s) \<and> ders P (BundlePEM sg) = ders P (tls_crt s) \<and>
     certCount sg = length (ders P (tls_crt s)) \<and> Some (signer_caID sg) = FromPEM P (tls_crt s)"

lemma candidate_picks:
  assumes "pki_ok P" and "digest_ok P" and d: "ders P (tls_crt s) = ds @ d # ds'" and "all_parse P (ds @ d # ds')"
    and "active_cert P s = d" and k: "key_for P d (active_key s)" and "list_all (\<lambda>x. cert_fp P x \<noteq> cert_fp P d) (ds @ ds')"
  shows "\<exists>sg. signer_candidate P ttl skew s = Some (Inr sg) \<and> signs_as P s sg"
proof -
  obtain key where key: "parsePrivateKey P (active_key s) = Some key" and h: "active_hits P key (cert_fp P d) d"
    using key_for_key [OF k] by blast
  have nh: "list_all (\<lambda>x. \<not> active_hits P key (cert_fp P d) x) (ds @ ds')"
    using assms(7) active_hits_fp [OF cert_fp_nonempty [OF assms(2), of d], of P _ key] unfolding list_all_iff by blast
  have fp: "(if certBundleFPs P (tls_crt s) = [] then [] else if an_active s = caActiveNew then last (certBundleFPs P (tls_crt s))
      else hd (certBundleFPs P (tls_crt s))) = cert_fp P d"
  proof -
    have ne: "ders P (tls_crt s) \<noteq> []" using d by simp
    then show ?thesis unfolding assms(5) [symmetric] by (simp add: certBundleFPs_def active_cert_def last_map hd_map)
  qed
  have cand: "signer_candidate P ttl skew s = Some (NewProvidedSignerActive P (tls_crt s) (active_key s) (cert_fp P d) ttl skew)"
    using key_for_nonempty [OF k] unfolding signer_candidate_def Let_def active_key_def [symmetric] fp by (simp only: if_False)
  show ?thesis
    using NewProvidedSignerActive_picks [OF assms(1) d assms(4) key h nh, of ttl skew] assms(5)
    unfolding cand signs_as_def FromPEM_def d by auto
qed

lemma ca_ok_signer:
  assumes "pki_ok P" and "digest_ok P" and "ca_ok P s" and "tls_crt s \<noteq> []"
  shows "\<exists>sg. signer_candidate P ttl skew s = Some (Inr sg) \<and> signs_as P s sg"
proof -
  consider (single) d where "ca_single P d s" | (overlap) old new where "ca_overlap P old new s"
    using assms(3,4) by (auto simp: ca_ok_def ca_virgin_def)
  then show ?thesis
  proof cases
    case single
    then show ?thesis using candidate_picks [OF assms(1,2), of s "[]" d "[]" ttl skew] key_for_parses [of P d "tls_key s"]
      by (simp add: ca_single_def active_cert_def active_key_def)
  next
    case overlap
    then have "\<exists>c. ParseCertificate P old = Some c" "\<exists>c. ParseCertificate P new = Some c" "cert_fp P new \<noteq> cert_fp P old"
      using key_for_parses unfolding ca_overlap_def by (blast | metis)+
    then show ?thesis
      using overlap candidate_picks [OF assms(1,2), of s "[]" old "[new]" ttl skew]
        candidate_picks [OF assms(1,2), of s "[old]" new "[]" ttl skew]
      by (cases "an_active s = caActiveNew") (simp_all add: ca_overlap_def active_cert_def active_key_def)
  qed
qed

subsection \<open>What a tool may write\<close>

datatype ca_tool = ToolEnsure | ToolRotate | ToolFlip string | ToolTrim string

definition plan_write :: "'r ca_plan \<Rightarrow> CASecret option" where
  "plan_write p = (case p of Write s' r \<Rightarrow> Some s' | _ \<Rightarrow> None)"

definition tool_write :: "('c, 'k) pki \<Rightarrow> ca_tool \<Rightarrow> (string \<times> string) option \<Rightarrow> int \<Rightarrow> CASecret \<Rightarrow> CASecret option" where
  "tool_write P t gen now s =
     (case t of
        ToolEnsure \<Rightarrow> plan_write (ensure_plan P gen s)
      | ToolRotate \<Rightarrow> plan_write (rotate_plan P gen now s)
      | ToolFlip fp \<Rightarrow> plan_write (flip_plan P fp s)
      | ToolTrim fp \<Rightarrow> if fp = [] then None else plan_write (trim_plan P fp s))"

text \<open>What is assumed of \<open>GenerateCA\<close>: certificate and key parse and belong together, and the fingerprint is not one of
  the certificates \<open>used\<close> so far.\<close>

definition generates :: "('c, 'k) pki \<Rightarrow> string list \<Rightarrow> (string \<times> string) option \<Rightarrow> bool" where
  "generates P used gen =
     (case gen of
        None \<Rightarrow> True
      | Some g \<Rightarrow> key_for P (fst g) (pem_encode P (''PRIVATE KEY'', snd g)) \<and> list_all (\<lambda>d. cert_fp P d \<noteq> cert_fp P (fst g)) used)"

text \<open>How the trusted certificates change: only the bootstrap starts a bundle, a rotation adds one certificate, the
  flip keeps the bundle, and only the trim, when NEW already signs, drops OLD.\<close>

inductive ca_change :: "('c, 'k) pki \<Rightarrow> CASecret \<Rightarrow> CASecret \<Rightarrow> bool" for P where
  change_ensure: "ca_virgin s \<Longrightarrow> ca_single P d s' \<Longrightarrow> ca_change P s s'"
| change_rotate: "ca_single P d s \<Longrightarrow> ca_overlap P d new s' \<Longrightarrow> an_active s' = caActiveOld \<Longrightarrow> ca_change P s s'"
| change_flip: "ca_overlap P old new s \<Longrightarrow> an_active s \<noteq> caActiveNew \<Longrightarrow> ca_overlap P old new s' \<Longrightarrow>
    an_active s' = caActiveNew \<Longrightarrow> ca_change P s s'"
| change_trim: "ca_overlap P old new s \<Longrightarrow> an_active s = caActiveNew \<Longrightarrow> ca_single P new s' \<Longrightarrow>
    an_phase s' = caPhaseTrimmed \<Longrightarrow> ca_change P s s'"

lemma key_for_generated: "key_for P d (pem_encode P (''PRIVATE KEY'', k)) \<Longrightarrow> pki_ok P \<Longrightarrow> validCAKeypair P (cert_pem P d) (pem_encode P (''PRIVATE KEY'', k))"
  by (simp add: validCAKeypair_one)

lemma ensure_write_change:
  assumes "pki_ok P" and "ca_ok P s" and "plan_write (ensure_plan P gen s) = Some s'" and "generates P [] gen"
  shows "ca_change P s s'"
proof -
  from assms(3) obtain g cid where e: "tls_crt s = []" "tls_key s = []" "gen = Some g"
      "s' = s\<lparr>tls_crt := cert_pem P (fst g), tls_key := pem_encode P (''PRIVATE KEY'', snd g), an_generation := Some cid\<rparr>"
    by (auto simp: plan_write_def ensure_plan_def generated_pem_def split: if_splits option.splits)
  have v: "ca_virgin s" using assms(2) e(1,2)
    by (auto simp: ca_ok_def ca_single_def ca_overlap_def pem_blocks_Nil [OF assms(1)])
  have k: "key_for P (fst g) (pem_encode P (''PRIVATE KEY'', snd g))" using assms(4) e(3) by (simp add: generates_def)
  have "ca_single P (fst g) s'"
    using v k e(4) key_for_generated [OF k assms(1)] by (simp add: ca_single_def ca_virgin_def ders_one [OF assms(1)])
  with v show ?thesis by (rule change_ensure)
qed

lemma rotate_write_change:
  assumes "pki_ok P" and "ca_ok P s" and "plan_write (rotate_plan P gen now s) = Some s'" and "generates P (ders P (tls_crt s)) gen"
  shows "ca_change P s s'"
proof -
  from assms(3) obtain g cid where v: "validCAKeypair P (tls_crt s) (tls_key s)" and n: "length (ders P (tls_crt s)) = 1"
      and g: "gen = Some g"
      and s': "s' = s\<lparr>tls_crt := concat (map (cert_pem P) (ders P (tls_crt s))) @ cert_pem P (fst g),
          tls_new_key := pem_encode P (''PRIVATE KEY'', snd g), an_phase := caPhaseOverlap, an_active := caActiveOld,
          an_started := itoa now, an_generation := Some cid\<rparr>"
    unfolding plan_write_def rotate_plan_def generated_pem_def reencodeCertBundle_eq [of P "tls_crt s"] Let_def
    by (auto split: if_splits option.splits prod.splits)
  from v n obtain d where d: "ders P (tls_crt s) = [d]" and k: "key_for P d (tls_key s)"
    using validCAKeypair_head [OF v] by auto
  have single: "ca_single P d s" using assms(2) d v k
    by (auto simp: ca_ok_def ca_virgin_def ca_single_def ca_overlap_def validCAKeypair_def)
  have new: "key_for P (fst g) (pem_encode P (''PRIVATE KEY'', snd g))" "cert_fp P d \<noteq> cert_fp P (fst g)"
    using assms(4) g d by (simp_all add: generates_def)
  have "ca_overlap P d (fst g) s'" using new k s' d
    by (simp add: ca_overlap_def validCAKeypair_cert_pem [OF assms(1)] ders_cert_pem [OF assms(1)] ders_one [OF assms(1)])
  then show ?thesis using single s' by (intro change_rotate) auto
qed

lemma overlap_phase: "ca_ok P s \<Longrightarrow> an_phase s = caPhaseOverlap \<Longrightarrow> \<exists>old new. ca_overlap P old new s"
  by (auto simp: ca_ok_def ca_virgin_def ca_single_def)

lemma flip_write_change:
  assumes "ca_ok P s" and "plan_write (flip_plan P fp s) = Some s'"
  shows "ca_change P s s'"
proof -
  from assms(2) have p: "an_phase s = caPhaseOverlap" "an_active s \<noteq> caActiveNew" "s' = s\<lparr>an_active := caActiveNew\<rparr>"
    by (auto simp: plan_write_def flip_plan_def Let_def split: if_splits option.splits)
  from overlap_phase [OF assms(1) p(1)] obtain old new where o: "ca_overlap P old new s" by blast
  then have "ca_overlap P old new s'" using p(3) by (simp add: ca_overlap_def)
  then show ?thesis using o p by (intro change_flip [of P old new]) auto
qed

lemma trim_write_change:
  assumes "pki_ok P" and "ca_ok P s" and "plan_write (trim_plan P fp s) = Some s'"
  shows "ca_change P s s' \<and> certBundleFPs P (tls_crt s') = [fp]"
proof -
  from assms(3) obtain cid where p: "an_phase s = caPhaseOverlap" "an_active s = caActiveNew" "all_parse P (ders P (tls_crt s))"
      "last (certBundleFPs P (tls_crt s)) = fp"
      "s' = s\<lparr>tls_crt := last (map (cert_pem P) (ders P (tls_crt s))), tls_key := tls_new_key s, tls_new_key := [],
          an_phase := caPhaseTrimmed, an_active := caActiveOld, an_started := [], an_generation := Some cid\<rparr>"
    unfolding plan_write_def trim_plan_def splitCertBundle_eq by (auto simp: Let_def split: if_splits option.splits)
  from overlap_phase [OF assms(2) p(1)] obtain old new where o: "ca_overlap P old new s" by blast
  then have crt: "tls_crt s' = cert_pem P new" "tls_key s' = tls_new_key s" using p(5) by (simp_all add: ca_overlap_def)
  have "ca_single P new s'"
    using o p(5) crt by (simp add: ca_single_def ca_overlap_def ders_one [OF assms(1)] validCAKeypair_one [OF assms(1)])
  moreover have "certBundleFPs P (tls_crt s') = [fp]"
    using o p(4) by (simp add: certBundleFPs_def crt ders_one [OF assms(1)] ca_overlap_def)
  ultimately show ?thesis using o p by (auto intro: change_trim [of P old new])
qed

lemma tool_write_change:
  assumes "pki_ok P" and "ca_ok P s" and "tool_write P t gen now s = Some s'" and "generates P (ders P (tls_crt s)) gen"
  shows "ca_change P s s'"
proof (cases t)
  case ToolEnsure
  have "generates P [] gen" using assms(4) by (auto simp: generates_def split: option.splits)
  then show ?thesis using ToolEnsure assms ensure_write_change by (simp add: tool_write_def)
next
  case ToolRotate
  then show ?thesis using assms rotate_write_change by (simp add: tool_write_def)
next
  case (ToolFlip fp)
  then show ?thesis using assms flip_write_change by (simp add: tool_write_def)
next
  case (ToolTrim fp)
  then show ?thesis using assms trim_write_change by (auto simp: tool_write_def split: if_splits)
qed

lemma ca_change_ok: "ca_change P s s' \<Longrightarrow> ca_ok P s'"
  by (induction rule: ca_change.induct) (auto simp: ca_ok_def)


subsection \<open>Concurrent tools\<close>

text \<open>Any number of tool runs, interleaved at their API calls. A run reads the Secret with its resource version and
  later writes what it planned from that read; the API server accepts the write only if the version is still the
  stored one, and otherwise answers with a conflict. \<open>versions\<close> records every version ever stored, newest first.\<close>

record ca_world =
  stored :: CASecret
  rv :: nat
  reads :: "(nat \<times> CASecret) list"
  versions :: "(nat \<times> CASecret) list"

definition start_world :: "nat \<Rightarrow> CASecret \<Rightarrow> ca_world" where
  "start_world v s = \<lparr>stored = s, rv = v, reads = [], versions = [(v, s)]\<rparr>"

definition get_secret :: "ca_world \<Rightarrow> ca_world" where
  "get_secret w = w\<lparr>reads := (rv w, stored w) # reads w\<rparr>"

definition update_secret :: "nat \<Rightarrow> nat \<Rightarrow> CASecret \<Rightarrow> ca_world \<Rightarrow> ca_world" where
  "update_secret v v' s' w =
     (if v = rv w then w\<lparr>stored := s', rv := v', versions := (v', s') # versions w\<rparr> else w)"

definition all_certs :: "('c, 'k) pki \<Rightarrow> ca_world \<Rightarrow> string list" where
  "all_certs P w = concat (map (\<lambda>x. ders P (tls_crt (snd x))) (versions w))"

inductive ca_reach :: "('c, 'k) pki \<Rightarrow> ca_world \<Rightarrow> bool" for P where
  ca_start: "ca_ok P s \<Longrightarrow> ca_reach P (start_world v s)"
| ca_read: "ca_reach P w \<Longrightarrow> ca_reach P (get_secret w)"
| ca_write: "ca_reach P w \<Longrightarrow> (v, s) \<in> set (reads w) \<Longrightarrow> tool_write P t gen now s = Some s' \<Longrightarrow>
    generates P (all_certs P w) gen \<Longrightarrow> rv w < v' \<Longrightarrow> ca_reach P (update_secret v v' s' w)"

fun version_chain :: "('c, 'k) pki \<Rightarrow> (nat \<times> CASecret) list \<Rightarrow> bool" where
  "version_chain P [] \<longleftrightarrow> False"
| "version_chain P [(v, s)] \<longleftrightarrow> ca_ok P s"
| "version_chain P ((v', s') # (v, s) # older) \<longleftrightarrow> v < v' \<and> ca_change P s s' \<and> version_chain P ((v, s) # older)"

lemma version_chain_le: "version_chain P ((v', s') # older) \<Longrightarrow> (v, s) \<in> set older \<Longrightarrow> v < v'"
  by (induction "(v', s') # older" arbitrary: v' s' older rule: version_chain.induct) force+

lemma version_chain_ok: "version_chain P vs \<Longrightarrow> (v, s) \<in> set vs \<Longrightarrow> ca_ok P s"
  by (induction P vs rule: version_chain.induct) (auto simp: ca_change_ok)

definition world_inv :: "('c, 'k) pki \<Rightarrow> ca_world \<Rightarrow> bool" where
  "world_inv P w \<longleftrightarrow> version_chain P (versions w) \<and> hd (versions w) = (rv w, stored w) \<and> set (reads w) \<subseteq> set (versions w)"

lemma world_inv_hd: "world_inv P w \<Longrightarrow> \<exists>older. versions w = (rv w, stored w) # older"
  unfolding world_inv_def by (metis list.exhaust_sel version_chain.simps(1))

lemma generates_mono: "set ds \<subseteq> set ds' \<Longrightarrow> generates P ds' gen \<Longrightarrow> generates P ds gen"
  by (auto simp: generates_def list_all_iff split: option.splits)

lemma ca_reach_inv:
  assumes "pki_ok P" and "ca_reach P w"
  shows "world_inv P w"
  using assms(2)
proof (induction rule: ca_reach.induct)
  case (ca_start s v)
  then show ?case by (simp add: world_inv_def start_world_def)
next
  case (ca_read w)
  then have "(rv w, stored w) \<in> set (versions w)" using world_inv_hd by fastforce
  then show ?case using ca_read by (simp add: world_inv_def get_secret_def)
next
  case (ca_write w v s t gen now s' v')
  show ?case
  proof (cases "v = rv w")
    case True
    obtain older where vs: "versions w = (rv w, stored w) # older" using world_inv_hd ca_write by blast
    have in_vs: "(v, s) \<in> set (versions w)" using ca_write by (auto simp: world_inv_def)
    have "s = stored w"
    proof (rule ccontr)
      assume "s \<noteq> stored w"
      then have "(v, s) \<in> set older" using in_vs vs True by auto
      then show False using version_chain_le [of P "rv w" "stored w" older v s] ca_write.IH vs True by (auto simp: world_inv_def)
    qed
    moreover have "ca_ok P s" using version_chain_ok in_vs ca_write by (auto simp: world_inv_def)
    moreover have "set (ders P (tls_crt s)) \<subseteq> set (all_certs P w)" using in_vs by (force simp: all_certs_def)
    ultimately have "ca_change P (stored w) s'"
      using tool_write_change [OF assms(1)] ca_write generates_mono by blast
    then show ?thesis using True ca_write vs by (auto simp: world_inv_def update_secret_def)
  qed (use ca_write in \<open>simp add: update_secret_def\<close>)
qed


subsection \<open>No leaf loses its trust before the trim\<close>

definition trimmed_between :: "nat \<Rightarrow> nat \<Rightarrow> (nat \<times> CASecret) list \<Rightarrow> bool" where
  "trimmed_between v v' vs = list_ex (\<lambda>x. v < fst x \<and> fst x \<le> v' \<and> an_phase (snd x) = caPhaseTrimmed) vs"

lemma ca_change_trust:
  assumes "ca_change P s s'" and "an_phase s' \<noteq> caPhaseTrimmed \<or> tls_crt s = []" and "pki_ok P"
  shows "set (ders P (tls_crt s)) \<subseteq> set (ders P (tls_crt s'))"
  using assms by (induction rule: ca_change.induct) (auto simp: ca_virgin_def ca_single_def ca_overlap_def pem_blocks_Nil)

lemma version_chain_trust:
  assumes "version_chain P vs" and "pki_ok P" and "(v, s) \<in> set vs" and "(v', s') \<in> set vs" and "v \<le> v'"
    and "\<not> trimmed_between v v' vs"
  shows "set (ders P (tls_crt s)) \<subseteq> set (ders P (tls_crt s'))"
  using assms
proof (induction P vs arbitrary: v' s' rule: version_chain.induct)
  case (3 P vn sn vp sp older)
  have le: "x \<le> vp" if "(x, y) \<in> set ((vp, sp) # older)" for x y
    using that version_chain_le [of P vp sp older x y] "3.prems"(1) by auto
  have nt: "\<not> trimmed_between v w ((vp, sp) # older)" if "w \<le> v'" for w
    using "3.prems"(6) that by (auto simp: trimmed_between_def list_ex_iff dest: order_trans)
  show ?case
  proof (cases "(v', s') = (vn, sn) \<and> (v, s) \<noteq> (vn, sn)")
    case True
    then have older: "(v, s) \<in> set ((vp, sp) # older)" using "3.prems"(3) by auto
    have "v < vn" using le [OF older] "3.prems"(1) by auto
    then have "an_phase sn \<noteq> caPhaseTrimmed" using True "3.prems"(6) by (auto simp: trimmed_between_def)
    moreover have "vp \<le> v'" using True "3.prems"(1) by auto
    moreover have "set (ders P (tls_crt s)) \<subseteq> set (ders P (tls_crt sp))"
      using "3.IH" [of vp sp] "3.prems"(1,2) older le [OF older] nt [of vp] \<open>vp \<le> v'\<close> by auto
    ultimately show ?thesis using ca_change_trust [of P sp sn] True "3.prems"(1,2) by auto
  next
    case False
    show ?thesis
    proof (cases "(v', s') = (vn, sn)")
      case True
      then show ?thesis using False by auto
    next
      case neq: False
      then have new: "(v', s') \<in> set ((vp, sp) # older)" using "3.prems"(4) by auto
      then have "v < vn" using le [OF new] "3.prems"(1,5) by auto
      then have "(v, s) \<in> set ((vp, sp) # older)" using "3.prems"(3) by auto
      then show ?thesis using "3.IH" [of v' s'] "3.prems"(1,2,5) new nt [of v'] by auto
    qed
  qed
qed auto


end
