(* ===== verification/Policy_Server.thy ===== *)
theory Policy_Server
  imports Ingress_Routes Edge_CA
begin

section \<open>What the control plane serves\<close>

text \<open>
  The HTTP handlers of \<^verbatim>\<open>edgecp/server.go\<close> that distribute certificates and policies, and the certificate
  store behind the first (\<^verbatim>\<open>edgecp/certstore.go\<close>, \<^verbatim>\<open>edgecp/reload.go\<close>). A reply is its status, ETag and
  body. \<open>sha\<close> is SHA-256, \<open>sans\<close> reads the DNS names of a PEM chain's leaf, and \<open>marshal\<close> is the JSON
  encoder, \<^const>\<open>None\<close> when it fails.
\<close>

subsection \<open>Certificates\<close>

record certEntry =
  ce_chainPEM :: string
  ce_keyPEM :: string
  ce_etag :: string

record CertStore =
  cs_byName :: "certEntry gomap"
  cs_loaded :: bool
  cs_version :: string

definition NewCertStore :: "(string \<Rightarrow> string) \<Rightarrow> CertStore" where
  "NewCertStore sha = \<lparr>cs_byName = [], cs_loaded = False, cs_version = etagOfString sha []\<rparr>"

definition etagOf :: "(string \<Rightarrow> string) \<Rightarrow> string \<Rightarrow> string \<Rightarrow> string" where
  "etagOf sha chainPEM keyPEM = [CHR 34] @ hex_encode (take 16 (sha (chainPEM @ [CHR 0x00] @ keyPEM))) @ [CHR 34]"

definition add_pair ::
  "(string \<Rightarrow> string) \<Rightarrow> (string \<Rightarrow> string list) \<Rightarrow> certEntry gomap \<Rightarrow> string \<times> string \<Rightarrow> certEntry gomap" where
  "add_pair sha sans byName p =
     (let (chain, key) = p;
          e = \<lparr>ce_chainPEM = chain, ce_keyPEM = key, ce_etag = etagOf sha chain key\<rparr>
      in foldl (\<lambda>m n. AList.update (to_lower n) e m) byName (sans chain))"

definition CertStore_Set ::
  "(string \<Rightarrow> string) \<Rightarrow> (string \<Rightarrow> string list) \<Rightarrow> (string \<times> string) list \<Rightarrow> CertStore \<Rightarrow> CertStore" where
  "CertStore_Set sha sans pairs s =
     (let byName = foldl (add_pair sha sans) [] pairs
      in \<lparr>cs_byName = byName, cs_loaded = True,
          cs_version = etagOfString sha (writeSortedMap (map (\<lambda>(n, e). (n, ce_etag e)) byName))\<rparr>)"

definition CertStore_Get :: "CertStore \<Rightarrow> string \<Rightarrow> certEntry option" where
  "CertStore_Get s sni =
     (let name = to_lower (trim_suffix sni ''.'') in
      if name = [] then None
      else case map_of (cs_byName s) name of
        Some e \<Rightarrow> Some e
      | None \<Rightarrow>
          (case index_byte (CHR ''.'') name of
             Some i \<Rightarrow> map_of (cs_byName s) (''*'' @ drop i name)
           | None \<Rightarrow> None))"

definition cert_reload ::
  "(string \<Rightarrow> string) \<Rightarrow> (string \<Rightarrow> string list) \<Rightarrow> string \<Rightarrow> Secret list option \<Rightarrow> CertStore \<Rightarrow> bool \<times> CertStore" where
  "cert_reload sha sans skipSecret listed s =
     (case listed of
        None \<Rightarrow> (False, s)
      | Some secrets \<Rightarrow>
          let kept = filter (\<lambda>x. \<not> (skipSecret \<noteq> [] \<and> sec_name x = skipSecret) \<and> sec_type x = secretTypeTLS \<and> sec_crt x \<noteq> []) secrets
          in (True, CertStore_Set sha sans (map (\<lambda>x. (sec_crt x, sec_key x)) kept) s))"

subsection \<open>Requests\<close>

definition bearer :: "string \<Rightarrow> string option" where
  "bearer h =
     (let p = ''Bearer '' in
      if length h \<le> length p \<or> to_lower (take (length p) h) \<noteq> to_lower p then None
      else Some (trim_space (drop (length p) h)))"

definition etagMatch :: "string \<Rightarrow> string \<Rightarrow> bool" where
  "etagMatch ifNoneMatch etag =
     list_ex (\<lambda>tok. trim_space tok = ''*'' \<or> trim_space tok = etag) (split_byte (CHR '','') ifNoneMatch)"

datatype 'b reply =
    Unauthorized
  | Forbidden
  | BadRequest
  | NotFound
  | ServerError
  | Unavailable
  | NotModified string
  | OK string 'b

text \<open>The signer the server currently holds, with its generation; \<open>SetSigner\<close> ignores a generation that is not newer.\<close>

record signerGen =
  sg_signer :: Signer
  sg_gen :: nat

definition SetSigner :: "Signer \<Rightarrow> nat \<Rightarrow> signerGen option \<Rightarrow> signerGen option" where
  "SetSigner sg generation st =
     (case st of
        Some cur \<Rightarrow> if generation \<le> sg_gen cur then st else Some \<lparr>sg_signer = sg, sg_gen = generation\<rparr>
      | None \<Rightarrow> Some \<lparr>sg_signer = sg, sg_gen = generation\<rparr>)"

definition currentSignerKey :: "signerGen option \<Rightarrow> string \<times> string" where
  "currentSignerKey st = (case st of None \<Rightarrow> ([], []) | Some g \<Rightarrow> (signer_caID (sg_signer g), activeFP (sg_signer g)))"

definition handleHealthz :: "bool \<Rightarrow> CertStore \<Rightarrow> bool \<Rightarrow> signerGen option \<Rightarrow> unit reply" where
  "handleHealthz ready certs issuanceExpected st =
     (if ready \<and> \<not> cs_loaded certs then Unavailable
      else if ready \<and> issuanceExpected \<and> Option.is_none st then Unavailable
      else OK [] ())"

definition handleCert :: "Authz \<Rightarrow> CertStore \<Rightarrow> string \<Rightarrow> string \<Rightarrow> string \<Rightarrow> (string \<times> string) reply" where
  "handleCert authz certs authorization sni ifNoneMatch =
     (case bearer authorization of
        None \<Rightarrow> Unauthorized
      | Some token \<Rightarrow>
          if \<not> Known authz token then Unauthorized
          else if sni = [] then BadRequest
          else if \<not> Allowed authz token sni then Forbidden
          else case CertStore_Get certs sni of
            None \<Rightarrow> NotFound
          | Some entry \<Rightarrow>
              if ifNoneMatch \<noteq> [] \<and> etagMatch ifNoneMatch (ce_etag entry) then NotModified (ce_etag entry)
              else OK (ce_etag entry) (ce_chainPEM entry, ce_keyPEM entry))"

text \<open>The part the five policy handlers share: authorisation, a disabled store, the scoped payload, the ETag over
  the payload with generation zero, and the conditional reply. \<open>payload\<close> scopes the store for the
  caller's hosts and \<open>zero\<close> clears the generation.\<close>

definition policy_reply ::
  "(string \<Rightarrow> string) \<Rightarrow> ('p \<Rightarrow> string option) \<Rightarrow> ('p \<Rightarrow> 'p) \<Rightarrow> Authz \<Rightarrow> 's option \<Rightarrow> ((string \<Rightarrow> bool) \<Rightarrow> 's \<Rightarrow> 'p)
    \<Rightarrow> string \<Rightarrow> string \<Rightarrow> string reply" where
  "policy_reply sha marshal zero authz store payload authorization ifNoneMatch =
     (case bearer authorization of
        None \<Rightarrow> Unauthorized
      | Some token \<Rightarrow>
          if \<not> Known authz token then Unauthorized
          else case store of
            None \<Rightarrow> NotFound
          | Some s \<Rightarrow>
              let resp = payload (Allowed authz token) s in
              case marshal resp of
                None \<Rightarrow> ServerError
              | Some body \<Rightarrow>
                  (case marshal (zero resp) of
                     None \<Rightarrow> ServerError
                   | Some etagBody \<Rightarrow>
                       let etag = etagOfString sha etagBody in
                       if ifNoneMatch \<noteq> [] \<and> etagMatch ifNoneMatch etag then NotModified etag else OK etag body))"

record wafResponse = "string snapshot" +
  wr_CAID :: string
  wr_SigningFP :: string

definition waf_payload :: "signerGen option \<Rightarrow> (string \<Rightarrow> bool) \<Rightarrow> string policy_store \<Rightarrow> wafResponse" where
  "waf_payload signer allow s =
     (let snap = WafStore_scoped allow s; (caID, activeFP) = currentSignerKey signer
      in \<lparr>sn_gen = sn_gen snap, sn_global = sn_global snap, sn_zones = sn_zones snap, sn_hostZone = sn_hostZone snap,
          sn_routeZone = sn_routeZone snap, sn_hosts = [], wr_CAID = caID, wr_SigningFP = activeFP\<rparr>)"

definition zero_gen :: "('d, 'x) snapshot_scheme \<Rightarrow> ('d, 'x) snapshot_scheme" where
  "zero_gen p = p\<lparr>sn_gen := 0\<rparr>"

definition handleWAF ::
  "(string \<Rightarrow> string) \<Rightarrow> (wafResponse \<Rightarrow> string option) \<Rightarrow> Authz \<Rightarrow> signerGen option \<Rightarrow> string policy_store option
    \<Rightarrow> string \<Rightarrow> string \<Rightarrow> string reply" where
  "handleWAF sha marshal authz signer store authorization ifNoneMatch =
     policy_reply sha marshal zero_gen authz store (waf_payload signer) authorization ifNoneMatch"

definition handleCoraza ::
  "(string \<Rightarrow> string) \<Rightarrow> (string snapshot \<Rightarrow> string option) \<Rightarrow> Authz \<Rightarrow> string policy_store option \<Rightarrow> string \<Rightarrow> string \<Rightarrow> string reply" where
  "handleCoraza sha marshal authz store authorization ifNoneMatch =
     policy_reply sha marshal zero_gen authz store CorazaStore_scoped authorization ifNoneMatch"

definition handleRateLimit ::
  "(string \<Rightarrow> string) \<Rightarrow> (string list snapshot \<Rightarrow> string option) \<Rightarrow> Authz \<Rightarrow> string list policy_store option \<Rightarrow> string \<Rightarrow> string
    \<Rightarrow> string reply" where
  "handleRateLimit sha marshal authz store authorization ifNoneMatch =
     policy_reply sha marshal zero_gen authz store RateLimitStore_scoped authorization ifNoneMatch"

definition handleCache ::
  "(string \<Rightarrow> string) \<Rightarrow> (string list snapshot \<Rightarrow> string option) \<Rightarrow> Authz \<Rightarrow> string list policy_store option \<Rightarrow> string \<Rightarrow> string
    \<Rightarrow> string reply" where
  "handleCache sha marshal authz store authorization ifNoneMatch =
     policy_reply sha marshal zero_gen authz store CacheStore_scoped authorization ifNoneMatch"

definition handleHosts ::
  "(string \<Rightarrow> string) \<Rightarrow> (nat \<times> string list \<Rightarrow> string option) \<Rightarrow> Authz \<Rightarrow> HostsStore option \<Rightarrow> string \<Rightarrow> string \<Rightarrow> string reply" where
  "handleHosts sha marshal authz store authorization ifNoneMatch =
     policy_reply sha marshal (\<lambda>(g, hs). (0, hs)) authz store HostsStore_scoped authorization ifNoneMatch"

end
