(* ===== verification/Float64.thy ===== *)
theory Float64
  imports Go_Prelude "HOL-Library.Log_Nat"
begin

text \<open>
  Go's \<^verbatim>\<open>float64\<close> as the rational numbers it denotes: every arithmetic operation is the exact
  operation followed by \<open>fl64\<close>, rounding to the nearest 53-bit significand with ties to even, as
  IEEE 754 prescribes. The exponent is not bounded: the values of this program are sums and
  quotients of 64-bit integers, far from the range where a double overflows or becomes subnormal.
  The lemmas are the facts the clients use: rounding is monotone and keeps the integers up to
  \<open>2 ^ 53\<close>.
\<close>

definition round_even :: "rat \<Rightarrow> int" where
  "round_even x =
     (let f = \<lfloor>x\<rfloor>; r = x - of_int f in
      if r < 1 / 2 then f else if r > 1 / 2 then f + 1 else if even f then f else f + 1)"

definition ilog2 :: "rat \<Rightarrow> int" where
  "ilog2 x =
     (let (p, q) = quotient_of x; k = bitlen p - bitlen q in if 2 powi k \<le> x then k else k - 1)"

definition fl64 :: "rat \<Rightarrow> rat" where
  "fl64 x =
     (if x = 0 then 0
      else let u = 2 powi (ilog2 \<bar>x\<bar> - 52) in of_int (round_even (x / u)) * u)"

lemma round_even_bounds: "\<lfloor>x\<rfloor> \<le> round_even x \<and> round_even x \<le> \<lfloor>x\<rfloor> + 1"
  by (simp add: round_even_def Let_def)

lemma round_even_int [simp]: "round_even (of_int n) = n"
  by (simp add: round_even_def)

lemma round_even_mono:
  assumes "x \<le> y"
  shows "round_even x \<le> round_even y"
proof (cases "\<lfloor>x\<rfloor> = \<lfloor>y\<rfloor>")
  case True
  then show ?thesis using assms by (auto simp: round_even_def Let_def)
next
  case False
  then have "\<lfloor>x\<rfloor> + 1 \<le> \<lfloor>y\<rfloor>" using floor_mono [OF assms] by linarith
  then show ?thesis using round_even_bounds [of x] round_even_bounds [of y] by linarith
qed

lemma powi_two_mono: "a \<le> b \<Longrightarrow> (2::rat) powi a \<le> 2 powi b"
  by (simp add: power_int_increasing)

lemma powi_two_pos: "0 < (2::rat) powi a"
  by simp

lemma powi_two_add: "(2::rat) powi (a + b) = 2 powi a * 2 powi b"
  by (simp add: power_int_add)

lemma bitlen_powi:
  assumes "0 < n"
  shows "2 powi (bitlen n - 1) \<le> (of_int n :: rat) \<and> (of_int n :: rat) < 2 powi bitlen n"
proof -
  have b: "2 ^ nat (bitlen n - 1) \<le> n" "n < 2 ^ nat (bitlen n)" using bitlen_bounds [OF assms] by auto
  have p: "0 < bitlen n" using assms by (simp add: bitlen_def compute_floorlog)
  have "(2::rat) powi (bitlen n - 1) = of_int (2 ^ nat (bitlen n - 1))"
    "(2::rat) powi bitlen n = of_int (2 ^ nat (bitlen n))"
    using p by (simp_all add: power_int_def)
  then show ?thesis using b by (metis of_int_le_iff of_int_less_iff)
qed

lemma ilog2_bounds:
  assumes "0 < x"
  shows "2 powi ilog2 x \<le> x \<and> x < 2 powi (ilog2 x + 1)"
proof -
  obtain p q where pq: "quotient_of x = (p, q)" by (cases "quotient_of x")
  have q: "0 < q" using quotient_of_denom_pos [OF pq] .
  have x: "x = of_int p / of_int q" using quotient_of_div [OF pq] .
  have p: "0 < p" using assms q by (simp add: x zero_less_divide_iff)
  let ?k = "bitlen p - bitlen q"
  have bp: "2 powi (bitlen p - 1) \<le> (of_int p :: rat)" "(of_int p :: rat) < 2 powi bitlen p"
    and bq: "2 powi (bitlen q - 1) \<le> (of_int q :: rat)" "(of_int q :: rat) < 2 powi bitlen q"
    using bitlen_powi [OF p] bitlen_powi [OF q] by auto
  have up: "x < 2 powi (?k + 1)"
  proof -
    have "2 powi bitlen p = 2 powi (?k + 1) * (2::rat) powi (bitlen q - 1)"
      by (simp flip: powi_two_add)
    also have "\<dots> \<le> 2 powi (?k + 1) * of_int q" using bq(1) by (simp add: mult_left_mono)
    finally show ?thesis using bp(2) q by (simp add: x pos_divide_less_eq)
  qed
  have lo: "2 powi (?k - 1) \<le> x"
  proof -
    have "2 powi (?k - 1) * of_int q \<le> 2 powi (?k - 1) * (2::rat) powi bitlen q"
      using bq(2) by (simp add: mult_left_mono)
    also have "\<dots> = 2 powi (bitlen p - 1)" by (simp flip: powi_two_add)
    finally show ?thesis using bp(1) q by (simp add: x pos_le_divide_eq)
  qed
  show ?thesis using up lo by (simp add: ilog2_def pq Let_def)
qed

lemma ilog2_mono:
  assumes "0 < x" and "x \<le> y"
  shows "ilog2 x \<le> ilog2 y"
proof (rule ccontr)
  assume "\<not> ?thesis"
  then have "(2::rat) powi (ilog2 y + 1) \<le> 2 powi ilog2 x" by (simp add: powi_two_mono)
  then show False using ilog2_bounds [of x] ilog2_bounds [of y] assms by linarith
qed

lemma fl64_zero [simp]: "fl64 0 = 0"
  by (simp add: fl64_def)

lemma fl64_scaled:
  assumes "0 < x"
  shows "2 ^ 52 \<le> x / 2 powi (ilog2 x - 52) \<and> x / 2 powi (ilog2 x - 52) < 2 ^ 53"
proof -
  have "(2::rat) powi ilog2 x = 2 ^ 52 * 2 powi (ilog2 x - 52)"
    "(2::rat) powi (ilog2 x + 1) = 2 ^ 53 * 2 powi (ilog2 x - 52)"
    by (simp_all add: power_int_add power_int_diff)
  then show ?thesis using ilog2_bounds [OF assms] by (simp add: pos_le_divide_eq pos_divide_less_eq)
qed

lemma fl64_range:
  assumes "0 < x"
  shows "2 powi ilog2 x \<le> fl64 x \<and> fl64 x \<le> 2 powi (ilog2 x + 1)"
proof -
  let ?u = "(2::rat) powi (ilog2 x - 52)" and ?r = "round_even (x / 2 powi (ilog2 x - 52))"
  have "round_even (of_int (2 ^ 52)) \<le> ?r" "?r \<le> round_even (of_int (2 ^ 53))"
    using fl64_scaled [OF assms] by (auto intro!: round_even_mono)
  then have "2 ^ 52 \<le> ?r" "?r \<le> 2 ^ 53" by (simp_all only: round_even_int)
  then have "of_int (2 ^ 52) \<le> (of_int ?r :: rat)" "(of_int ?r :: rat) \<le> of_int (2 ^ 53)"
    by (simp_all only: of_int_le_iff)
  then have "2 ^ 52 * ?u \<le> of_int ?r * ?u" "of_int ?r * ?u \<le> 2 ^ 53 * ?u"
    by (simp_all add: mult_right_mono)
  then show ?thesis using assms by (simp add: fl64_def power_int_add power_int_diff)
qed

lemma fl64_nonneg: "0 \<le> x \<Longrightarrow> 0 \<le> fl64 x"
  using fl64_range [of x] powi_two_pos [of "ilog2 x"] by (cases "x = 0") (simp, linarith)

lemma fl64_mono:
  assumes "0 \<le> x" and "x \<le> y"
  shows "fl64 x \<le> fl64 y"
proof (cases "x = 0")
  case True
  then show ?thesis using assms fl64_nonneg [of y] by simp
next
  case False
  then have x: "0 < x" and y: "0 < y" using assms by auto
  show ?thesis
  proof (cases "ilog2 x = ilog2 y")
    case True
    then show ?thesis using x y assms(2)
      by (simp add: fl64_def Let_def mult_right_mono round_even_mono divide_right_mono)
  next
    case False
    then have "ilog2 x + 1 \<le> ilog2 y" using ilog2_mono [OF x assms(2)] by linarith
    then have "(2::rat) powi (ilog2 x + 1) \<le> 2 powi ilog2 y" by (rule powi_two_mono)
    then show ?thesis using fl64_range [OF x] fl64_range [OF y] by linarith
  qed
qed

lemma fl64_of_int:
  assumes "0 \<le> n" and "n \<le> 2 ^ 53"
  shows "fl64 (of_int n) = of_int n"
proof (cases "n = 0")
  case False
  define x :: rat where "x = of_int n"
  have x: "0 < x" using assms False by (simp add: x_def)
  let ?u = "(2::rat) powi (ilog2 x - 52)"
  have "\<exists>m. x / ?u = of_int m"
  proof (cases "ilog2 x \<le> 52")
    case True
    then have "x / ?u = of_int (n * 2 ^ nat (52 - ilog2 x))"
      by (simp add: x_def power_int_def field_simps)
    then show ?thesis by blast
  next
    case False
    then have "(2::rat) powi 53 \<le> 2 powi ilog2 x" by (intro powi_two_mono) simp
    then have "2 ^ 53 \<le> x" using ilog2_bounds [OF x] by simp
    moreover have "x \<le> 2 ^ 53" using assms(2) unfolding x_def
      by (metis of_int_le_iff of_int_numeral of_int_power)
    ultimately have xe: "x = 2 ^ 53" by simp
    have "ilog2 x \<le> 53"
    proof (rule ccontr)
      assume "\<not> ?thesis"
      then have "(2::rat) powi 54 \<le> 2 powi ilog2 x" by (intro powi_two_mono) simp
      then show False using ilog2_bounds [OF x] xe by simp
    qed
    with False have "ilog2 x = 53" by simp
    then have "x / ?u = of_int (2 ^ 52)" using xe by (simp add: power_int_def)
    then show ?thesis by blast
  qed
  then obtain m where m: "x / ?u = of_int m" by blast
  then have "fl64 x = x / ?u * ?u" using x by (simp add: fl64_def)
  then show ?thesis by (simp add: x_def)
qed simp

lemma fl64_of_nat [simp]: "n \<le> 2 ^ 53 \<Longrightarrow> fl64 (of_nat n) = of_nat n"
  using fl64_of_int [of "int n"] by simp

end
