(* ===== verification/Sliding_Window.thy ===== *)
theory Sliding_Window
  imports Float64 "HOL-Library.Signed_Division"
begin

text \<open>
  The sliding-window-counter strategy of \<^verbatim>\<open>ratelimitrule/slidingwindow.go\<close>: two generations of
  per-key counts, \<open>roll\<close>, \<open>Take\<close>, \<open>After\<close>, and the float arithmetic of \<open>weightedCount\<close> and
  \<open>afterAt\<close>. The mutex makes every call atomic, so a call is one function on the state; the clock
  reading of the call is an argument, and nothing is assumed of its order.

  The definitions take the rounding \<open>fl\<close> of a floating-point operation as a parameter. The program
  is the instance \<open>fl64\<close>; the instance \<open>id\<close> is the same formulas over exact numbers. The locale
  \<open>rounding\<close> holds what both have. Proved: \<open>Take\<close> decides exactly as a limiter that remembers the
  whole history of admitted requests (and so never admits more than \<open>max\<close> per key and fixed
  window), a key once admissible stays so, and \<open>After\<close> is never too optimistic.
\<close>

record sliding =
  window :: int
  cur :: "string \<rightharpoonup> int"
  prev :: "string \<rightharpoonup> int"
  max_tokens :: int
  size_ns :: int

definition newSlidingWindow :: "int \<Rightarrow> duration \<Rightarrow> sliding" where
  "newSlidingWindow rate win =
     \<lparr>window = 0, cur = Map.empty, prev = Map.empty, max_tokens = rate, size_ns = win\<rparr>"

text \<open>A Go map of ints read at a missing key gives 0.\<close>

definition read_count :: "(string \<rightharpoonup> int) \<Rightarrow> string \<Rightarrow> int" where
  "read_count m k = (case m k of None \<Rightarrow> 0 | Some n \<Rightarrow> n)"

definition roll :: "sliding \<Rightarrow> int \<Rightarrow> sliding" where
  "roll s currentWindow =
     (let d = currentWindow - window s in
      if d \<le> 0 then s
      else if d = 1 then s\<lparr>prev := cur s, cur := Map.empty, window := currentWindow\<rparr>
      else s\<lparr>cur := Map.empty, prev := Map.empty, window := currentWindow\<rparr>)"

definition elapsed_frac :: "(rat \<Rightarrow> rat) \<Rightarrow> time \<Rightarrow> int \<Rightarrow> rat" where
  "elapsed_frac fl now sz = fl (fl (of_int (now smod sz)) / fl (of_int sz))"

definition weightedCount :: "(rat \<Rightarrow> rat) \<Rightarrow> int \<Rightarrow> int \<Rightarrow> time \<Rightarrow> int \<Rightarrow> rat" where
  "weightedCount fl pre cu now sz =
     fl (fl (fl (of_int pre) * fl (1 - elapsed_frac fl now sz)) + fl (of_int cu))"

definition Take :: "(rat \<Rightarrow> rat) \<Rightarrow> sliding \<Rightarrow> time \<Rightarrow> string \<Rightarrow> bool \<times> sliding" where
  "Take fl s now key =
     (let r = roll s (now sdiv size_ns s);
          pre = read_count (prev r) key;
          cu = read_count (cur r) key
      in if fl (weightedCount fl pre cu now (size_ns s) + 1) > fl (of_int (max_tokens s))
         then (False, r)
         else (True, r\<lparr>cur := (cur r)(key \<mapsto> cu + 1)\<rparr>))"

text \<open>\<^verbatim>\<open>time.Duration(f)\<close>: conversion of a float to an integer truncates towards zero.\<close>

definition trunc_int :: "rat \<Rightarrow> int" where
  "trunc_int x = (if 0 \<le> x then \<lfloor>x\<rfloor> else \<lceil>x\<rceil>)"

definition afterAt :: "(rat \<Rightarrow> rat) \<Rightarrow> int \<Rightarrow> int \<Rightarrow> int \<Rightarrow> int \<Rightarrow> time \<Rightarrow> duration" where
  "afterAt fl maxTokens pre cu sz now =
     (if fl (weightedCount fl pre cu now sz + 1) \<le> fl (of_int maxTokens) then 0
      else
        let curFrac = elapsed_frac fl now sz;
            toBoundary = (now sdiv sz + 1) * sz - now;
            targetFrac = fl (1 - fl (fl (fl (fl (of_int maxTokens) - fl (of_int cu)) - 1) / fl (of_int pre)))
        in if pre > 0 \<and> cu + 1 \<le> maxTokens \<and> targetFrac > curFrac \<and> targetFrac < 1
           then trunc_int (fl (fl (targetFrac - curFrac) * fl (of_int sz))) + 1
           else if cu + 1 \<le> maxTokens then toBoundary
           else if maxTokens \<le> 0 then toBoundary
           else
             let nextFrac = fl (1 - fl (fl (fl (of_int maxTokens) - 1) / fl (of_int cu)))
             in toBoundary + trunc_int (fl (nextFrac * fl (of_int sz))) + 1)"

text \<open>The two counts \<open>After\<close> reads, rolled on locals only.\<close>

definition peek :: "sliding \<Rightarrow> int \<Rightarrow> string \<Rightarrow> int \<times> int" where
  "peek s currentWindow key =
     (let d = currentWindow - window s in
      if d \<le> 0 then (read_count (prev s) key, read_count (cur s) key)
      else if d = 1 then (read_count (cur s) key, 0)
      else (0, 0))"

definition After :: "(rat \<Rightarrow> rat) \<Rightarrow> sliding \<Rightarrow> time \<Rightarrow> string \<Rightarrow> duration" where
  "After fl s now key =
     (let (pre, cu) = peek s (now sdiv size_ns s) key
      in afterAt fl (max_tokens s) pre cu (size_ns s) now)"

subsection \<open>Rolling\<close>

lemma newSlidingWindow_config [simp]:
  "max_tokens (newSlidingWindow rate sz) = rate" "size_ns (newSlidingWindow rate sz) = sz"
  "window (newSlidingWindow rate sz) = 0"
  by (simp_all add: newSlidingWindow_def)

text \<open>Go's truncated division is floor division on the non-negative clock.\<close>

lemma sdiv_nonneg:
  assumes "0 \<le> a" and "0 < (b :: int)"
  shows "a sdiv b = a div b" and "a smod b = a mod b"
proof -
  show d: "a sdiv b = a div b" using assms by (simp add: signed_divide_int_def sgn_if)
  show "a smod b = a mod b" by (simp add: minus_sdiv_mult_eq_smod [symmetric] d minus_div_mult_eq_mod)
qed

lemma read_count_simps [simp]:
  "read_count Map.empty k = 0"
  "read_count (m(k \<mapsto> n)) k' = (if k' = k then n else read_count m k')"
  by (simp_all add: read_count_def)

lemma roll_config [simp]:
  "max_tokens (roll s w) = max_tokens s" "size_ns (roll s w) = size_ns s"
  "window (roll s w) = max w (window s)"
  by (auto simp: roll_def Let_def)

lemma roll_back: "w \<le> window s \<Longrightarrow> roll s w = s"
  by (simp add: roll_def)

lemma peek_roll: "peek s w k = (read_count (prev (roll s w)) k, read_count (cur (roll s w)) k)"
  by (auto simp: peek_def roll_def Let_def)

lemma peek_later:
  assumes "window s \<le> w"
  shows "peek s (w + 1) k = (snd (peek s w k), 0)" and "w + 2 \<le> w' \<Longrightarrow> peek s w' k = (0, 0)"
  using assms by (auto simp: peek_def Let_def)

lemma Take_fst:
  "fst (Take fl s now k) \<longleftrightarrow>
     fl (weightedCount fl (fst (peek s (now sdiv size_ns s) k)) (snd (peek s (now sdiv size_ns s) k))
       now (size_ns s) + 1) \<le> fl (of_int (max_tokens s))"
  by (simp add: Take_def Let_def peek_roll not_less)

lemma Take_snd:
  "snd (Take fl s now k) =
     (let r = roll s (now sdiv size_ns s)
      in if fst (Take fl s now k) then r\<lparr>cur := (cur r)(k \<mapsto> read_count (cur r) k + 1)\<rparr> else r)"
  by (simp add: Take_def Let_def)

lemma Take_config [simp]:
  "max_tokens (snd (Take fl s now k)) = max_tokens s"
  "size_ns (snd (Take fl s now k)) = size_ns s"
  "window (snd (Take fl s now k)) = max (now sdiv size_ns s) (window s)"
  by (simp_all add: Take_snd Let_def)

subsection \<open>The history a limiter should remember\<close>

text \<open>
  The specification keeps every admitted request with the window it was counted in, and the highest
  window seen. A request counts into the highest window seen (a clock that steps back does not
  reopen an earlier one) and weighs the admissions of that window and of the one before.
\<close>

definition admitted :: "(int \<times> string) list \<Rightarrow> int \<Rightarrow> string \<Rightarrow> int" where
  "admitted h w k = int (count_list h (w, k))"

definition history_take ::
  "(rat \<Rightarrow> rat) \<Rightarrow> int \<Rightarrow> int \<Rightarrow> int \<times> (int \<times> string) list \<Rightarrow> time \<Rightarrow> string
    \<Rightarrow> bool \<times> (int \<times> (int \<times> string) list)" where
  "history_take fl rate sz st now k =
     (let (hw, h) = st;
          w = max (now sdiv sz) hw;
          ok = fl (weightedCount fl (admitted h (w - 1) k) (admitted h w k) now sz + 1) \<le> fl (of_int rate)
      in (ok, (w, if ok then (w, k) # h else h)))"

fun decisions :: "('s \<Rightarrow> time \<Rightarrow> string \<Rightarrow> bool \<times> 's) \<Rightarrow> 's \<Rightarrow> (time \<times> string) list \<Rightarrow> bool list \<times> 's" where
  "decisions tk s [] = ([], s)"
| "decisions tk s ((now, k) # calls) =
     (let (ok, s') = tk s now k; (oks, s'') = decisions tk s' calls in (ok # oks, s''))"

definition remembers :: "sliding \<Rightarrow> int \<times> (int \<times> string) list \<Rightarrow> bool" where
  "remembers s st \<longleftrightarrow>
     (case st of (hw, h) \<Rightarrow>
        window s = hw \<and> (\<forall>k. read_count (cur s) k = admitted h hw k) \<and>
        (\<forall>k. read_count (prev s) k = admitted h (hw - 1) k) \<and> (\<forall>p \<in> set h. fst p \<le> hw))"

lemma admitted_simps [simp]:
  "admitted [] w k = 0"
  "admitted (p # h) w k = admitted h w k + (if p = (w, k) then 1 else 0)"
  by (simp_all add: admitted_def)

lemma admitted_none: "\<forall>p \<in> set h. fst p \<le> hw \<Longrightarrow> hw < w \<Longrightarrow> admitted h w k = 0"
  by (force simp: admitted_def count_list_0_iff)

lemma admitted_nonneg: "0 \<le> admitted h w k"
  by (simp add: admitted_def)

lemma remembers_roll:
  assumes "remembers s (hw, h)"
  shows "remembers (roll s w) (max w hw, h)"
proof -
  consider "w \<le> hw" | "w = hw + 1" | "w \<ge> hw + 2" by linarith
  then show ?thesis
  proof cases
    case 1
    then show ?thesis using assms by (simp add: remembers_def roll_back max_def)
  next
    case 2
    then show ?thesis using assms
      by (auto simp: remembers_def roll_def admitted_none [of h hw])
  next
    case 3
    then show ?thesis using assms
      by (auto simp: remembers_def roll_def Let_def admitted_none [of h hw])
  qed
qed

lemma history_take_simp:
  assumes "remembers s (hw, h)"
  shows "fst (history_take fl (max_tokens s) (size_ns s) (hw, h) now k) = fst (Take fl s now k)"
    and "remembers (snd (Take fl s now k)) (snd (history_take fl (max_tokens s) (size_ns s) (hw, h) now k))"
proof -
  let ?w = "now sdiv size_ns s"
  have r: "remembers (roll s ?w) (max ?w hw, h)" by (rule remembers_roll [OF assms])
  then have p: "peek s ?w k = (admitted h (max ?w hw - 1) k, admitted h (max ?w hw) k)"
    by (simp add: peek_roll remembers_def)
  show e: "fst (history_take fl (max_tokens s) (size_ns s) (hw, h) now k) = fst (Take fl s now k)"
    by (simp add: history_take_def Take_fst p Let_def)
  have "snd (history_take fl (max_tokens s) (size_ns s) (hw, h) now k) =
      (max ?w hw, if fst (Take fl s now k) then (max ?w hw, k) # h else h)"
    unfolding e [symmetric] by (simp add: history_take_def Let_def)
  then show "remembers (snd (Take fl s now k)) (snd (history_take fl (max_tokens s) (size_ns s) (hw, h) now k))"
    using r by (simp add: Take_snd Let_def remembers_def)
qed

lemma decisions_refine:
  assumes "remembers s st"
  shows "fst (decisions (Take fl) s calls) =
      fst (decisions (history_take fl (max_tokens s) (size_ns s)) st calls) \<and>
    remembers (snd (decisions (Take fl) s calls))
      (snd (decisions (history_take fl (max_tokens s) (size_ns s)) st calls))"
  using assms
proof (induction calls arbitrary: s st)
  case (Cons c calls)
  obtain now k where c: "c = (now, k)" by (cases c)
  obtain hw h where st: "st = (hw, h)" by (cases st)
  let ?s = "snd (Take fl s now k)" and ?h = "snd (history_take fl (max_tokens s) (size_ns s) st now k)"
  have "remembers ?s ?h" using history_take_simp(2) Cons.prems by (simp add: st)
  from Cons.IH [OF this]
  show ?case using history_take_simp(1) [of s hw h fl now k] Cons.prems
    by (simp add: split_def Let_def st c)
qed simp

text \<open>C17. After any sequence of calls, at any clock readings (steps back included), the two-generation
  counters decide every request exactly as a limiter that remembers all admitted requests and the
  window each was counted in.\<close>
theorem sliding_refines_history:
  "fst (decisions (Take fl64) (newSlidingWindow rate sz) calls) =
   fst (decisions (history_take fl64 rate sz) (0, []) calls)"
  using decisions_refine [of "newSlidingWindow rate sz" "(0, [])" fl64 calls]
  by (simp add: newSlidingWindow_def remembers_def)


subsection \<open>What float64 and exact arithmetic share\<close>

locale rounding =
  fixes fl :: "rat \<Rightarrow> rat"
  assumes fl_mono: "0 \<le> x \<Longrightarrow> x \<le> y \<Longrightarrow> fl x \<le> fl y"
    and fl_int: "0 \<le> n \<Longrightarrow> n \<le> 2 ^ 53 \<Longrightarrow> fl (of_int n) = of_int n"
begin

lemma fl_0 [simp]: "fl 0 = 0"
  using fl_int [of 0] by simp

lemma fl_1 [simp]: "fl 1 = 1"
  using fl_int [of 1] by simp

lemma fl_nonneg: "0 \<le> x \<Longrightarrow> 0 \<le> fl x"
  using fl_mono [of 0 x] by simp

lemma fl_le_int: "0 \<le> x \<Longrightarrow> x \<le> of_int n \<Longrightarrow> 0 \<le> n \<Longrightarrow> n \<le> 2 ^ 53 \<Longrightarrow> fl x \<le> of_int n"
  using fl_mono [of x "of_int n"] fl_int [of n] by simp

lemma int_le_fl: "of_int n \<le> x \<Longrightarrow> 0 \<le> n \<Longrightarrow> n \<le> 2 ^ 53 \<Longrightarrow> of_int n \<le> fl x"
  using fl_mono [of "of_int n" x] fl_int [of n] by simp

lemma elapsed_mono:
  assumes "0 \<le> a" and "a \<le> b" and "b \<le> c" and "0 < c"
  shows "fl (fl a / fl c) \<le> fl (fl b / fl c) \<and> 0 \<le> fl (fl a / fl c) \<and> fl (fl b / fl c) \<le> 1"
proof -
  have "0 \<le> fl a" "fl a \<le> fl b" "fl b \<le> fl c" using assms by (auto intro: fl_mono fl_nonneg)
  then have "0 \<le> fl a / fl c" "fl a / fl c \<le> fl b / fl c" "fl b / fl c \<le> 1"
    by (auto intro: divide_right_mono simp: divide_le_eq_1)
  then show ?thesis
    using fl_mono [of "fl a / fl c" "fl b / fl c"] fl_nonneg [of "fl a / fl c"]
      fl_mono [of "fl b / fl c" 1] by simp
qed

lemma elapsed_frac_range:
  assumes "0 \<le> now" and "0 < sz"
  shows "0 \<le> elapsed_frac fl now sz \<and> elapsed_frac fl now sz \<le> 1"
proof -
  have "0 \<le> now smod sz" "now smod sz \<le> sz" using assms by (simp_all add: sdiv_nonneg less_imp_le)
  then show ?thesis using elapsed_mono [of "of_int (now smod sz)" "of_int (now smod sz)" "of_int sz"] assms(2)
    by (simp add: elapsed_frac_def)
qed

text \<open>The faded part of the previous window lies between 0 and its count.\<close>

lemma faded_range:
  assumes "0 \<le> e" and "e \<le> 1" and "0 \<le> pre" and "pre \<le> 2 ^ 53"
  shows "0 \<le> fl (fl (of_int pre) * fl (1 - e)) \<and> fl (fl (of_int pre) * fl (1 - e)) \<le> of_int pre"
proof -
  have f: "0 \<le> fl (1 - e)" "fl (1 - e) \<le> 1" using assms fl_nonneg fl_mono [of "1 - e" 1] by auto
  then have "of_int pre * fl (1 - e) \<le> of_int pre" using assms(3) by (simp add: mult_left_le)
  then show ?thesis using f assms(3,4) fl_int [of pre] by (simp add: fl_nonneg fl_le_int)
qed

lemma weightedCount_ge:
  assumes "0 \<le> now" and "0 < sz" and "0 \<le> pre" and "pre \<le> 2 ^ 53" and "0 \<le> cu" and "cu \<le> 2 ^ 53"
  shows "of_int cu \<le> weightedCount fl pre cu now sz"
  unfolding weightedCount_def fl_int [OF assms(5,6)]
  using assms faded_range [of "elapsed_frac fl now sz" pre] elapsed_frac_range [OF assms(1,2)]
  by (intro int_le_fl) auto

lemma weightedCount_nonneg:
  "0 \<le> now \<Longrightarrow> 0 < sz \<Longrightarrow> 0 \<le> pre \<Longrightarrow> pre \<le> 2 ^ 53 \<Longrightarrow> 0 \<le> cu \<Longrightarrow> cu \<le> 2 ^ 53 \<Longrightarrow>
   0 \<le> weightedCount fl pre cu now sz"
  by (rule order_trans [OF _ weightedCount_ge, of 0 cu]) auto

text \<open>An admission needs a free place in the current window alone.\<close>

lemma admit_room:
  assumes "0 \<le> now" and "0 < sz" and "0 \<le> pre" and "pre \<le> 2 ^ 53" and "0 \<le> cu" and "cu < 2 ^ 53"
    and "rate < 2 ^ 53" and "0 \<le> rate"
    and "fl (weightedCount fl pre cu now sz + 1) \<le> fl (of_int rate)"
  shows "cu + 1 \<le> rate"
proof -
  have "of_int (cu + 1) \<le> fl (weightedCount fl pre cu now sz + 1)"
    using weightedCount_ge [OF assms(1-5)] assms(5,6) by (intro int_le_fl) auto
  also have "\<dots> \<le> of_int rate" using assms(7-9) fl_int [of rate] by simp
  finally show ?thesis by linarith
qed

lemma history_bounded:
  assumes "0 < sz" and "0 \<le> rate" and "rate < 2 ^ 53" and "\<forall>c \<in> set calls. 0 \<le> fst c"
    and "\<forall>w k. admitted (snd st) w k \<le> rate"
  shows "admitted (snd (snd (decisions (history_take fl rate sz) st calls))) w k \<le> rate"
  using assms(4,5)
proof (induction calls arbitrary: st)
  case (Cons c calls)
  obtain now key where c: "c = (now, key)" by (cases c)
  obtain hw h where st: "st = (hw, h)" by (cases st)
  define w' where "w' = max (now sdiv sz) hw"
  have b: "admitted h a b \<le> rate" for a b using Cons.prems(2) by (simp add: st)
  have "admitted h w' key + 1 \<le> rate"
    if "fl (weightedCount fl (admitted h (w' - 1) key) (admitted h w' key) now sz + 1) \<le> fl (of_int rate)"
    using that assms(1-3) Cons.prems(1) b [of "w' - 1" key] b [of w' key] admitted_nonneg
    by (intro admit_room [of now sz "admitted h (w' - 1) key"]) (auto simp: c)
  then have "\<forall>a b. admitted (snd (snd (history_take fl rate sz st now key))) a b \<le> rate"
    using b by (auto simp: history_take_def st Let_def w'_def [symmetric])
  then show ?case using Cons by (simp add: c split_def Let_def)
qed simp

end

interpretation f64: rounding fl64
  by unfold_locales (simp_all add: fl64_mono fl64_of_int)

interpretation exact: rounding id
  by unfold_locales simp_all


subsection \<open>No more than the rate per key and window\<close>

text \<open>The admitted requests of a run, each with the generation it was counted in.\<close>

fun admissions :: "(rat \<Rightarrow> rat) \<Rightarrow> sliding \<Rightarrow> (time \<times> string) list \<Rightarrow> (int \<times> string) list" where
  "admissions fl s [] = []"
| "admissions fl s ((now, k) # calls) =
     (let (ok, s') = Take fl s now k
      in (if ok then [(window s', k)] else []) @ admissions fl s' calls)"

lemma admissions_history:
  assumes "remembers s st"
  shows "admitted (snd (snd (decisions (history_take fl (max_tokens s) (size_ns s)) st calls))) w k =
    admitted (snd st) w k + int (count_list (admissions fl s calls) (w, k))"
  using assms
proof (induction calls arbitrary: s st)
  case (Cons c calls)
  obtain now key where c: "c = (now, key)" by (cases c)
  obtain hw h where st: "st = (hw, h)" by (cases st)
  let ?s = "snd (Take fl s now key)" and ?h = "snd (history_take fl (max_tokens s) (size_ns s) st now key)"
  note prem = Cons.prems [unfolded st]
  have "remembers ?s ?h" using history_take_simp(2) [OF prem] by (simp add: st)
  note ih = Cons.IH [OF this]
  have hh: "snd ?h = (if fst (Take fl s now key) then (window ?s, key) # h else h)"
    unfolding history_take_simp(1) [OF prem, symmetric] st
    using prem by (simp add: history_take_def Let_def remembers_def)
  show ?case using ih by (simp add: c split_def Let_def hh [unfolded st] st)
qed simp

lemma remembers_new: "remembers (newSlidingWindow rate sz) (0, [])"
  by (simp add: newSlidingWindow_def remembers_def)

text \<open>C15. Over any sequence of requests at any clock readings, no more than \<open>rate\<close> requests with the
  same key are admitted into one window, with the float arithmetic of the code.\<close>
theorem sliding_at_most_rate:
  assumes "0 < sz" and "0 \<le> rate" and "rate < 2 ^ 53" and "\<forall>c \<in> set calls. 0 \<le> fst c"
  shows "int (count_list (admissions fl64 (newSlidingWindow rate sz) calls) (w, k)) \<le> rate"
  using f64.history_bounded [OF assms, of "(0, [])" w k] admissions_history [OF remembers_new, of fl64 rate sz calls w k]
    assms(2) by (simp add: newSlidingWindow_def)

lemma demo_counts:
  "weightedCount fl64 0 0 5 10 = 0" "weightedCount fl64 0 1 6 10 = 1"
  "1 < fl64 (weightedCount fl64 1 0 13 10 + 1)" "fl64 1 = 1" "fl64 2 = 2"
  by code_simp+

theorem sliding_at_most_rate_witness:
  "admissions fl64 (newSlidingWindow 1 10) [(5, ''k''), (6, ''k''), (13, ''k'')] = [(0, ''k'')] \<and>
   int (count_list (admissions fl64 (newSlidingWindow 1 10) [(5, ''k''), (6, ''k''), (13, ''k'')]) (0, ''k'')) \<le> 1"
proof
  show "admissions fl64 (newSlidingWindow 1 10) [(5, ''k''), (6, ''k''), (13, ''k'')] = [(0, ''k'')]"
    by (simp add: Take_def newSlidingWindow_def roll_def demo_counts)
  show "int (count_list (admissions fl64 (newSlidingWindow 1 10) [(5, ''k''), (6, ''k''), (13, ''k'')]) (0, ''k'')) \<le> 1"
    by (rule sliding_at_most_rate) simp_all
qed

subsection \<open>Waiting helps\<close>

text \<open>The counts a key has after \<open>d\<close> window boundaries without a further admission.\<close>

definition aged :: "int \<times> int \<Rightarrow> int \<Rightarrow> int \<times> int" where
  "aged c d = (if d \<le> 0 then c else if d = 1 then (snd c, 0) else (0, 0))"

lemma peek_aged:
  assumes "window s \<le> w" and "w \<le> w'"
  shows "peek s w' k = aged (peek s w k) (w' - w)"
proof -
  consider "w' = w" | "w' = w + 1" | "w + 2 \<le> w'" using assms(2) by linarith
  then show ?thesis using peek_later [OF assms(1), where k = k] by cases (auto simp: aged_def)
qed

text \<open>Over exact numbers the weighted count is the textbook formula.\<close>

lemma weightedCount_exact:
  assumes "0 \<le> now" and "0 < sz"
  shows "weightedCount id pre cu now sz = of_int pre * (1 - of_int (now mod sz) / of_int sz) + of_int cu"
  using assms by (simp add: weightedCount_def elapsed_frac_def sdiv_nonneg)

context rounding
begin

lemma weightedCount_aged:
  assumes "0 < sz" and "0 \<le> now" and "now \<le> t"
    and "0 \<le> fst c" and "fst c \<le> 2 ^ 53" and "0 \<le> snd c" and "snd c \<le> 2 ^ 53"
  shows "weightedCount fl (fst (aged c (t div sz - now div sz))) (snd (aged c (t div sz - now div sz))) t sz
    \<le> weightedCount fl (fst c) (snd c) now sz"
proof -
  let ?d = "t div sz - now div sz"
  have d0: "0 \<le> ?d" using assms(1,3) by (simp add: zdiv_mono1)
  have t: "0 \<le> t" using assms by simp
  have le: "of_int (snd c) \<le> weightedCount fl (fst c) (snd c) now sz"
    using weightedCount_ge assms by blast
  consider "?d = 0" | "?d = 1" | "?d \<ge> 2" using d0 by linarith
  then show ?thesis
  proof cases
    case 1
    then have "t - t mod sz = now - now mod sz" by (simp add: minus_mod_eq_mult_div)
    then have "now mod sz \<le> t mod sz" using assms(3) by linarith
    then have m: "now smod sz \<le> t smod sz" "0 \<le> now smod sz" "t smod sz \<le> sz"
      using assms(1,2) t by (simp_all add: sdiv_nonneg less_imp_le)
    then have e: "elapsed_frac fl now sz \<le> elapsed_frac fl t sz" "elapsed_frac fl t sz \<le> 1" "0 \<le> elapsed_frac fl now sz"
      using elapsed_mono [of "of_int (now smod sz)" "of_int (t smod sz)" "of_int sz"] assms(1)
      by (simp_all add: elapsed_frac_def)
    then have "fl (1 - elapsed_frac fl t sz) \<le> fl (1 - elapsed_frac fl now sz)" by (intro fl_mono) auto
    then have "fl (of_int (fst c)) * fl (1 - elapsed_frac fl t sz) \<le> fl (of_int (fst c)) * fl (1 - elapsed_frac fl now sz)"
      using assms(4) by (simp add: mult_left_mono fl_nonneg)
    then have "fl (fl (of_int (fst c)) * fl (1 - elapsed_frac fl t sz)) \<le> fl (fl (of_int (fst c)) * fl (1 - elapsed_frac fl now sz))"
      using assms(4) e by (intro fl_mono) (auto intro!: mult_nonneg_nonneg fl_nonneg)
    then show ?thesis using assms(4,6) e 1 unfolding weightedCount_def aged_def
      by (auto intro!: fl_mono add_nonneg_nonneg mult_nonneg_nonneg fl_nonneg)
  next
    case 2
    have "weightedCount fl (snd c) 0 t sz \<le> of_int (snd c)"
      using faded_range [of "elapsed_frac fl t sz" "snd c"] elapsed_frac_range [OF t assms(1)] assms(6,7)
      by (simp add: weightedCount_def fl_le_int)
    then show ?thesis using le 2 by (simp add: aged_def)
  next
    case 3
    then show ?thesis using le assms(6) by (simp add: weightedCount_def aged_def)
  qed
qed

lemma Take_later:
  assumes "0 < size_ns s" and "0 \<le> now" and "now \<le> t" and "window s \<le> now div size_ns s"
    and "0 \<le> read_count (prev s) k" and "read_count (prev s) k \<le> 2 ^ 53"
    and "0 \<le> read_count (cur s) k" and "read_count (cur s) k \<le> 2 ^ 53"
    and "fst (Take fl s now k)"
  shows "fst (Take fl s t k)"
proof -
  let ?w = "now div size_ns s" and ?w' = "t div size_ns s"
  have t: "0 \<le> t" and w: "?w \<le> ?w'" using assms by (auto simp: zdiv_mono1)
  have c: "0 \<le> fst (peek s ?w k)" "fst (peek s ?w k) \<le> 2 ^ 53" "0 \<le> snd (peek s ?w k)" "snd (peek s ?w k) \<le> 2 ^ 53"
    using assms(5-8) by (auto simp: peek_def Let_def)
  have a: "weightedCount fl (fst (peek s ?w' k)) (snd (peek s ?w' k)) t (size_ns s)
    \<le> weightedCount fl (fst (peek s ?w k)) (snd (peek s ?w k)) now (size_ns s)"
    using weightedCount_aged [OF assms(1-3) c] peek_aged [OF assms(4) w] by simp
  have "0 \<le> weightedCount fl (fst (peek s ?w' k)) (snd (peek s ?w' k)) t (size_ns s)"
    using c unfolding peek_aged [OF assms(4) w]
    by (intro weightedCount_nonneg [OF t assms(1)]) (auto simp: aged_def)
  then have "fl (weightedCount fl (fst (peek s ?w' k)) (snd (peek s ?w' k)) t (size_ns s) + 1)
    \<le> fl (weightedCount fl (fst (peek s ?w k)) (snd (peek s ?w k)) now (size_ns s) + 1)"
    using a by (intro fl_mono) auto
  then show ?thesis using assms(1,2,9) t by (simp add: Take_fst sdiv_nonneg)
qed

end


subsection \<open>The wait that After reports\<close>

text \<open>
  Over exact numbers: the four relief branches of \<open>afterAt\<close> each name a moment at which the aged
  counts leave room. \<open>m\<close> is the position in the current window.
\<close>

lemma relief_by_decay:
  assumes "0 < sz" and "0 \<le> m" and "m < sz" and "0 < (pre :: int)" and "(cu :: int) + 1 \<le> mx"
    and f: "f = 1 - (of_int mx - of_int cu - 1) / of_int pre" and "of_int m / of_int sz < f" and "f < (1 :: rat)"
  defines "a \<equiv> \<lfloor>(f - of_int m / of_int sz) * of_int sz\<rfloor> + 1"
  shows "0 < a \<and> m + a \<le> sz \<and> of_int pre * (1 - of_int (m + a) / of_int sz) + of_int cu + 1 \<le> (of_int mx :: rat)"
proof -
  have x: "(f - of_int m / of_int sz) * of_int sz = f * of_int sz - of_int m" using assms(1) by (simp add: field_simps)
  have a: "of_int a > f * of_int sz - of_int m" unfolding a_def x by linarith
  have pos: "0 \<le> f * of_int sz - of_int m" using assms(1,7) by (simp add: pos_divide_less_eq less_imp_le)
  have "f * of_int sz < of_int sz" using assms(1,8) by simp
  then have "\<lfloor>f * of_int sz - of_int m\<rfloor> < sz - m" by (simp add: floor_less_iff)
  then have le: "m + a \<le> sz" unfolding a_def x by simp
  have "f \<le> of_int (m + a) / of_int sz" using a assms(1) by (simp add: pos_le_divide_eq)
  then have "of_int pre * (1 - of_int (m + a) / of_int sz) \<le> of_int pre * (1 - f)" using assms(4) by simp
  also have "\<dots> = of_int mx - of_int cu - 1" using assms(4) by (simp add: f)
  finally show ?thesis using le pos unfolding a_def x by (simp add: le_floor_iff)
qed

lemma div_mod_shift:
  assumes "0 < (sz :: int)" and "0 \<le> now mod sz + a - j * sz" and "now mod sz + a - j * sz < sz"
  shows "(now + a) div sz - now div sz = j" and "(now + a) mod sz = now mod sz + a - j * sz"
proof -
  have e: "now + a = (now mod sz + a - j * sz) + (now div sz + j) * sz"
    using div_mult_mod_eq [of now sz] by (simp add: algebra_simps)
  show "(now + a) div sz - now div sz = j" "(now + a) mod sz = now mod sz + a - j * sz"
    by (subst e, use assms in \<open>simp add: mod_pos_pos_trivial div_pos_pos_trivial\<close>)+
qed

lemma boundary_relief:
  assumes "0 < sz" and "cu + 1 \<le> mx" and "0 \<le> now" and "now mod sz + a = sz"
  shows "weightedCount id (fst (aged (pre, cu) ((now + a) div sz - now div sz)))
    (snd (aged (pre, cu) ((now + a) div sz - now div sz))) (now + a) sz + 1 \<le> of_int mx"
proof -
  have "now mod sz < sz" using assms(1) by simp
  then have "0 \<le> now + a" using assms by linarith
  moreover have "(now + a) div sz - now div sz = 1" "(now + a) mod sz = 0"
    using div_mod_shift [of sz now a 1] assms by auto
  ultimately show ?thesis using assms(1,2) by (simp add: weightedCount_exact aged_def)
qed

lemma empty_relief:
  assumes "0 < sz" and "1 \<le> mx" and "2 \<le> t div sz - now div sz"
  shows "weightedCount id (fst (aged c (t div sz - now div sz))) (snd (aged c (t div sz - now div sz))) t sz + 1 \<le> of_int mx"
  using assms by (simp add: weightedCount_def aged_def)


lemma mod_shift:
  "now + a = (now div sz + 1) * sz + b \<Longrightarrow> now mod sz + a = sz + (b :: int)"
  using div_mult_mod_eq [of now sz] unfolding distrib_right by linarith

lemma decay_relief:
  assumes "0 < sz" and "0 \<le> now" and "0 < pre" and "cu + 1 \<le> mx"
    and "of_int (now mod sz) / of_int sz < f" and "f < (1 :: rat)"
    and f: "f = 1 - (of_int mx - of_int cu - 1) / of_int pre"
    and a: "a = \<lfloor>(f - of_int (now mod sz) / of_int sz) * of_int sz\<rfloor> + 1"
  shows "0 \<le> a \<and> weightedCount id (fst (aged (pre, cu) ((now + a) div sz - now div sz)))
    (snd (aged (pre, cu) ((now + a) div sz - now div sz))) (now + a) sz + 1 \<le> of_int mx"
proof -
  have r: "0 < a" "now mod sz + a \<le> sz"
    "of_int pre * (1 - of_int (now mod sz + a) / of_int sz) + of_int cu + 1 \<le> (of_int mx :: rat)"
    using relief_by_decay [of sz "now mod sz" pre cu mx f] assms by auto
  show ?thesis
  proof (cases "now mod sz + a = sz")
    case True
    then show ?thesis using boundary_relief assms(1,2,4) r(1) by simp
  next
    case False
    then have "(now + a) div sz - now div sz = 0" "(now + a) mod sz = now mod sz + a"
      using div_mod_shift [of sz now a 0] r assms(1) by auto
    then show ?thesis using r assms(1,2) by (simp add: weightedCount_exact aged_def)
  qed
qed

lemma next_window_relief:
  assumes "0 < sz" and "0 \<le> now" and "1 \<le> mx" and "mx \<le> cu"
    and f: "f = 1 - (of_int mx - 1) / (of_int cu :: rat)"
    and a: "a = (now div sz + 1) * sz - now + \<lfloor>f * of_int sz\<rfloor> + 1"
  shows "0 \<le> a \<and> weightedCount id (fst (aged (pre, cu) ((now + a) div sz - now div sz)))
    (snd (aged (pre, cu) ((now + a) div sz - now div sz))) (now + a) sz + 1 \<le> of_int mx"
proof -
  let ?b = "\<lfloor>f * of_int sz\<rfloor> + 1"
  have c: "0 < cu" using assms by simp
  have f0: "0 \<le> f" using c assms(3,4) by (simp add: f divide_le_eq)
  have b: "0 < ?b" using f0 assms(1) by (simp add: add_nonneg_pos)
  have na: "now + a = (now div sz + 1) * sz + ?b" by (simp add: a)
  then have m: "now mod sz + a = sz + ?b" by (rule mod_shift)
  have "now mod sz < sz" using assms(1) by simp
  then have a0: "0 \<le> a" using m b by linarith
  show ?thesis
  proof (cases "?b < sz")
    case True
    have d: "(now + a) div sz - now div sz = 1" "(now + a) mod sz = ?b"
      using div_mod_shift [of sz now a 1] assms(1) m b True by auto
    have "f * of_int sz \<le> of_int ?b" by linarith
    then have "f \<le> of_int ?b / of_int sz" using assms(1) by (simp add: pos_le_divide_eq)
    then have "of_int cu * (1 - of_int ?b / of_int sz) \<le> of_int cu * (1 - f)" using c by simp
    also have "\<dots> = of_int mx - 1" using c by (simp add: f)
    finally show ?thesis using a0 assms(1,2) unfolding weightedCount_exact [OF add_nonneg_nonneg [OF assms(2) a0] assms(1)] d
      by (simp add: aged_def)
  next
    case False
    then have "(now div sz + 2) * sz \<le> now + a" unfolding na distrib_right by linarith
    then have "now div sz + 2 \<le> (now + a) div sz" using assms(1) by (metis zdiv_mono1 nonzero_mult_div_cancel_right less_irrefl)
    then show ?thesis using a0 empty_relief assms(1,3) by simp
  qed
qed

lemma afterAt_relief:
  assumes "0 < sz" and "0 \<le> now" and "1 \<le> mx" and "0 \<le> pre" and "0 \<le> cu"
  defines "a \<equiv> afterAt id mx pre cu sz now"
  shows "0 \<le> a \<and> weightedCount id (fst (aged (pre, cu) ((now + a) div sz - now div sz)))
    (snd (aged (pre, cu) ((now + a) div sz - now div sz))) (now + a) sz + 1 \<le> of_int mx"
proof -
  let ?tf = "1 - (of_int mx - of_int cu - 1) / (of_int pre :: rat)" and ?m = "of_int (now mod sz) / (of_int sz :: rat)"
  have tr: "trunc_int x = \<lfloor>x\<rfloor>" if "0 \<le> x" for x using that by (simp add: trunc_int_def)
  consider (now) "weightedCount id pre cu now sz + 1 \<le> of_int mx"
    | (decay) "weightedCount id pre cu now sz + 1 > of_int mx" "0 < pre" "cu + 1 \<le> mx" "?m < ?tf" "?tf < 1"
    | (boundary) "weightedCount id pre cu now sz + 1 > of_int mx" "\<not> (0 < pre \<and> cu + 1 \<le> mx \<and> ?m < ?tf \<and> ?tf < 1)" "cu + 1 \<le> mx"
    | (later) "weightedCount id pre cu now sz + 1 > of_int mx" "mx \<le> cu"
    by linarith
  then show ?thesis
  proof cases
    case now
    then show ?thesis using assms(1,2) by (simp add: a_def afterAt_def aged_def)
  next
    case decay
    then have "a = \<lfloor>(?tf - ?m) * of_int sz\<rfloor> + 1"
      using assms(1,2) by (simp add: a_def afterAt_def elapsed_frac_def sdiv_nonneg tr)
    then show ?thesis using decay_relief [OF assms(1,2) decay(2-5) refl] by simp
  next
    case boundary
    then have "a = (now div sz + 1) * sz - now"
      using assms(1,2) by (auto simp: a_def afterAt_def elapsed_frac_def sdiv_nonneg)
    then have "now + a = (now div sz + 1) * sz + 0" by linarith
    then have e: "now mod sz + a = sz + 0" by (rule mod_shift)
    have "now mod sz < sz" using assms(1) by simp
    then have "0 \<le> a" using e by linarith
    moreover have "now mod sz + a = sz" using e by linarith
    ultimately show ?thesis using boundary_relief [OF assms(1) boundary(3) assms(2), of a pre] by blast
  next
    case later
    let ?nf = "1 - (of_int mx - 1) / (of_int cu :: rat)"
    have "0 \<le> ?nf" using later assms(3) by (simp add: divide_le_eq)
    then have "0 \<le> ?nf * of_int sz" using assms(1) by (intro mult_nonneg_nonneg) simp_all
    note t = tr [OF this]
    have "a = (now div sz + 1) * sz - now + \<lfloor>?nf * of_int sz\<rfloor> + 1"
      using later assms(1-3) unfolding a_def afterAt_def Let_def id_apply sdiv_nonneg [OF assms(2,1)] t by auto
    then show ?thesis by (rule next_window_relief [OF assms(1-3) later(2) refl])
  qed
qed


text \<open>What the counts of a reachable state satisfy.\<close>

lemma remembers_bounded:
  assumes "remembers s st" and "\<forall>w k. admitted (snd st) w k \<le> rate" and "rate < 2 ^ 53"
  shows "0 \<le> read_count (prev s) k" "read_count (prev s) k \<le> 2 ^ 53"
    "0 \<le> read_count (cur s) k" "read_count (cur s) k \<le> 2 ^ 53"
  using assms(1) assms(2) [rule_format, of "fst st" k] assms(2) [rule_format, of "fst st - 1" k] assms(3) admitted_nonneg
  by (auto simp: remembers_def split: prod.splits)

context rounding
begin

lemma reachable_counts:
  assumes "0 < sz" and "0 \<le> rate" and "rate < 2 ^ 53" and "\<forall>c \<in> set calls. 0 \<le> fst c"
  defines "s \<equiv> snd (decisions (Take fl) (newSlidingWindow rate sz) calls)"
  shows "0 \<le> read_count (prev s) k" "read_count (prev s) k \<le> 2 ^ 53"
    "0 \<le> read_count (cur s) k" "read_count (cur s) k \<le> 2 ^ 53"
proof -
  have "remembers s (snd (decisions (history_take fl rate sz) (0, []) calls))"
    using decisions_refine [OF remembers_new, of fl rate sz calls] by (simp add: s_def newSlidingWindow_def)
  moreover have "\<forall>w k. admitted (snd (snd (decisions (history_take fl rate sz) (0, []) calls))) w k \<le> rate"
    using history_bounded [OF assms(1-4), of "(0, [])"] assms(2) by simp
  ultimately show "0 \<le> read_count (prev s) k" "read_count (prev s) k \<le> 2 ^ 53"
    "0 \<le> read_count (cur s) k" "read_count (cur s) k \<le> 2 ^ 53"
    using remembers_bounded assms(3) by blast+
qed

end

lemma decisions_config [simp]:
  "max_tokens (snd (decisions (Take fl) s calls)) = max_tokens s"
  "size_ns (snd (decisions (Take fl) s calls)) = size_ns s"
  by (induction calls arbitrary: s) (auto simp: split_def Let_def)

lemma decisions_window:
  assumes "0 < size_ns s" and "window s \<le> now div size_ns s" and "\<forall>c \<in> set calls. 0 \<le> fst c \<and> fst c \<le> now"
  shows "window (snd (decisions (Take fl) s calls)) \<le> now div size_ns s"
  using assms
proof (induction calls arbitrary: s)
  case (Cons c calls)
  have "0 \<le> fst c" "fst c \<le> now" using Cons.prems by auto
  then have "fst c sdiv size_ns s \<le> now div size_ns s" using Cons.prems(1) by (simp add: sdiv_nonneg zdiv_mono1)
  then show ?case using Cons.IH [of "snd (Take fl s (fst c) (snd c))"] Cons.prems by (cases c) (simp add: split_def Let_def)
qed simp

text \<open>C16. With the float arithmetic of the code: after any run whose clock readings are at most \<open>now\<close>,
  a key that would be admitted at \<open>now\<close> would be admitted at every later moment, if nothing is
  taken in between.\<close>
theorem sliding_stays_admissible:
  assumes "0 < sz" and "0 \<le> rate" and "rate < 2 ^ 53" and "\<forall>c \<in> set calls. 0 \<le> fst c \<and> fst c \<le> now"
    and "0 \<le> now" and "now \<le> t"
    and "fst (Take fl64 (snd (decisions (Take fl64) (newSlidingWindow rate sz) calls)) now k)"
  shows "fst (Take fl64 (snd (decisions (Take fl64) (newSlidingWindow rate sz) calls)) t k)"
proof -
  let ?s = "snd (decisions (Take fl64) (newSlidingWindow rate sz) calls)"
  have "window ?s \<le> now div size_ns ?s"
    using decisions_window [of "newSlidingWindow rate sz" now calls] assms(1,4,5)
    by (simp add: newSlidingWindow_def pos_imp_zdiv_nonneg_iff)
  moreover have "size_ns ?s = sz" by (simp add: newSlidingWindow_def)
  moreover have "\<forall>c \<in> set calls. 0 \<le> fst c" using assms(4) by simp
  ultimately show ?thesis
    using f64.Take_later [of ?s now t k] f64.reachable_counts [OF assms(1-3), of calls k] assms by simp
qed

theorem sliding_stays_admissible_witness:
  "fst (Take fl64 (snd (decisions (Take fl64) (newSlidingWindow 1 10) [])) 1000 ''k'')"
proof (rule sliding_stays_admissible)
  show "fst (Take fl64 (snd (decisions (Take fl64) (newSlidingWindow 1 10) [])) 5 ''k'')" by code_simp
qed simp_all

text \<open>C23. Over exact numbers, \<open>After\<close> is never too optimistic: after any run whose clock readings are at
  most \<open>now\<close>, a client that waits at least the reported time is admitted, if nothing else is
  taken for its key meanwhile.\<close>
theorem After_never_optimistic:
  assumes "0 < sz" and "1 \<le> rate" and "rate < 2 ^ 53" and "\<forall>c \<in> set calls. 0 \<le> fst c \<and> fst c \<le> now" and "0 \<le> now"
    and "now + After id (snd (decisions (Take id) (newSlidingWindow rate sz) calls)) now k \<le> t"
  shows "fst (Take id (snd (decisions (Take id) (newSlidingWindow rate sz) calls)) t k)"
proof -
  let ?s = "snd (decisions (Take id) (newSlidingWindow rate sz) calls)"
  have cfg: "size_ns ?s = sz" "max_tokens ?s = rate" by (simp_all add: newSlidingWindow_def)
  have w: "window ?s \<le> now div sz"
    using decisions_window [of "newSlidingWindow rate sz" now calls] assms(1,4,5)
    by (simp add: newSlidingWindow_def pos_imp_zdiv_nonneg_iff)
  have c: "0 \<le> read_count (prev ?s) k" "read_count (prev ?s) k \<le> 2 ^ 53"
    "0 \<le> read_count (cur ?s) k" "read_count (cur ?s) k \<le> 2 ^ 53"
    using exact.reachable_counts [of sz rate calls k] assms(1-4) by auto
  let ?p = "peek ?s (now div sz) k" and ?a = "After id ?s now k"
  have p: "0 \<le> fst ?p" "0 \<le> snd ?p" using c by (auto simp: peek_def Let_def)
  have a: "?a = afterAt id rate (fst ?p) (snd ?p) sz now"
    using assms(1,5) by (simp add: After_def sdiv_nonneg split_def Let_def)
  note r = afterAt_relief [OF assms(1,5,2) p, folded a, unfolded prod.collapse]
  have le: "now div sz \<le> (now + ?a) div sz" using r assms(1) by (simp add: zdiv_mono1)
  have "fst (Take id ?s (now + ?a) k)"
    using r assms(1,5) by (simp add: Take_fst cfg sdiv_nonneg peek_aged [OF w le])
  moreover have "window ?s \<le> (now + ?a) div size_ns ?s" using w le by (simp add: cfg)
  ultimately show ?thesis using exact.Take_later [of ?s "now + ?a" t k] c assms(1,5,6) r by (simp add: cfg)
qed


theorem After_never_optimistic_witness:
  "After id (snd (decisions (Take id) (newSlidingWindow 2 10) [(5, ''k''), (5, ''k'')])) 6 ''k'' = 10 \<and>
   \<not> fst (Take id (snd (decisions (Take id) (newSlidingWindow 2 10) [(5, ''k''), (5, ''k'')])) 6 ''k'') \<and>
   fst (Take id (snd (decisions (Take id) (newSlidingWindow 2 10) [(5, ''k''), (5, ''k'')])) 16 ''k'')"
proof -
  have a: "After id (snd (decisions (Take id) (newSlidingWindow 2 10) [(5, ''k''), (5, ''k'')])) 6 ''k'' = 10"
    and d: "\<not> fst (Take id (snd (decisions (Take id) (newSlidingWindow 2 10) [(5, ''k''), (5, ''k'')])) 6 ''k'')"
    by code_simp+
  then show ?thesis using After_never_optimistic [of 10 2 "[(5, ''k''), (5, ''k'')]" 6 "''k''" 16] by simp
qed

end
