(* ===== verification/Netip.thy ===== *)
theory Netip
  imports Go_Prelude
begin

text \<open>
  The value types of Go's \<^verbatim>\<open>net/netip\<close> that the rate limiter and the trust lists use: an address is
  absent, a 32-bit IPv4 address or a 128-bit IPv6 address with a zone, and a prefix contains an
  address of its own family whose leading bits agree. The text parsers \<^verbatim>\<open>ParseAddr\<close> and
  \<^verbatim>\<open>ParsePrefix\<close> are parameters of the definitions that call them.
\<close>

unbundle bit_operations_syntax

datatype Addr = NoAddr | Addr4 "32 word" | Addr6 "128 word" string

record Prefix =
  pip :: Addr
  pbits :: nat

fun IsValid :: "Addr \<Rightarrow> bool" where
  "IsValid NoAddr = False"
| "IsValid _ = True"

fun Is4 :: "Addr \<Rightarrow> bool" where
  "Is4 (Addr4 _) = True"
| "Is4 _ = False"

fun Zone :: "Addr \<Rightarrow> string" where
  "Zone (Addr6 _ z) = z"
| "Zone _ = []"

text \<open>\<open>Unmap\<close> turns \<open>::ffff:a.b.c.d\<close> into the IPv4 address it carries.\<close>

fun Unmap :: "Addr \<Rightarrow> Addr" where
  "Unmap (Addr6 w z) = (if drop_bit 32 w = 0xFFFF then Addr4 (ucast w) else Addr6 w z)"
| "Unmap a = a"

definition addr_byte :: "'a::len word \<Rightarrow> nat \<Rightarrow> char" where
  "addr_byte w i = char_of (unat (drop_bit (8 * i) w) mod 256)"

text \<open>The bytes of an address, most significant first.\<close>

definition As4 :: "32 word \<Rightarrow> string" where
  "As4 w = map (addr_byte w) [3, 2, 1, 0]"

definition As16 :: "128 word \<Rightarrow> string" where
  "As16 w = map (addr_byte w) [15, 14, 13, 12, 11, 10, 9, 8, 7, 6, 5, 4, 3, 2, 1, 0]"

fun Contains :: "Prefix \<Rightarrow> Addr \<Rightarrow> bool" where
  "Contains p (Addr4 b) =
     (case pip p of Addr4 a \<Rightarrow> pbits p \<le> 32 \<and> drop_bit (32 - pbits p) (a XOR b) = 0 | _ \<Rightarrow> False)"
| "Contains p (Addr6 b z) =
     (z = [] \<and> (case pip p of Addr6 a _ \<Rightarrow> pbits p \<le> 128 \<and> drop_bit (128 - pbits p) (a XOR b) = 0 | _ \<Rightarrow> False))"
| "Contains p NoAddr = False"

lemma addr_byte_eq:
  "addr_byte v i = addr_byte w i \<longleftrightarrow> take_bit 8 (drop_bit (8 * i) v) = take_bit 8 (drop_bit (8 * i) w)"
  for v w :: "'a::len word"
proof -
  have "addr_byte v i = addr_byte w i \<longleftrightarrow>
      unat (drop_bit (8 * i) v) mod 2 ^ 8 = unat (drop_bit (8 * i) w) mod 2 ^ 8"
    using char_of_eq_iff [of "unat (drop_bit (8 * i) v) mod 256" "char_of (unat (drop_bit (8 * i) w) mod 256)"]
    by (simp add: addr_byte_def take_bit_eq_mod)
  also have "\<dots> \<longleftrightarrow> take_bit 8 (drop_bit (8 * i) v) = take_bit 8 (drop_bit (8 * i) w)"
    unfolding take_bit_eq_mod [symmetric] unsigned_take_bit_eq [symmetric] by (rule word_unat_eq_iff [symmetric])
  finally show ?thesis .
qed

lemma byte_bits:
  fixes v w :: "'a::len word"
  assumes "take_bit 8 (drop_bit (8 * i) v) = take_bit 8 (drop_bit (8 * i) w)" and "8 * i \<le> n" and "n < 8 * i + 8"
  shows "bit v n = bit w n"
  using arg_cong [OF assms(1), of "\<lambda>x. bit x (n - 8 * i)"] assms(2,3) by (auto simp: bit_simps)

lemma As4_inj: "As4 v = As4 w \<longleftrightarrow> v = w"
proof
  assume "As4 v = As4 w"
  then have b: "addr_byte v i = addr_byte w i" if "i < 4" for i
    using that by (auto simp: As4_def less_Suc_eq numeral_eq_Suc)
  show "v = w"
  proof (rule bit_word_eqI)
    fix n assume "n < LENGTH(32)"
    then have "n div 8 < 4" by simp
    from b [OF this] show "bit v n = bit w n"
      by (intro byte_bits [of "n div 8"]) (simp_all add: addr_byte_eq)
  qed
qed simp

end
