(* ===== verification/Rate_Limiter.thy ===== *)
theory Rate_Limiter
  imports Sliding_Window Netip Go_Text
begin

text \<open>
  The rate limiter of \<^verbatim>\<open>ratelimitrule/limiter.go\<close>: the configured limits, their validation and
  compilation (\<open>compileLimit\<close>, \<open>compileKeys\<close>), the all-or-nothing swap \<open>SetLimits\<close>, and the request
  path \<open>serve\<close> with its bucket keys.

  Strategies are shared mutable objects: a limit whose shaping configuration is unchanged keeps
  its strategy across a swap, and a request that loaded the old set may still be running. So the
  strategies live in a heap (a list, a reference is an index) and the compiled limits hold
  references. A strategy is the sliding window of this package or the fixed window of the
  \<^verbatim>\<open>parapet\<close> library; the latter, the CEL predicates of \<^verbatim>\<open>parapet/pkg/waf\<close> and the text parsers are
  the fields of the parameter \<open>lib\<close>.
\<close>

subsection \<open>Configuration and compiled limits\<close>

record Limit =
  ID :: string
  Key :: "string list"
  Rate :: int
  Window :: string
  Algorithm :: string
  Mode :: string
  Status :: int
  Message :: string
  Exclude :: "string list"
  Filter :: string

datatype keyKind = keyIP | keyHost | keyASN | keyCountry | keyHeader | keyCookie

record keyPart =
  kind :: keyKind
  part_name :: string

datatype mode = modeEnforce | modeShadow

record 'p compiledLimit =
  id_of :: string
  keyParts :: "keyPart list"
  strategy :: nat
  lmode :: mode
  status :: int
  message :: string
  exclude :: "Prefix list"
  observe :: "string option"
  lfilter :: "'p option"
  cfgKey :: string

record http_request =
  Host :: string
  RequestURI :: string
  header_get :: "string \<Rightarrow> string"
  Cookies :: "(string \<times> string) list"

record 'p limit_set =
  limits :: "'p compiledLimit list"
  source :: "Limit list"
  needsIP :: bool
  needsCookie :: bool
  needsFilter :: bool
  knownHost :: "(string \<Rightarrow> bool) option"
  country :: "(http_request \<Rightarrow> string) option"
  asn :: "(http_request \<Rightarrow> int) option"

text \<open>The exported fields of a \<^verbatim>\<open>Limiter\<close>, fixed before its first \<open>SetLimits\<close>.\<close>

record limiter_config =
  NamePrefix :: string
  Observe :: bool
  KnownHost :: "(string \<Rightarrow> bool) option"
  Country :: "(http_request \<Rightarrow> string) option"
  ASN :: "(http_request \<Rightarrow> int) option"
  FilterCostLimit :: nat
  FilterDisableMacros :: bool

datatype predicate_option = WithPredicateCostLimit nat | WithPredicateDisableMacros

text \<open>What the limiter calls outside this repository.\<close>

record ('p, 'i, 'f) library =
  ParseDuration :: "string \<Rightarrow> duration option"
  ParsePrefix :: "string \<Rightarrow> Prefix option"
  ParseAddr :: "string \<Rightarrow> Addr option"
  NewPredicate :: "string \<Rightarrow> predicate_option list \<Rightarrow> 'p option"
  NewInput :: "http_request \<Rightarrow> string \<Rightarrow> string \<Rightarrow> int \<Rightarrow> 'i"
  Eval :: "'p \<Rightarrow> 'i \<Rightarrow> bool option"
  fixed_new :: "int \<Rightarrow> duration \<Rightarrow> 'f"
  fixed_take :: "'f \<Rightarrow> time \<Rightarrow> string \<Rightarrow> bool \<times> 'f"
  fixed_after :: "'f \<Rightarrow> time \<Rightarrow> string \<Rightarrow> duration"

datatype 'f strategy = Fixed 'f | Sliding sliding

record ('p, 'f) limiter =
  live :: "'p limit_set option"
  heap :: "'f strategy list"

datatype name_error = MissingName | InvalidNameChar char

datatype limit_error =
    IDRequired | IDTooLong | IDChar char
  | DuplicateKey string | SuffixNotAllowed string string | NoASNDatabase | NoGeoIPDatabase
  | HeaderName name_error | CookieName name_error | UnknownKey string
  | RateNotPositive int | WindowRequired | WindowInvalid | WindowBounds duration
  | UnknownAlgorithm string | UnknownMode string | StatusNotAllowed int
  | InvalidCIDR string | FilterInvalid string

datatype set_error = InvalidLimit nat string "limit_error list" | DuplicateID nat string

definition defaultStatus :: int where "defaultStatus = 429"
definition defaultMessage :: string where "defaultMessage = ''Too Many Requests''"
definition minWindow :: duration where "minWindow = second"
definition maxWindow :: duration where "maxWindow = hour"
definition maxIDLen :: nat where "maxIDLen = 63"
definition acmeChallengePrefix :: string where "acmeChallengePrefix = ''/.well-known/acme-challenge''"
definition collapsedHost :: string where "collapsedHost = ''other''"
definition maxKeyPartLen :: nat where "maxKeyPartLen = 128"

subsection \<open>Validation and compilation\<close>

definition is_alnum :: "char \<Rightarrow> bool" where
  "is_alnum c \<longleftrightarrow> is_lower c \<or> is_upper c \<or> is_digit c"

definition token_char :: "char \<Rightarrow> bool" where
  "token_char c \<longleftrightarrow> is_alnum c \<or> c \<in> set ''!#$%&'' \<or> c = CHR 39 \<or> c \<in> set ''*+-.^_'' \<or> c = CHR 96 \<or> c \<in> set ''|~''"

definition validateFieldName :: "string \<Rightarrow> name_error option" where
  "validateFieldName name =
     (if name = [] then Some MissingName
      else map_option InvalidNameChar (find (\<lambda>c. \<not> token_char c) name))"

definition id_char :: "char \<Rightarrow> bool" where
  "id_char c \<longleftrightarrow> is_alnum c \<or> c \<in> set ''-_.''"

definition validateID :: "string \<Rightarrow> limit_error option" where
  "validateID ident =
     (if ident = [] then Some IDRequired
      else if length ident > maxIDLen then Some IDTooLong
      else map_option IDChar (find (\<lambda>c. \<not> id_char c) ident))"

type_synonym key_acc = "keyPart list \<times> string list \<times> limit_error list"

text \<open>The closure \<open>add\<close> of \<open>compileKeys\<close>; the parts added so far are exactly the \<open>seen\<close> ones.\<close>

fun add_part :: "string \<Rightarrow> keyPart \<Rightarrow> key_acc \<Rightarrow> key_acc" where
  "add_part nk p (parts, norms, errs) =
     (if nk \<in> set norms then (parts, norms, errs @ [DuplicateKey nk])
      else (parts @ [p], norms @ [nk], errs))"

fun add_error :: "limit_error \<Rightarrow> key_acc \<Rightarrow> key_acc" where
  "add_error e (parts, norms, errs) = (parts, norms, errs @ [e])"

definition split_key :: "string \<Rightarrow> string \<times> string \<times> bool" where
  "split_key k =
     (case index_byte CHR '':'' k of
        Some i \<Rightarrow> (take i k, drop (Suc i) k, True)
      | None \<Rightarrow> (k, [], False))"

definition plain_part :: "keyKind \<Rightarrow> keyPart" where
  "plain_part kd = \<lparr>kind = kd, part_name = []\<rparr>"

definition compileKey :: "limiter_config \<Rightarrow> key_acc \<Rightarrow> string \<Rightarrow> key_acc" where
  "compileKey cfg acc k0 =
     (let (k, name, hasName) = split_key k0 in
      if hasName \<and> k \<noteq> ''header'' \<and> k \<noteq> ''cookie'' then add_error (SuffixNotAllowed k name) acc
      else if k = [] \<or> k = ''ip'' then add_part ''ip'' (plain_part keyIP) acc
      else if k = ''host'' then add_part ''host'' (plain_part keyHost) acc
      else if k = ''ip-host'' then add_part ''host'' (plain_part keyHost) (add_part ''ip'' (plain_part keyIP) acc)
      else if k = ''asn'' then
        (if ASN cfg = None then add_error NoASNDatabase acc else add_part ''asn'' (plain_part keyASN) acc)
      else if k = ''country'' then
        (if Country cfg = None then add_error NoGeoIPDatabase acc else add_part ''country'' (plain_part keyCountry) acc)
      else if k = ''header'' then
        (case validateFieldName name of
           Some e \<Rightarrow> add_error (HeaderName e) acc
         | None \<Rightarrow> add_part (''header:'' @ to_lower name) \<lparr>kind = keyHeader, part_name = name\<rparr> acc)
      else if k = ''cookie'' then
        (case validateFieldName name of
           Some e \<Rightarrow> add_error (CookieName e) acc
         | None \<Rightarrow> add_part (''cookie:'' @ name) \<lparr>kind = keyCookie, part_name = name\<rparr> acc)
      else add_error (UnknownKey k) acc)"

definition compileKeys :: "limiter_config \<Rightarrow> string list \<Rightarrow> key_acc" where
  "compileKeys cfg keys = foldl (compileKey cfg) ([], [], []) (if keys = [] then [''ip''] else keys)"

definition filterOptions :: "limiter_config \<Rightarrow> predicate_option list" where
  "filterOptions cfg =
     (if FilterCostLimit cfg > 0 then [WithPredicateCostLimit (FilterCostLimit cfg)] else []) @
     (if FilterDisableMacros cfg then [WithPredicateDisableMacros] else [])"


text \<open>The parts of \<open>compileLimit\<close>, in its order: each gives its errors and what it resolves.\<close>

definition check_window :: "('p, 'i, 'f) library \<Rightarrow> string \<Rightarrow> limit_error list \<times> duration \<times> string" where
  "check_window lib w =
     (if trim_space w = [] then ([WindowRequired], 0, w)
      else case ParseDuration lib w of
        None \<Rightarrow> ([WindowInvalid], 0, w)
      | Some d \<Rightarrow> if d < minWindow \<or> d > maxWindow then ([WindowBounds d], 0, w) else ([], d, duration_string d))"

definition check_algorithm :: "string \<Rightarrow> limit_error list \<times> string" where
  "check_algorithm a =
     (if a = [] \<or> a = ''fixed'' then ([], ''fixed'')
      else if a = ''sliding'' then ([], a) else ([UnknownAlgorithm a], a))"

definition check_mode :: "string \<Rightarrow> limit_error list \<times> mode \<times> string" where
  "check_mode m =
     (if m = [] \<or> m = ''enforce'' then ([], modeEnforce, ''enforce'')
      else if m = ''shadow'' then ([], modeShadow, m) else ([UnknownMode m], modeEnforce, m))"

definition check_status :: "int \<Rightarrow> limit_error list \<times> int" where
  "check_status s =
     (if s = 0 \<or> s = 429 then ([], defaultStatus) else if s = 503 then ([], s) else ([StatusNotAllowed s], s))"

fun check_exclude :: "('p, 'i, 'f) library \<Rightarrow> string list \<Rightarrow> limit_error list \<times> Prefix list" where
  "check_exclude lib [] = ([], [])"
| "check_exclude lib (c # cs) =
     (let (errs, ps) = check_exclude lib cs in
      case ParsePrefix lib (trim_space c) of
        None \<Rightarrow> (InvalidCIDR c # errs, ps)
      | Some p \<Rightarrow> (errs, p # ps))"

definition check_filter :: "limiter_config \<Rightarrow> ('p, 'i, 'f) library \<Rightarrow> string \<Rightarrow> limit_error list \<times> 'p option" where
  "check_filter cfg lib f =
     (if f = [] then ([], None)
      else case NewPredicate lib f (filterOptions cfg) of
        None \<Rightarrow> ([FilterInvalid f], None)
      | Some p \<Rightarrow> ([], Some p))"

definition cfg_key :: "Limit \<Rightarrow> string" where
  "cfg_key lm = join_by CHR '','' (Key lm) @ ''|'' @ Algorithm lm @ ''|'' @ itoa (Rate lm) @ ''|'' @ Window lm"

text \<open>
  \<open>compileLimit\<close>: the errors, or the compiled limit with the reference \<open>ref\<close>, the normalised source
  and the fresh strategy that goes at that reference.
\<close>

definition compileLimit ::
  "limiter_config \<Rightarrow> ('p, 'i, 'f) library \<Rightarrow> nat \<Rightarrow> Limit
    \<Rightarrow> limit_error list + 'p compiledLimit \<times> Limit \<times> 'f strategy" where
  "compileLimit cfg lib ref lm =
     (let idErr = (case validateID (ID lm) of None \<Rightarrow> [] | Some e \<Rightarrow> [e]);
          (parts, normKeys, keyErrs) = compileKeys cfg (Key lm);
          rateErr = (if Rate lm \<le> 0 then [RateNotPositive (Rate lm)] else []);
          (winErr, win, winText) = check_window lib (Window lm);
          (algErr, alg) = check_algorithm (Algorithm lm);
          (modeErr, m, modeText) = check_mode (Mode lm);
          (statusErr, st) = check_status (Status lm);
          msg = (if Message lm = [] then defaultMessage else Message lm);
          (exErr, ex) = check_exclude lib (Exclude lm);
          ftext = trim_space (Filter lm);
          (filterErr, p) = check_filter cfg lib ftext;
          errs = idErr @ keyErrs @ rateErr @ winErr @ algErr @ modeErr @ statusErr @ exErr @ filterErr;
          lm' = lm\<lparr>Key := normKeys, Window := winText, Algorithm := alg, Mode := modeText, Status := st,
                     Message := msg, Filter := ftext\<rparr>
      in if errs \<noteq> [] then Inl errs
         else Inr (\<lparr>id_of = ID lm, keyParts = parts, strategy = ref, lmode = m, status = st, message = msg,
                    exclude = ex, observe = (if Observe cfg then Some (NamePrefix cfg @ '':'' @ ID lm) else None),
                    lfilter = p, cfgKey = cfg_key lm'\<rparr>,
                   lm',
                   if alg = ''sliding'' then Sliding (newSlidingWindow (Rate lm) win)
                   else Fixed (fixed_new lib (Rate lm) win)))"

subsection \<open>SetLimits\<close>

record ('p, 'f) batch =
  berrs :: "set_error list"
  compiled :: "'p compiledLimit list"
  bsource :: "Limit list"
  bheap :: "'f strategy list"

fun compile_batch ::
  "limiter_config \<Rightarrow> ('p, 'i, 'f) library \<Rightarrow> nat \<Rightarrow> Limit list \<Rightarrow> ('p, 'f) batch \<Rightarrow> ('p, 'f) batch" where
  "compile_batch cfg lib i [] b = b"
| "compile_batch cfg lib i (lm # lims) b =
     compile_batch cfg lib (Suc i) lims
       (case compileLimit cfg lib (length (bheap b)) lm of
          Inl es \<Rightarrow> b\<lparr>berrs := berrs b @ [InvalidLimit i (ID lm) es]\<rparr>
        | Inr (c, nl, st) \<Rightarrow>
            if id_of c \<in> id_of ` set (compiled b) then b\<lparr>berrs := berrs b @ [DuplicateID i (ID lm)]\<rparr>
            else b\<lparr>compiled := compiled b @ [c], bsource := bsource b @ [nl], bheap := bheap b @ [st]\<rparr>)"

text \<open>The strategy of an unchanged limit of the live set is carried over.\<close>

definition old_limits :: "'p limit_set option \<Rightarrow> string \<rightharpoonup> 'p compiledLimit" where
  "old_limits s = (case s of None \<Rightarrow> Map.empty | Some s' \<Rightarrow> map_of (map (\<lambda>c. (id_of c, c)) (rev (limits s'))))"

definition carry :: "'p limit_set option \<Rightarrow> 'p compiledLimit \<Rightarrow> 'p compiledLimit" where
  "carry s c =
     (case old_limits s (id_of c) of
        Some old \<Rightarrow> if cfgKey old = cfgKey c then c\<lparr>strategy := strategy old\<rparr> else c
      | None \<Rightarrow> c)"

definition build_set :: "limiter_config \<Rightarrow> 'p compiledLimit list \<Rightarrow> Limit list \<Rightarrow> 'p limit_set" where
  "build_set cfg cs src =
     \<lparr>limits = cs, source = src,
      needsIP = list_ex (\<lambda>c. exclude c \<noteq> [] \<or> list_ex (\<lambda>p. kind p = keyIP) (keyParts c)) cs,
      needsCookie = list_ex (\<lambda>c. list_ex (\<lambda>p. kind p = keyCookie) (keyParts c)) cs,
      needsFilter = list_ex (\<lambda>c. lfilter c \<noteq> None) cs,
      knownHost = KnownHost cfg, country = Country cfg, asn = ASN cfg\<rparr>"

definition SetLimits ::
  "limiter_config \<Rightarrow> ('p, 'i, 'f) library \<Rightarrow> ('p, 'f) limiter \<Rightarrow> Limit list
    \<Rightarrow> set_error list \<times> ('p, 'f) limiter" where
  "SetLimits cfg lib l lims =
     (let b = compile_batch cfg lib 0 lims \<lparr>berrs = [], compiled = [], bsource = [], bheap = heap l\<rparr> in
      if berrs b \<noteq> [] then (berrs b, l)
      else ([], l\<lparr>live := Some (build_set cfg (map (carry (live l)) (compiled b)) (bsource b)), heap := bheap b\<rparr>))"

text \<open>\<open>Limits\<close> and \<open>IDs\<close>: what is live, for introspection.\<close>

definition Limits :: "('p, 'f) limiter \<Rightarrow> Limit list" where
  "Limits l = (case live l of None \<Rightarrow> [] | Some s \<Rightarrow> source s)"

definition IDs :: "('p, 'f) limiter \<Rightarrow> string list" where
  "IDs l = (case live l of None \<Rightarrow> [] | Some s \<Rightarrow> map id_of (limits s))"


subsection \<open>The request path\<close>

definition truncPart :: "string \<Rightarrow> string" where
  "truncPart v = (if length v > maxKeyPartLen then take maxKeyPartLen v else v)"

definition clear_low64 :: "128 word \<Rightarrow> 128 word" where
  "clear_low64 w = push_bit 64 (drop_bit 64 w)"

definition ipKey :: "Addr \<Rightarrow> string \<Rightarrow> string" where
  "ipKey addr rawIP =
     (case addr of NoAddr \<Rightarrow> rawIP | Addr4 a \<Rightarrow> As4 a | Addr6 a _ \<Rightarrow> As16 (clear_low64 a))"

definition hostKey :: "string \<Rightarrow> (string \<Rightarrow> bool) option \<Rightarrow> string" where
  "hostKey host known =
     (case known of Some f \<Rightarrow> if f host then host else collapsedHost | None \<Rightarrow> host)"

text \<open>A call of a nil resolver panics: \<open>None\<close>.\<close>

definition partValue ::
  "'p limit_set \<Rightarrow> keyPart \<Rightarrow> http_request \<Rightarrow> Addr \<Rightarrow> string \<Rightarrow> (string \<rightharpoonup> string) \<Rightarrow> string option" where
  "partValue s p r addr rawIP cookies =
     (case kind p of
        keyHost \<Rightarrow> Some (hostKey (Host r) (knownHost s))
      | keyASN \<Rightarrow> map_option (\<lambda>f. itoa (f r)) (asn s)
      | keyCountry \<Rightarrow> map_option (\<lambda>f. f r) (country s)
      | keyHeader \<Rightarrow> Some (truncPart (header_get r (part_name p)))
      | keyCookie \<Rightarrow> Some (truncPart (case cookies (part_name p) of None \<Rightarrow> [] | Some v \<Rightarrow> v))
      | keyIP \<Rightarrow> Some (ipKey addr rawIP))"

definition bucketKey ::
  "'p limit_set \<Rightarrow> keyPart list \<Rightarrow> http_request \<Rightarrow> Addr \<Rightarrow> string \<Rightarrow> (string \<rightharpoonup> string) \<Rightarrow> string option" where
  "bucketKey s parts r addr rawIP cookies =
     map_option (join_by (CHR 10)) (those (map (\<lambda>p. partValue s p r addr rawIP cookies) parts))"

definition skip :: "'p compiledLimit \<Rightarrow> Addr \<Rightarrow> bool" where
  "skip c addr =
     (if \<not> IsValid addr \<or> exclude c = [] then False else list_ex (\<lambda>p. Contains p addr) (exclude c))"

fun strategy_take :: "('p, 'i, 'f) library \<Rightarrow> 'f strategy \<Rightarrow> time \<Rightarrow> string \<Rightarrow> bool \<times> 'f strategy" where
  "strategy_take lib (Fixed f) now k = map_prod id Fixed (fixed_take lib f now k)"
| "strategy_take lib (Sliding s) now k = map_prod id Sliding (Take fl64 s now k)"

fun strategy_after :: "('p, 'i, 'f) library \<Rightarrow> 'f strategy \<Rightarrow> time \<Rightarrow> string \<Rightarrow> duration" where
  "strategy_after lib (Fixed f) now k = fixed_after lib f now k"
| "strategy_after lib (Sliding s) now k = After fl64 s now k"

datatype response = Next | Reject int string "int option" | Panic

text \<open>The outcome of a request: the response, the heap it leaves, and the decisions it reported to the
  observers (series name and whether the request was admitted).\<close>

record 'f served =
  response :: response
  sheap :: "'f strategy list"
  events :: "(string \<times> bool) list"

definition report :: "'p compiledLimit \<Rightarrow> bool \<Rightarrow> (string \<times> bool) list" where
  "report c ok = (case observe c of None \<Rightarrow> [] | Some name \<Rightarrow> [(name, ok)])"

text \<open>\<open>Retry-After\<close>: whole seconds, rounded up; not set when there is no wait.\<close>

definition retry_after :: "duration \<Rightarrow> int option" where
  "retry_after after = (if after > 0 then Some ((after + second - 1) sdiv second) else None)"

text \<open>The filter gate: out of scope on a false result and on an evaluation error.\<close>

definition in_scope :: "('p, 'i, 'f) library \<Rightarrow> 'p limit_set \<Rightarrow> http_request \<Rightarrow> 'p compiledLimit \<Rightarrow> bool" where
  "in_scope lib s r c =
     (case lfilter c of
        None \<Rightarrow> True
      | Some p \<Rightarrow>
          Eval lib p (NewInput lib r [] (case country s of None \<Rightarrow> [] | Some f \<Rightarrow> f r)
            (case asn s of None \<Rightarrow> 0 | Some f \<Rightarrow> f r)) = Some True)"

text \<open>The loop over the limits; \<open>clk n\<close> is the \<open>n\<close>-th clock reading of the request.\<close>

fun serve_loop ::
  "('p, 'i, 'f) library \<Rightarrow> 'p limit_set \<Rightarrow> http_request \<Rightarrow> Addr \<Rightarrow> string \<Rightarrow> (string \<rightharpoonup> string)
    \<Rightarrow> (nat \<Rightarrow> time) \<Rightarrow> nat \<Rightarrow> 'p compiledLimit list \<Rightarrow> 'f strategy list \<Rightarrow> (string \<times> bool) list \<Rightarrow> 'f served" where
  "serve_loop lib s r addr rawIP cookies clk n [] hp ev = \<lparr>response = Next, sheap = hp, events = ev\<rparr>"
| "serve_loop lib s r addr rawIP cookies clk n (c # cs) hp ev =
     (if skip c addr \<or> \<not> in_scope lib s r c then serve_loop lib s r addr rawIP cookies clk n cs hp ev
      else case bucketKey s (keyParts c) r addr rawIP cookies of
        None \<Rightarrow> \<lparr>response = Panic, sheap = hp, events = ev\<rparr>
      | Some key \<Rightarrow>
          (let (ok, st) = strategy_take lib (hp ! strategy c) (clk n) key;
               hp' = hp[strategy c := st];
               ev' = ev @ report c ok
           in if ok \<or> lmode c = modeShadow then serve_loop lib s r addr rawIP cookies clk (Suc n) cs hp' ev'
              else \<lparr>response = Reject (status c) (message c) (retry_after (strategy_after lib st (clk (Suc n)) key)),
                    sheap = hp', events = ev'\<rparr>))"

definition resolve_addr :: "('p, 'i, 'f) library \<Rightarrow> string \<Rightarrow> Addr" where
  "resolve_addr lib raw =
     (case ParseAddr lib raw of Some a \<Rightarrow> if Zone a = [] then Unmap a else NoAddr | None \<Rightarrow> NoAddr)"

definition req_rawIP :: "'p limit_set \<Rightarrow> http_request \<Rightarrow> string" where
  "req_rawIP s r = (if needsIP s then header_get r ''X-Real-Ip'' else [])"

definition req_addr :: "('p, 'i, 'f) library \<Rightarrow> 'p limit_set \<Rightarrow> http_request \<Rightarrow> Addr" where
  "req_addr lib s r = (if needsIP s then resolve_addr lib (req_rawIP s r) else NoAddr)"

text \<open>The first cookie of a name wins.\<close>

definition req_cookies :: "'p limit_set \<Rightarrow> http_request \<Rightarrow> string \<rightharpoonup> string" where
  "req_cookies s r = (if needsCookie s then map_of (Cookies r) else Map.empty)"

definition serve ::
  "('p, 'i, 'f) library \<Rightarrow> 'p limit_set \<Rightarrow> http_request \<Rightarrow> (nat \<Rightarrow> time) \<Rightarrow> 'f strategy list \<Rightarrow> 'f served" where
  "serve lib s r clk hp =
     (if has_prefix (RequestURI r) acmeChallengePrefix then \<lparr>response = Next, sheap = hp, events = []\<rparr>
      else serve_loop lib s r (req_addr lib s r) (req_rawIP s r) (req_cookies s r) clk 0 (limits s) hp [])"

definition Serve ::
  "('p, 'i, 'f) library \<Rightarrow> ('p, 'f) limiter \<Rightarrow> http_request \<Rightarrow> (nat \<Rightarrow> time) \<Rightarrow> 'f served" where
  "Serve lib l r clk =
     (case live l of
        None \<Rightarrow> \<lparr>response = Next, sheap = heap l, events = []\<rparr>
      | Some s \<Rightarrow> if limits s = [] then \<lparr>response = Next, sheap = heap l, events = []\<rparr>
                  else serve lib s r clk (heap l))"


subsection \<open>What compilation establishes\<close>

text \<open>The canonical spelling of a key part, and what a compiled part list satisfies.\<close>

definition part_key :: "keyPart \<Rightarrow> string" where
  "part_key p =
     (case kind p of
        keyIP \<Rightarrow> ''ip'' | keyHost \<Rightarrow> ''host'' | keyASN \<Rightarrow> ''asn'' | keyCountry \<Rightarrow> ''country''
      | keyHeader \<Rightarrow> ''header:'' @ to_lower (part_name p)
      | keyCookie \<Rightarrow> ''cookie:'' @ part_name p)"

definition part_ok :: "limiter_config \<Rightarrow> keyPart \<Rightarrow> bool" where
  "part_ok cfg p \<longleftrightarrow>
     (kind p = keyASN \<longrightarrow> ASN cfg \<noteq> None) \<and> (kind p = keyCountry \<longrightarrow> Country cfg \<noteq> None) \<and>
     (kind p \<in> {keyHeader, keyCookie} \<longrightarrow> validateFieldName (part_name p) = None)"

fun keys_inv :: "limiter_config \<Rightarrow> key_acc \<Rightarrow> bool" where
  "keys_inv cfg (parts, norms, errs) \<longleftrightarrow>
     norms = map part_key parts \<and> distinct norms \<and> list_all (part_ok cfg) parts"

lemma add_part_inv:
  assumes "keys_inv cfg acc" and "nk = part_key p" and "part_ok cfg p"
  shows "keys_inv cfg (add_part nk p acc)"
  using assms by (cases acc) auto

lemma add_error_inv: "keys_inv cfg acc \<Longrightarrow> keys_inv cfg (add_error e acc)"
  by (cases acc) auto

lemma named_part_inv:
  assumes "keys_inv cfg acc"
  shows "keys_inv cfg (add_part ''ip'' (plain_part keyIP) acc)"
    "keys_inv cfg (add_part ''host'' (plain_part keyHost) acc)"
    "ASN cfg = Some f \<Longrightarrow> keys_inv cfg (add_part ''asn'' (plain_part keyASN) acc)"
    "Country cfg = Some g \<Longrightarrow> keys_inv cfg (add_part ''country'' (plain_part keyCountry) acc)"
    "validateFieldName n = None \<Longrightarrow> keys_inv cfg (add_part (''header:'' @ to_lower n) \<lparr>kind = keyHeader, part_name = n\<rparr> acc)"
    "validateFieldName n = None \<Longrightarrow> keys_inv cfg (add_part (''cookie:'' @ n) \<lparr>kind = keyCookie, part_name = n\<rparr> acc)"
  by (rule add_part_inv [OF assms]; simp add: part_key_def part_ok_def plain_part_def)+

lemmas keys_intros = named_part_inv add_error_inv

text \<open>Every operation on the accumulator that \<open>compileKey\<close> may perform.\<close>

lemma compileKey_cases:
  assumes "\<And>e. P (add_error e acc)"
    and "P (add_part ''ip'' (plain_part keyIP) acc)"
    and "P (add_part ''host'' (plain_part keyHost) acc)"
    and "P (add_part ''host'' (plain_part keyHost) (add_part ''ip'' (plain_part keyIP) acc))"
    and "\<And>f. ASN cfg = Some f \<Longrightarrow> P (add_part ''asn'' (plain_part keyASN) acc)"
    and "\<And>f. Country cfg = Some f \<Longrightarrow> P (add_part ''country'' (plain_part keyCountry) acc)"
    and "\<And>n. validateFieldName n = None \<Longrightarrow> P (add_part (''header:'' @ to_lower n) \<lparr>kind = keyHeader, part_name = n\<rparr> acc)"
    and "\<And>n. validateFieldName n = None \<Longrightarrow> P (add_part (''cookie:'' @ n) \<lparr>kind = keyCookie, part_name = n\<rparr> acc)"
  shows "P (compileKey cfg acc k0)"
proof -
  obtain k name has where k: "split_key k0 = (k, name, has)" by (cases "split_key k0") auto
  have ifI: "P (if c then a else b)" if "c \<Longrightarrow> P a" "\<not> c \<Longrightarrow> P b" for c a b using that by (cases c) simp_all
  have optI: "P (case x of None \<Rightarrow> a | Some y \<Rightarrow> f y)" if "x = None \<Longrightarrow> P a" "\<And>y. x = Some y \<Longrightarrow> P (f y)"
    for x a and f :: "name_error \<Rightarrow> key_acc" using that by (cases x) simp_all
  have asn: "P (add_part ''asn'' (plain_part keyASN) acc)" if "ASN cfg \<noteq> None" using assms(5) that by blast
  have cty: "P (add_part ''country'' (plain_part keyCountry) acc)" if "Country cfg \<noteq> None" using assms(6) that by blast
  show ?thesis unfolding compileKey_def k Let_def prod.case
    by (intro ifI optI assms(1-4,7-8) asn cty; assumption)
qed

lemma compileKey_inv: "keys_inv cfg acc \<Longrightarrow> keys_inv cfg (compileKey cfg acc k)"
  by (rule compileKey_cases) (blast intro: keys_intros)+

text \<open>Every key adds a part or an error.\<close>

definition progressed :: "key_acc \<Rightarrow> bool" where
  "progressed acc \<longleftrightarrow> fst acc \<noteq> [] \<or> snd (snd acc) \<noteq> []"

lemma add_part_progressed:
  "keys_inv cfg acc \<Longrightarrow> progressed (add_part nk p acc)"
  by (cases acc) (auto simp: progressed_def)

lemma add_error_progressed: "progressed (add_error e acc)"
  by (cases acc) (simp add: progressed_def)

lemma compileKey_progressed: "keys_inv cfg acc \<Longrightarrow> progressed (compileKey cfg acc k)"
  by (rule compileKey_cases) (blast intro: keys_intros add_part_progressed add_error_progressed)+

lemma foldl_keys_inv: "keys_inv cfg acc \<Longrightarrow> keys_inv cfg (foldl (compileKey cfg) acc ks)"
  by (induction ks arbitrary: acc) (simp_all del: keys_inv.simps add: compileKey_inv)

lemma compileKeys_ok:
  assumes "compileKeys cfg keys = (parts, norms, [])"
  shows "norms = map part_key parts \<and> distinct norms \<and> list_all (part_ok cfg) parts \<and> parts \<noteq> []"
proof -
  define ks where "ks = (if keys = [] then [''ip''] else keys)"
  have r: "foldl (compileKey cfg) ([], [], []) ks = (parts, norms, [])" using assms by (simp add: compileKeys_def ks_def)
  have "ks \<noteq> []" by (simp add: ks_def)
  then obtain xs x where ks: "ks = xs @ [x]" by (metis rev_exhaust)
  have inv: "keys_inv cfg (foldl (compileKey cfg) ([], [], []) ys)" for ys by (rule foldl_keys_inv) simp
  have "parts \<noteq> []" using compileKey_progressed [OF inv [of xs], of x] r by (simp add: ks progressed_def)
  then show ?thesis using inv [of ks] unfolding r by (metis keys_inv.simps)
qed

lemma char_not_in_find: "find (\<lambda>c. \<not> P c) s = None \<Longrightarrow> \<not> P c \<Longrightarrow> c \<notin> set s"
  by (auto simp: find_None_iff)

lemma lower_char_comma: "lower_char c = CHR '','' \<longleftrightarrow> c = CHR '',''"
proof (cases "is_upper c")
  case True
  then have "of_char (lower_char c) = (of_char c + 32 :: nat)"
    by (simp add: lower_char_def is_upper_def)
  moreover have "(65 :: nat) \<le> of_char c" using True by (simp add: is_upper_def)
  moreover have "(of_char CHR '','' :: nat) = 44" by simp
  ultimately have "lower_char c \<noteq> CHR '',''" "c \<noteq> CHR '',''" by (auto simp del: of_char_Char)
  then show ?thesis by simp
qed (simp add: lower_char_def)

lemma lower_comma: "CHR '','' \<in> set (to_lower s) \<longleftrightarrow> CHR '','' \<in> set s"
  unfolding to_lower_def set_map image_iff using lower_char_comma by metis

lemma part_key_no_comma:
  assumes "part_ok cfg p"
  shows "CHR '','' \<notin> set (part_key p)"
proof -
  have "\<not> token_char CHR '',''" by (simp add: token_char_def is_alnum_def is_lower_def is_upper_def is_digit_def)
  then have "CHR '','' \<notin> set (part_name p)" if "kind p \<in> {keyHeader, keyCookie}"
    using assms that by (auto simp: part_ok_def validateFieldName_def find_None_iff split: if_splits)
  then show ?thesis by (auto simp: part_key_def lower_comma split: keyKind.splits)
qed

text \<open>A normalised limit: what \<open>compileLimit\<close> returns as the source copy.\<close>

definition normalised :: "limiter_config \<Rightarrow> Limit \<Rightarrow> bool" where
  "normalised cfg nl \<longleftrightarrow>
     Key nl \<noteq> [] \<and> (\<forall>k \<in> set (Key nl). CHR '','' \<notin> set k) \<and> Algorithm nl \<in> {''fixed'', ''sliding''} \<and>
     Rate nl > 0 \<and> (\<exists>d. minWindow \<le> d \<and> d \<le> maxWindow \<and> Window nl = duration_string d)"

lemma bar_free:
  "CHR ''|'' \<notin> set (nat_digits n)" "CHR ''|'' \<notin> set (itoa i)" "CHR ''|'' \<notin> set (frac_string n)"
  "CHR ''|'' \<notin> set (duration_string d)"
proof -
  show n: "CHR ''|'' \<notin> set (nat_digits n)" for n by (rule nat_digits_no) simp
  then show i: "CHR ''|'' \<notin> set (itoa i)" for i by (simp add: itoa_def)
  show f: "CHR ''|'' \<notin> set (frac_string n)" for n
    using n [of n] by (auto simp: frac_string_def pad9_def dest!: set_dropWhileD)
  show "CHR ''|'' \<notin> set (duration_string d)" using i f by (auto simp: duration_string_def Let_def)
qed

lemma cfg_key_inj:
  assumes "normalised cfg a" and "normalised cfg' b"
  shows "cfg_key a = cfg_key b \<longleftrightarrow>
    Key a = Key b \<and> Algorithm a = Algorithm b \<and> Rate a = Rate b \<and> Window a = Window b"
proof
  assume e: "cfg_key a = cfg_key b"
  have bar: "CHR ''|'' \<notin> set (Window a)" "CHR ''|'' \<notin> set (Window b)"
    "CHR ''|'' \<notin> set (Algorithm a)" "CHR ''|'' \<notin> set (Algorithm b)"
    using assms bar_free by (auto simp: normalised_def)
  have "(join_by CHR '','' (Key a) @ ''|'' @ Algorithm a @ ''|'' @ itoa (Rate a)) @ CHR ''|'' # Window a =
      (join_by CHR '','' (Key b) @ ''|'' @ Algorithm b @ ''|'' @ itoa (Rate b)) @ CHR ''|'' # Window b"
    using e by (simp add: cfg_key_def)
  from split_last [OF this bar(1,2)] have w: "Window a = Window b"
    and r: "(join_by CHR '','' (Key a) @ ''|'' @ Algorithm a) @ CHR ''|'' # itoa (Rate a) =
      (join_by CHR '','' (Key b) @ ''|'' @ Algorithm b) @ CHR ''|'' # itoa (Rate b)" by auto
  from split_last [OF r bar_free(2) bar_free(2)] have rate: "Rate a = Rate b"
    and g: "join_by CHR '','' (Key a) @ CHR ''|'' # Algorithm a = join_by CHR '','' (Key b) @ CHR ''|'' # Algorithm b"
    by (auto simp: itoa_inj)
  from split_last [OF g bar(3,4)] have "Algorithm a = Algorithm b" "join_by CHR '','' (Key a) = join_by CHR '','' (Key b)"
    by auto
  then show "Key a = Key b \<and> Algorithm a = Algorithm b \<and> Rate a = Rate b \<and> Window a = Window b"
    using w rate assms join_by_inj [of "CHR '',''" "Key a" "Key b"] by (simp add: normalised_def)
qed (simp add: cfg_key_def)

text \<open>What a compiled limit of a live set satisfies.\<close>

definition limit_ok :: "limiter_config \<Rightarrow> 'p compiledLimit \<Rightarrow> bool" where
  "limit_ok cfg c \<longleftrightarrow>
     validateID (id_of c) = None \<and> status c \<in> {429, 503} \<and> message c \<noteq> [] \<and>
     keyParts c \<noteq> [] \<and> list_all (part_ok cfg) (keyParts c) \<and> distinct (map part_key (keyParts c))"

lemma check_window_ok:
  "check_window lib w = ([], d, t) \<Longrightarrow> minWindow \<le> d \<and> d \<le> maxWindow \<and> t = duration_string d \<and> ParseDuration lib w = Some d"
  by (auto simp: check_window_def split: if_splits option.splits)

lemma check_algorithm_ok: "check_algorithm a = ([], b) \<Longrightarrow> b \<in> {''fixed'', ''sliding''}"
  by (auto simp: check_algorithm_def split: if_splits)

lemma check_status_ok: "check_status a = ([], b) \<Longrightarrow> b \<in> {429, 503}"
  by (auto simp: check_status_def defaultStatus_def split: if_splits)

lemma compileLimit_ok:
  assumes "compileLimit cfg lib ref lm = Inr (c, nl, st)"
  shows "id_of c = ID lm" and "strategy c = ref" and "limit_ok cfg c" and "normalised cfg nl" and "cfgKey c = cfg_key nl"
    and "ID nl = ID lm" and "Key nl = map part_key (keyParts c)"
    and "\<exists>d. ParseDuration lib (Window lm) = Some d \<and> Window nl = duration_string d \<and>
      st = (if Algorithm nl = ''sliding'' then Sliding (newSlidingWindow (Rate nl) d) else Fixed (fixed_new lib (Rate nl) d))"
    and "lmode c = modeShadow \<longleftrightarrow> Mode lm = ''shadow''"
proof -
  obtain parts norms ke where k: "compileKeys cfg (Key lm) = (parts, norms, ke)" by (metis prod_cases3)
  obtain we d wt where w: "check_window lib (Window lm) = (we, d, wt)" by (metis prod_cases3)
  obtain ae alg where a: "check_algorithm (Algorithm lm) = (ae, alg)" by fastforce
  obtain me m mt where m: "check_mode (Mode lm) = (me, m, mt)" by (metis prod_cases3)
  obtain se sc where s: "check_status (Status lm) = (se, sc)" by fastforce
  obtain ee ex where x: "check_exclude lib (Exclude lm) = (ee, ex)" by fastforce
  obtain fe p where f: "check_filter cfg lib (trim_space (Filter lm)) = (fe, p)" by fastforce
  note all = assms [unfolded compileLimit_def k w a m s x f Let_def prod.case]
  have split: "E = [] \<and> X = Y" if "(if E \<noteq> [] then Inl E else Inr X) = Inr Y" for E :: "limit_error list" and X Y
    using that by (simp split: if_splits)
  note res = split [OF all, THEN conjunct2, unfolded prod.inject]
  have "ke = [] \<and> we = [] \<and> ae = [] \<and> me = [] \<and> se = [] \<and> validateID (ID lm) = None \<and> Rate lm > 0"
    using split [OF all, THEN conjunct1] by (simp split: if_splits option.splits)
  then have e: "ke = []" "we = []" "ae = []" "me = []" "se = []" "validateID (ID lm) = None" "Rate lm > 0" by simp_all
  note keys = compileKeys_ok [OF k [unfolded e]]
  note ok = check_window_ok [OF w [unfolded e]] check_algorithm_ok [OF a [unfolded e]] check_status_ok [OF s [unfolded e]]
  have c: "c = \<lparr>id_of = ID lm, keyParts = parts, strategy = ref, lmode = m, status = sc,
      message = (if Message lm = [] then defaultMessage else Message lm), exclude = ex,
      observe = (if Observe cfg then Some (NamePrefix cfg @ '':'' @ ID lm) else None), lfilter = p, cfgKey = cfg_key nl\<rparr>"
    and nl: "nl = lm\<lparr>Key := norms, Window := wt, Algorithm := alg, Mode := mt, Status := sc,
      Message := (if Message lm = [] then defaultMessage else Message lm), Filter := trim_space (Filter lm)\<rparr>"
    and st: "st = (if alg = ''sliding'' then Sliding (newSlidingWindow (Rate lm) d) else Fixed (fixed_new lib (Rate lm) d))"
    using res by (elim conjE, simp only:)+
  show "id_of c = ID lm" "strategy c = ref" "cfgKey c = cfg_key nl" "ID nl = ID lm"
    "Key nl = map part_key (keyParts c)"
    using keys by (simp_all add: c nl)
  show "limit_ok cfg c" using e keys ok by (auto simp: limit_ok_def defaultMessage_def c)
  have "\<forall>k \<in> set norms. CHR '','' \<notin> set k" using keys part_key_no_comma by (auto simp: list_all_iff)
  then show "normalised cfg nl" unfolding normalised_def using e ok keys by (auto simp: nl)
  show "\<exists>d. ParseDuration lib (Window lm) = Some d \<and> Window nl = duration_string d \<and>
      st = (if Algorithm nl = ''sliding'' then Sliding (newSlidingWindow (Rate nl) d) else Fixed (fixed_new lib (Rate nl) d))"
    using ok by (simp add: st nl)
  show "lmode c = modeShadow \<longleftrightarrow> Mode lm = ''shadow''"
    using m e by (auto simp: check_mode_def c split: if_splits)
qed

subsection \<open>SetLimits: all or nothing\<close>

lemma compileLimit_ref:
  "(\<exists>x. compileLimit cfg lib ref lm = Inr x) \<longleftrightarrow> (\<exists>x. compileLimit cfg lib 0 lm = Inr x)"
  by (simp add: compileLimit_def Let_def split: prod.split)

definition compiles :: "limiter_config \<Rightarrow> ('p, 'i, 'f) library \<Rightarrow> Limit \<Rightarrow> bool" where
  "compiles cfg lib lm \<longleftrightarrow> (\<exists>x. compileLimit cfg lib 0 lm = Inr x)"

lemma compiles_cases:
  obtains (ok) c nl st where "compileLimit cfg lib ref lm = Inr (c, nl, st)" and "compiles cfg lib lm"
  | (err) es where "compileLimit cfg lib ref lm = Inl es" and "\<not> compiles cfg lib lm"
  using compileLimit_ref [of cfg lib ref lm] unfolding compiles_def by (metis prod_cases3 sum.exhaust sum.distinct(1))

lemma compile_batch_keeps_errors: "berrs b \<noteq> [] \<Longrightarrow> berrs (compile_batch cfg lib i lims b) \<noteq> []"
  by (induction lims arbitrary: i b) (auto split: sum.splits)

lemma compile_batch_errors:
  assumes "berrs b = []"
  shows "berrs (compile_batch cfg lib i lims b) = [] \<longleftrightarrow>
    (\<forall>lm \<in> set lims. compiles cfg lib lm) \<and> distinct (map ID lims) \<and>
    ID ` set lims \<inter> id_of ` set (compiled b) = {}"
  using assms
proof (induction lims arbitrary: i b)
  case (Cons lm lims)
  show ?case
  proof (cases rule: compiles_cases [of cfg lib "length (bheap b)" lm])
    case (ok c nl st)
    have c: "id_of c = ID lm" using compileLimit_ok(1) [OF ok(1)] .
    show ?thesis
    proof (cases "ID lm \<in> id_of ` set (compiled b)")
      case True
      then show ?thesis using ok c
          compile_batch_keeps_errors [of "b\<lparr>berrs := berrs b @ [DuplicateID i (ID lm)]\<rparr>" cfg lib "Suc i" lims]
        by auto
    next
      case False
      then show ?thesis using ok c Cons by auto
    qed
  next
    case (err es)
    then show ?thesis
      using compile_batch_keeps_errors [of "b\<lparr>berrs := berrs b @ [InvalidLimit i (ID lm) es]\<rparr>" cfg lib "Suc i" lims]
      by auto
  qed
qed simp

text \<open>The batch a compilation builds: fresh consecutive references after the heap it started from.\<close>

definition matches :: "limiter_config \<Rightarrow> 'p compiledLimit \<Rightarrow> Limit \<Rightarrow> bool" where
  "matches cfg c nl \<longleftrightarrow>
     limit_ok cfg c \<and> normalised cfg nl \<and> cfgKey c = cfg_key nl \<and> id_of c = ID nl \<and> Key nl = map part_key (keyParts c)"

definition fresh_strategy :: "('p, 'i, 'f) library \<Rightarrow> Limit \<Rightarrow> 'f strategy \<Rightarrow> bool" where
  "fresh_strategy lib nl st \<longleftrightarrow>
     (\<exists>d. Window nl = duration_string d \<and>
        st = (if Algorithm nl = ''sliding'' then Sliding (newSlidingWindow (Rate nl) d)
              else Fixed (fixed_new lib (Rate nl) d)))"

definition batch_inv ::
  "limiter_config \<Rightarrow> ('p, 'i, 'f) library \<Rightarrow> 'f strategy list \<Rightarrow> ('p, 'f) batch \<Rightarrow> bool" where
  "batch_inv cfg lib h b \<longleftrightarrow>
     list_all2 (matches cfg) (compiled b) (bsource b) \<and> distinct (map id_of (compiled b)) \<and>
     map strategy (compiled b) = [length h..<length h + length (compiled b)] \<and>
     (\<exists>fr. bheap b = h @ fr \<and> list_all2 (fresh_strategy lib) (bsource b) fr)"

lemma batch_inv_add:
  assumes "batch_inv cfg lib h b" and "compileLimit cfg lib (length (bheap b)) lm = Inr (c, nl, st)"
    and "id_of c \<notin> id_of ` set (compiled b)"
  shows "batch_inv cfg lib h (b\<lparr>compiled := compiled b @ [c], bsource := bsource b @ [nl], bheap := bheap b @ [st]\<rparr>)"
proof -
  note ok = compileLimit_ok [OF assms(2)]
  have "matches cfg c nl" using ok by (simp add: matches_def)
  moreover have "fresh_strategy lib nl st" using ok(8) by (auto simp: fresh_strategy_def)
  moreover obtain fr where fr: "bheap b = h @ fr" "list_all2 (fresh_strategy lib) (bsource b) fr"
    and m: "list_all2 (matches cfg) (compiled b) (bsource b)"
    using assms(1) by (auto simp: batch_inv_def)
  moreover have "length fr = length (compiled b)" using list_all2_lengthD [OF fr(2)] list_all2_lengthD [OF m] by simp
  ultimately show ?thesis using assms(1,3) ok(2)
    by (auto simp: batch_inv_def list_all2_appendI)
qed

lemma compile_batch_inv:
  "batch_inv cfg lib h b \<Longrightarrow> batch_inv cfg lib h (compile_batch cfg lib i lims b)"
proof (induction lims arbitrary: i b)
  case (Cons lm lims)
  have same: "batch_inv cfg lib h (b\<lparr>berrs := es\<rparr>)" for es using Cons.prems by (simp add: batch_inv_def)
  show ?case using same Cons batch_inv_add [OF Cons.prems]
    by (auto split: sum.split)
qed simp

lemma compile_batch_ids:
  assumes "berrs (compile_batch cfg lib i lims b) = []"
  shows "map id_of (compiled (compile_batch cfg lib i lims b)) = map id_of (compiled b) @ map ID lims"
  using assms
proof (induction lims arbitrary: i b)
  case (Cons lm lims)
  have "berrs b = []" using Cons.prems compile_batch_keeps_errors by blast
  then have "compiles cfg lib lm" "ID lm \<notin> id_of ` set (compiled b)"
    using Cons.prems compile_batch_errors [of b cfg lib i "lm # lims"] by auto
  then show ?case
  proof (cases rule: compiles_cases [of cfg lib "length (bheap b)" lm])
    case (ok c nl st)
    then show ?thesis using Cons.IH Cons.prems \<open>ID lm \<notin> _\<close> compileLimit_ok(1) [OF ok(1)] by simp
  qed simp
qed simp

lemma carry_id [simp]: "id_of (carry s c) = id_of c" "cfgKey (carry s c) = cfgKey c" "keyParts (carry s c) = keyParts c"
  "limit_ok cfg (carry s c) = limit_ok cfg c"
  by (auto simp: carry_def limit_ok_def split: option.split)

lemma carry_matches [simp]: "matches cfg (carry s c) nl = matches cfg c nl"
  by (simp add: matches_def)

text \<open>C11. \<open>SetLimits\<close> is all or nothing: it succeeds exactly when every limit of the batch compiles and
  the ids are distinct, and then the live set has exactly the given ids in order; otherwise it
  reports errors and the limiter, counters included, is as before.\<close>
theorem SetLimits_all_or_nothing:
  "(case SetLimits cfg lib l lims of (errs, l') \<Rightarrow>
      if list_all (compiles cfg lib) lims \<and> distinct (map ID lims)
      then errs = [] \<and> IDs l' = map ID lims
      else errs \<noteq> [] \<and> l' = l)"
proof -
  let ?b = "\<lparr>berrs = [], compiled = [], bsource = [], bheap = heap l\<rparr>"
  show ?thesis
    using compile_batch_errors [of ?b cfg lib 0 lims] compile_batch_ids [of cfg lib 0 lims ?b]
    by (simp add: SetLimits_def Let_def IDs_def build_set_def comp_def list_all_iff)
qed


subsection \<open>The states a limiter reaches\<close>

text \<open>
  A limiter starts empty. A successful \<open>SetLimits\<close> publishes a new set; a request runs on a set that
  was live when it loaded the pointer, so every set that was ever live stays usable.
\<close>

inductive limiter_reach ::
  "limiter_config \<Rightarrow> ('p, 'i, 'f) library \<Rightarrow> ('p, 'f) limiter \<Rightarrow> 'p limit_set set \<Rightarrow> bool"
  for cfg lib where
  start: "limiter_reach cfg lib \<lparr>live = None, heap = []\<rparr> {}"
| swap: "limiter_reach cfg lib l S \<Longrightarrow> SetLimits cfg lib l lims = ([], l') \<Longrightarrow> live l' = Some s
    \<Longrightarrow> limiter_reach cfg lib l' (insert s S)"
| request: "limiter_reach cfg lib l S \<Longrightarrow> s \<in> S
    \<Longrightarrow> limiter_reach cfg lib (l\<lparr>heap := sheap (serve lib s r clk (heap l))\<rparr>) S"

definition set_ok :: "limiter_config \<Rightarrow> nat \<Rightarrow> 'p limit_set \<Rightarrow> bool" where
  "set_ok cfg n s \<longleftrightarrow>
     list_all2 (matches cfg) (limits s) (source s) \<and> distinct (map id_of (limits s)) \<and>
     distinct (map strategy (limits s)) \<and> (\<forall>c \<in> set (limits s). strategy c < n) \<and>
     s = build_set cfg (limits s) (source s)"

lemma set_ok_mono: "set_ok cfg n s \<Longrightarrow> n \<le> m \<Longrightarrow> set_ok cfg m s"
  by (force simp: set_ok_def)

lemma build_set_env:
  "asn (build_set cfg cs src) = ASN cfg" "country (build_set cfg cs src) = Country cfg"
  "knownHost (build_set cfg cs src) = KnownHost cfg" "limits (build_set cfg cs src) = cs"
  by (simp_all add: build_set_def)

lemma set_ok_env: "set_ok cfg n s \<Longrightarrow> asn s = ASN cfg" "set_ok cfg n s \<Longrightarrow> country s = Country cfg"
  unfolding set_ok_def by (metis build_set_env)+

lemma set_ok_limit: "set_ok cfg n s \<Longrightarrow> c \<in> set (limits s) \<Longrightarrow> limit_ok cfg c \<and> strategy c < n"
  by (auto simp: set_ok_def matches_def list_all2_conv_all_nth in_set_conv_nth)

lemma old_limits_iff:
  assumes "distinct (map id_of (limits s))"
  shows "old_limits (Some s) i = Some c \<longleftrightarrow> c \<in> set (limits s) \<and> id_of c = i"
proof -
  have "map fst (map (\<lambda>c. (id_of c, c)) (rev (limits s))) = rev (map id_of (limits s))" by (simp add: rev_map)
  then have "distinct (map fst (map (\<lambda>c. (id_of c, c)) (rev (limits s))))" using assms by simp
  then show ?thesis unfolding old_limits_def option.case by (auto simp: map_of_eq_Some_iff)
qed

lemma carry_cases:
  assumes "\<forall>s. o' = Some s \<longrightarrow> set_ok cfg n s"
  obtains (fresh) "strategy (carry o' c) = strategy c"
  | (old) s c' where "o' = Some s" "c' \<in> set (limits s)" "id_of c' = id_of c" "cfgKey c' = cfgKey c"
      "strategy (carry o' c) = strategy c'" "strategy c' < n"
proof (cases "\<exists>s c'. o' = Some s \<and> old_limits o' (id_of c) = Some c' \<and> cfgKey c' = cfgKey c")
  case True
  then obtain s c' where h: "o' = Some s" "old_limits o' (id_of c) = Some c'" "cfgKey c' = cfgKey c" by blast
  then have "set_ok cfg n s" using assms by simp
  then have "c' \<in> set (limits s)" "id_of c' = id_of c" "strategy c' < n"
    using h(1,2) old_limits_iff by (auto simp: set_ok_def)
  then show ?thesis using h old by (simp add: carry_def)
next
  case False
  then show ?thesis using fresh by (auto simp: carry_def old_limits_def split: option.splits)
qed

lemma carry_distinct:
  assumes old: "\<forall>s. o' = Some s \<longrightarrow> set_ok cfg n s" and ids: "distinct (map id_of cs)"
    and refs: "map strategy cs = [n..<n + length cs]"
  shows "distinct (map strategy (map (carry o') cs))"
proof -
  have dr: "distinct (map strategy cs)" and ge: "\<forall>c \<in> set cs. n \<le> strategy c"
  proof -
    show "distinct (map strategy cs)" by (simp add: refs)
    have "strategy ` set cs = set [n..<n + length cs]" using refs by (metis set_map)
    then show "\<forall>c \<in> set cs. n \<le> strategy c" by (metis atLeastLessThan_iff imageI set_upt)
  qed
  have "inj_on (\<lambda>c. strategy (carry o' c)) (set cs)"
  proof (rule inj_onI)
    fix c d assume m: "c \<in> set cs" "d \<in> set cs" and e: "strategy (carry o' c) = strategy (carry o' d)"
    have inj: "id_of c = id_of d \<Longrightarrow> c = d" "strategy c = strategy d \<Longrightarrow> c = d"
      using m ids dr by (auto simp: distinct_map dest: inj_onD)
    have oldinj: "x = y" if "o' = Some s" "x \<in> set (limits s)" "y \<in> set (limits s)" "strategy x = strategy y" for s x y
      using that old by (auto simp: set_ok_def distinct_map dest: inj_onD)
    have gc: "n \<le> strategy c" "n \<le> strategy d" using ge m by auto
    from old show "c = d"
    proof (cases rule: carry_cases [where c = c])
      case fresh
      from assms(1) show ?thesis using e gc inj(2) fresh by (cases rule: carry_cases [where c = d]) auto
    next
      case (old s c')
      note oc = old
      from assms(1) show ?thesis
      proof (cases rule: carry_cases [where c = d])
        case fresh
        then show ?thesis using e gc oc by auto
      next
        case (old s' d')
        then have "c' = d'" using oc e oldinj [of s c' d'] by simp
        then show ?thesis using inj(1) oc(3) old(3) by simp
      qed
    qed
  qed
  then show ?thesis using ids by (simp add: distinct_map comp_def)
qed

lemma serve_loop_heap [simp]:
  "length (sheap (serve_loop lib s r addr rawIP cookies clk n cs hp ev)) = length hp"
  by (induction cs arbitrary: n hp ev) (auto split: option.split prod.split simp: Let_def)

lemma serve_heap [simp]: "length (sheap (serve lib s r clk hp)) = length hp"
  by (simp add: serve_def Let_def)

lemma SetLimits_ok:
  assumes old: "\<forall>s. live l = Some s \<longrightarrow> set_ok cfg (length (heap l)) s"
    and eq: "SetLimits cfg lib l lims = ([], l')"
  obtains b where "batch_inv cfg lib (heap l) b" and "heap l' = bheap b"
    and "live l' = Some (build_set cfg (map (carry (live l)) (compiled b)) (bsource b))"
    and "set_ok cfg (length (heap l')) (build_set cfg (map (carry (live l)) (compiled b)) (bsource b))"
proof -
  let ?b0 = "\<lparr>berrs = [], compiled = [], bsource = [], bheap = heap l\<rparr>"
  let ?b = "compile_batch cfg lib 0 lims ?b0"
  have inv: "batch_inv cfg lib (heap l) ?b" by (rule compile_batch_inv) (simp add: batch_inv_def)
  have l': "heap l' = bheap ?b" "live l' = Some (build_set cfg (map (carry (live l)) (compiled ?b)) (bsource ?b))"
    using eq by (auto simp: SetLimits_def Let_def split: if_splits)
  obtain fr where h: "bheap ?b = heap l @ fr" and fr: "list_all2 (fresh_strategy lib) (bsource ?b) fr"
    and m: "list_all2 (matches cfg) (compiled ?b) (bsource ?b)" and ids: "distinct (map id_of (compiled ?b))"
    and refs: "map strategy (compiled ?b) = [length (heap l)..<length (heap l) + length (compiled ?b)]"
    using inv by (auto simp: batch_inv_def)
  have "length fr = length (compiled ?b)" using list_all2_lengthD [OF fr] list_all2_lengthD [OF m] by simp
  moreover have "strategy c < length (heap l) + length (compiled ?b)" if "c \<in> set (compiled ?b)" for c
  proof -
    have "strategy c \<in> set (map strategy (compiled ?b))" using that by simp
    then show ?thesis unfolding refs by simp
  qed
  ultimately have rng: "\<forall>c \<in> set (compiled ?b). strategy (carry (live l) c) < length (bheap ?b)"
    by (metis carry_cases [OF old] h length_append trans_less_add1)
  have "list_all2 (matches cfg) (map (carry (live l)) (compiled ?b)) (bsource ?b)"
    using m by (simp add: list_all2_map1)
  then have "set_ok cfg (length (heap l')) (build_set cfg (map (carry (live l)) (compiled ?b)) (bsource ?b))"
    using carry_distinct [OF old ids refs] ids rng l'(1)
    by (simp add: set_ok_def build_set_def comp_def)
  then show ?thesis using that inv l' by blast
qed

lemma limiter_reach_inv:
  assumes "limiter_reach cfg lib l S"
  shows "(\<forall>s. live l = Some s \<longrightarrow> s \<in> S) \<and> (\<forall>s \<in> S. set_ok cfg (length (heap l)) s)"
  using assms
proof (induction rule: limiter_reach.induct)
  case (swap l S lims l' s)
  then have old: "\<forall>s. live l = Some s \<longrightarrow> set_ok cfg (length (heap l)) s" by blast
  from SetLimits_ok [OF old swap(2)] obtain b where b: "batch_inv cfg lib (heap l) b" "heap l' = bheap b"
    "live l' = Some (build_set cfg (map (carry (live l)) (compiled b)) (bsource b))"
    "set_ok cfg (length (heap l')) (build_set cfg (map (carry (live l)) (compiled b)) (bsource b))" .
  have "length (heap l) \<le> length (heap l')" using b(1,2) by (auto simp: batch_inv_def)
  then show ?case using swap b(3,4) set_ok_mono by (metis insert_iff option.inject)
qed simp_all


definition shaping :: "Limit \<Rightarrow> string list \<times> string \<times> int \<times> string" where
  "shaping nl = (Key nl, Algorithm nl, Rate nl, Window nl)"

lemma carry_strategy:
  assumes "set_ok cfg n s" and "c \<in> set (limits s)" and "id_of c = id_of d"
  shows "strategy (carry (Some s) d) = (if cfgKey c = cfgKey d then strategy c else strategy d)"
proof -
  have "old_limits (Some s) (id_of d) = Some c" using assms old_limits_iff by (auto simp: set_ok_def)
  then show ?thesis by (simp add: carry_def)
qed

text \<open>C22. Live counters survive a reload: in a reachable limiter, after a successful \<open>SetLimits\<close>, a limit
  that keeps its id and its normalised key, algorithm, rate and window uses the same strategy
  object with its counters untouched, whatever else of the batch changed; a limit with a changed
  shape starts on a fresh strategy built for its new rate and window.\<close>
theorem SetLimits_keeps_counters:
  assumes "limiter_reach cfg lib l S" and "SetLimits cfg lib l lims = ([], l')"
    and "live l = Some s" and "live l' = Some s'"
    and "i < length (limits s)" and "j < length (limits s')"
    and "id_of (limits s ! i) = id_of (limits s' ! j)"
  shows "if shaping (source s ! i) = shaping (source s' ! j)
    then strategy (limits s' ! j) = strategy (limits s ! i) \<and>
      heap l' ! strategy (limits s' ! j) = heap l ! strategy (limits s ! i)
    else length (heap l) \<le> strategy (limits s' ! j) \<and>
      fresh_strategy lib (source s' ! j) (heap l' ! strategy (limits s' ! j))"
proof -
  have ok: "set_ok cfg (length (heap l)) s" using limiter_reach_inv [OF assms(1)] assms(3) by blast
  then have old: "\<forall>s. live l = Some s \<longrightarrow> set_ok cfg (length (heap l)) s" using assms(3) by simp
  from SetLimits_ok [OF old assms(2)] obtain b where b: "batch_inv cfg lib (heap l) b" "heap l' = bheap b"
    and s': "s' = build_set cfg (map (carry (Some s)) (compiled b)) (bsource b)"
    using assms(3,4) by (metis option.inject)
  obtain fr where h: "bheap b = heap l @ fr" and fr: "list_all2 (fresh_strategy lib) (bsource b) fr"
    and m: "list_all2 (matches cfg) (compiled b) (bsource b)"
    and refs: "map strategy (compiled b) = [length (heap l)..<length (heap l) + length (compiled b)]"
    using b(1) by (auto simp: batch_inv_def)
  have j: "j < length (compiled b)" "limits s' ! j = carry (Some s) (compiled b ! j)" "source s' = bsource b"
    using assms(6) by (auto simp: s' build_set_def)
  let ?c = "limits s ! i" and ?d = "compiled b ! j"
  have mc: "matches cfg ?c (source s ! i)" using ok assms(5) by (auto simp: set_ok_def list_all2_conv_all_nth)
  have md: "matches cfg ?d (bsource b ! j)" using m j(1) by (auto simp: list_all2_conv_all_nth)
  have "cfgKey ?c = cfgKey ?d \<longleftrightarrow> shaping (source s ! i) = shaping (source s' ! j)"
    using mc md cfg_key_inj [of cfg "source s ! i" cfg "bsource b ! j"] by (simp add: matches_def shaping_def j(3))
  then have st: "strategy (limits s' ! j) =
      (if shaping (source s ! i) = shaping (source s' ! j) then strategy ?c else strategy ?d)"
    using carry_strategy [OF ok, of ?c ?d] assms(5,7) j(2) by simp
  have "strategy ?d = map strategy (compiled b) ! j" using j(1) by simp
  then have sd: "strategy ?d = length (heap l) + j" unfolding refs using j(1) by simp
  have "fresh_strategy lib (bsource b ! j) (fr ! j)" using fr m j(1) by (auto simp: list_all2_conv_all_nth)
  moreover have "strategy ?c < length (heap l)" using ok assms(5) by (auto simp: set_ok_def)
  ultimately show ?thesis using st sd h b(2) by (auto simp: nth_append j(3))
qed

subsection \<open>Bucket keys\<close>

lemma those_map_Some: "\<forall>x \<in> set xs. f x \<noteq> None \<Longrightarrow> those (map f xs) = Some (map (\<lambda>x. the (f x)) xs)"
  by (induction xs) auto

lemma partValue_total:
  assumes "part_ok cfg p" and "asn s = ASN cfg" and "country s = Country cfg"
  shows "partValue s p r addr rawIP cookies \<noteq> None"
  using assms by (auto simp: partValue_def part_ok_def split: keyKind.splits)

lemma bucketKey_total:
  assumes "limit_ok cfg c" and "asn s = ASN cfg" and "country s = Country cfg"
  shows "bucketKey s (keyParts c) r addr rawIP cookies =
    Some (join_by (CHR 10) (map (\<lambda>p. the (partValue s p r addr rawIP cookies)) (keyParts c)))"
proof -
  have "\<forall>p \<in> set (keyParts c). partValue s p r addr rawIP cookies \<noteq> None"
  proof
    fix p assume "p \<in> set (keyParts c)"
    then have "part_ok cfg p" using assms(1) by (simp add: limit_ok_def list_all_iff)
    then show "partValue s p r addr rawIP cookies \<noteq> None" using assms(2,3) by (rule partValue_total)
  qed
  from those_map_Some [OF this] show ?thesis by (simp add: bucketKey_def)
qed

text \<open>A join whose parts are separator-free except at most one determines the parts.\<close>

lemma join_by_tail_inj:
  assumes "length xs = length ys" and "x @ c # join_by c xs = y @ c # join_by c ys" and "xs \<noteq> []"
    and "\<forall>z \<in> set xs \<union> set ys. c \<notin> set z"
  shows "x = y \<and> xs = ys"
  using assms
proof (induction xs ys arbitrary: x y rule: list_induct2)
  case (Cons a xs b ys)
  show ?case
  proof (cases "xs = []")
    case True
    then show ?thesis using Cons.hyps Cons.prems split_last [of x c a y b] by simp
  next
    case False
    then have "ys \<noteq> []" using Cons.hyps by auto
    then have e: "(x @ c # a) @ c # join_by c xs = (y @ c # b) @ c # join_by c ys"
      using Cons.prems(1) False by (simp add: join_by_Cons)
    from Cons.IH [OF e False] have "x @ c # a = y @ c # b \<and> xs = ys" using Cons.prems(3) by simp
    then show ?thesis using split_last [of x c a y b] Cons.prems(3) by simp
  qed
qed simp

lemma join_by_anchored:
  assumes "length xs = length ys" and "join_by c xs = join_by c ys" and "i < length xs"
    and "\<forall>j < length xs. j \<noteq> i \<longrightarrow> c \<notin> set (xs ! j) \<and> c \<notin> set (ys ! j)"
  shows "xs = ys"
  using assms
proof (induction xs ys arbitrary: i rule: list_induct2)
  case (Cons x xs y ys)
  show ?case
  proof (cases "xs = []")
    case True
    then show ?thesis using Cons by simp
  next
    case False
    then have ne: "ys \<noteq> []" using Cons.hyps by auto
    have e: "x @ c # join_by c xs = y @ c # join_by c ys" using Cons.prems(1) ne False by (simp add: join_by_Cons)
    show ?thesis
    proof (cases i)
      case 0
      have "c \<notin> set (xs ! j) \<and> c \<notin> set (ys ! j)" if "j < length xs" for j
        using Cons.prems(3) [rule_format, of "Suc j"] that 0 by simp
      then have "\<forall>z \<in> set xs \<union> set ys. c \<notin> set z" using Cons.hyps by (metis Un_iff in_set_conv_nth)
      then show ?thesis using join_by_tail_inj [OF Cons.hyps e False] by simp
    next
      case (Suc k)
      have "c \<notin> set x" "c \<notin> set y" using Cons.prems(3) [rule_format, of 0] Suc by auto
      from split_first [OF e this] have "x = y" "join_by c xs = join_by c ys" by auto
      moreover have "\<forall>j < length xs. j \<noteq> k \<longrightarrow> c \<notin> set (xs ! j) \<and> c \<notin> set (ys ! j)"
        using Cons.prems(3) Suc by force
      ultimately show ?thesis using Cons.IH [of k] Cons.prems(2) Suc by simp
    qed
  qed
qed simp


text \<open>What an HTTP server guarantees of a request: no control bytes in host, headers and cookies.\<close>

definition clean_request :: "'p limit_set \<Rightarrow> http_request \<Rightarrow> bool" where
  "clean_request s r \<longleftrightarrow>
     CHR 10 \<notin> set (Host r) \<and> (\<forall>n. CHR 10 \<notin> set (header_get r n)) \<and>
     (\<forall>c \<in> set (Cookies r). CHR 10 \<notin> set (snd c)) \<and>
     (case country s of None \<Rightarrow> True | Some f \<Rightarrow> CHR 10 \<notin> set (f r))"

lemma newline_free_part:
  assumes "clean_request s r" and "kind p \<noteq> keyIP" and "ck = map_of (Cookies r) \<or> ck = Map.empty"
    and "partValue s p r addr rawIP ck = Some v"
  shows "CHR 10 \<notin> set v"
proof -
  have t: "CHR 10 \<notin> set (truncPart x)" if "CHR 10 \<notin> set x" for x
    using that by (auto simp: truncPart_def dest: in_set_takeD)
  have "CHR 10 \<notin> set (nat_digits n)" for n by (rule nat_digits_no) simp
  then have i: "CHR 10 \<notin> set (itoa n)" for n by (simp add: itoa_def)
  have h: "CHR 10 \<notin> set (hostKey (Host r) (knownHost s))"
    using assms(1) by (auto simp: hostKey_def collapsedHost_def clean_request_def split: option.split)
  have c: "CHR 10 \<notin> set (case ck n of None \<Rightarrow> [] | Some v \<Rightarrow> v)" for n
  proof (cases "ck n")
    case (Some v)
    then have "(n, v) \<in> set (Cookies r)" using assms(3) map_of_SomeD by fastforce
    then show ?thesis using assms(1) Some by (force simp: clean_request_def)
  qed simp
  show ?thesis
    using assms(1,2,4) t [OF c] t i h
    by (cases "kind p") (auto simp: partValue_def clean_request_def)
qed

lemma one_ip_part:
  assumes "distinct (map part_key ps)" and "i < length ps" and "j < length ps" and "kind (ps ! i) = keyIP" and "kind (ps ! j) = keyIP"
  shows "i = j"
  using assms nth_eq_iff_index_eq [of "map part_key ps" i j] by (simp add: part_key_def)

text \<open>Bucket keys are unambiguous: for a limit of a reachable set and two requests without newlines in
  host, headers, cookies and country, the composed keys are equal only if every part has the same
  value in both. (The raw bytes of an address may contain the separator; there is at most one
  such part.)\<close>
theorem bucketKey_unambiguous:
  assumes "limiter_reach cfg lib l S" and "s \<in> S" and "c \<in> set (limits s)"
    and "clean_request s r" and "clean_request s r'"
    and "bucketKey s (keyParts c) r addr rawIP (map_of (Cookies r)) = bucketKey s (keyParts c) r' addr' rawIP' (map_of (Cookies r'))"
    and "p \<in> set (keyParts c)"
  shows "partValue s p r addr rawIP (map_of (Cookies r)) = partValue s p r' addr' rawIP' (map_of (Cookies r'))"
proof -
  let ?v = "\<lambda>p. partValue s p r addr rawIP (map_of (Cookies r))"
    and ?v' = "\<lambda>p. partValue s p r' addr' rawIP' (map_of (Cookies r'))" and ?ps = "keyParts c"
  have sok: "set_ok cfg (length (heap l)) s" using limiter_reach_inv [OF assms(1)] assms(2) by blast
  then have lk: "limit_ok cfg c" and env: "asn s = ASN cfg" "country s = Country cfg"
    using set_ok_limit set_ok_env assms(3) by blast+
  have tot: "?v q \<noteq> None" "?v' q \<noteq> None" if "q \<in> set ?ps" for q
    using that lk env partValue_total unfolding limit_ok_def list_all_iff by blast+
  have free: "CHR 10 \<notin> set (the (?v q)) \<and> CHR 10 \<notin> set (the (?v' q))" if "q \<in> set ?ps" "kind q \<noteq> keyIP" for q
    using newline_free_part [OF assms(4) that(2)] newline_free_part [OF assms(5) that(2)] tot [OF that(1)]
    by (metis option.collapse)
  have ne: "?ps \<noteq> []" and di: "distinct (map part_key ?ps)" using lk by (auto simp: limit_ok_def)
  have "join_by (CHR 10) (map (\<lambda>q. the (?v q)) ?ps) = join_by (CHR 10) (map (\<lambda>q. the (?v' q)) ?ps)"
    using assms(6) bucketKey_total [OF lk env] by simp
  moreover obtain i where i: "i < length ?ps" "\<forall>j < length ?ps. j \<noteq> i \<longrightarrow> kind (?ps ! j) \<noteq> keyIP"
    using one_ip_part [OF di] ne by (metis length_greater_0_conv)
  ultimately have "map (\<lambda>q. the (?v q)) ?ps = map (\<lambda>q. the (?v' q)) ?ps"
    using free by (intro join_by_anchored [of _ _ "CHR 10" i]) auto
  then have "the (?v p) = the (?v' p)" using assms(7) by simp
  then show ?thesis using tot [OF assms(7)] by (metis option.collapse)
qed


subsection \<open>The decision on a request\<close>

definition applies :: "('p, 'i, 'f) library \<Rightarrow> 'p limit_set \<Rightarrow> http_request \<Rightarrow> 'p compiledLimit \<Rightarrow> bool" where
  "applies lib s r c \<longleftrightarrow> \<not> skip c (req_addr lib s r) \<and> in_scope lib s r c"

definition req_key :: "('p, 'i, 'f) library \<Rightarrow> 'p limit_set \<Rightarrow> http_request \<Rightarrow> 'p compiledLimit \<Rightarrow> string" where
  "req_key lib s r c = the (bucketKey s (keyParts c) r (req_addr lib s r) (req_rawIP s r) (req_cookies s r))"

text \<open>The clock reading at which the \<open>i\<close>-th limit of a list takes: one per applicable limit before it.\<close>

definition reading :: "('p, 'i, 'f) library \<Rightarrow> 'p limit_set \<Rightarrow> http_request \<Rightarrow> 'p compiledLimit list \<Rightarrow> nat \<Rightarrow> nat" where
  "reading lib s r cs i = length (filter (applies lib s r) (take i cs))"

text \<open>The \<open>i\<close>-th limit enforces, applies to the request, and its strategy, as it was when the request
  arrived, has no token for the request's bucket.\<close>

definition denied ::
  "('p, 'i, 'f) library \<Rightarrow> 'p limit_set \<Rightarrow> http_request \<Rightarrow> (nat \<Rightarrow> time) \<Rightarrow> nat \<Rightarrow> 'p compiledLimit list
    \<Rightarrow> 'f strategy list \<Rightarrow> nat \<Rightarrow> bool" where
  "denied lib s r clk n cs hp i \<longleftrightarrow>
     i < length cs \<and> applies lib s r (cs ! i) \<and> lmode (cs ! i) = modeEnforce \<and>
     \<not> fst (strategy_take lib (hp ! strategy (cs ! i)) (clk (n + reading lib s r cs i)) (req_key lib s r (cs ! i)))"

lemma reading_simps [simp]:
  "reading lib s r cs 0 = 0"
  "reading lib s r (c # cs) (Suc i) = (if applies lib s r c then 1 else 0) + reading lib s r cs i"
  by (simp_all add: reading_def)

lemma denied_Suc:
  assumes "strategy c \<notin> strategy ` set cs"
  shows "denied lib s r clk n (c # cs) hp (Suc i) =
    denied lib s r clk (if applies lib s r c then Suc n else n) cs (hp[strategy c := st]) i"
proof (cases "i < length cs")
  case True
  then have "strategy (cs ! i) \<noteq> strategy c" using assms by (metis image_eqI nth_mem)
  then show ?thesis by (simp add: denied_def)
qed (simp add: denied_def)

lemma denied_0:
  "denied lib s r clk n (c # cs) hp 0 \<longleftrightarrow>
     applies lib s r c \<and> lmode c = modeEnforce \<and> \<not> fst (strategy_take lib (hp ! strategy c) (clk n) (req_key lib s r c))"
  by (simp add: denied_def)

fun decided ::
  "(nat \<Rightarrow> bool) \<Rightarrow> 'p compiledLimit list \<Rightarrow> response \<Rightarrow> bool" where
  "decided d cs Next \<longleftrightarrow> (\<forall>i. \<not> d i)"
| "decided d cs (Reject st m ra) \<longleftrightarrow>
     (\<exists>i. d i \<and> (\<forall>j < i. \<not> d j) \<and> st = status (cs ! i) \<and> m = message (cs ! i) \<and> (\<forall>n. ra = Some n \<longrightarrow> 1 \<le> n))"
| "decided d cs Panic \<longleftrightarrow> False"

lemma decided_Cons:
  assumes "decided d cs x" and "\<not> d' 0" and "\<And>i. d' (Suc i) = d i"
  shows "decided d' (c # cs) x"
proof (cases x)
  case Next
  then show ?thesis using assms by (metis decided.simps(1) not0_implies_Suc)
next
  case (Reject st m ra)
  then obtain i where "d i" "\<forall>j < i. \<not> d j" "st = status (cs ! i)" "m = message (cs ! i)" "\<forall>n. ra = Some n \<longrightarrow> 1 \<le> n"
    using assms(1) by auto
  then show ?thesis using assms(2,3) unfolding Reject decided.simps
    by (intro exI [of _ "Suc i"]) (auto simp: less_Suc_eq_0_disj)
next
  case Panic
  then show ?thesis using assms by simp
qed

lemma retry_after_pos: "retry_after a = Some n \<Longrightarrow> 1 \<le> n"
proof -
  assume "retry_after a = Some n"
  then have a: "0 < a" and n: "n = (a + second - 1) sdiv second" by (auto simp: retry_after_def split: if_splits)
  have "n = (a + second - 1) div second" using a by (simp add: n sdiv_nonneg)
  then show ?thesis using a by linarith
qed

lemma serve_loop_decided:
  assumes "\<forall>c \<in> set cs. limit_ok cfg c" and "asn s = ASN cfg" and "country s = Country cfg"
    and "distinct (map strategy cs)"
  shows "decided (denied lib s r clk n cs hp) cs
    (response (serve_loop lib s r (req_addr lib s r) (req_rawIP s r) (req_cookies s r) clk n cs hp ev))"
  using assms(1,4)
proof (induction cs arbitrary: n hp ev)
  case Nil
  then show ?case by (simp add: denied_def)
next
  case (Cons c cs)
  let ?loop = "serve_loop lib s r (req_addr lib s r) (req_rawIP s r) (req_cookies s r) clk"
  have k: "bucketKey s (keyParts c) r (req_addr lib s r) (req_rawIP s r) (req_cookies s r) = Some (req_key lib s r c)"
    using bucketKey_total [of cfg c s r "req_addr lib s r" "req_rawIP s r" "req_cookies s r"] Cons.prems(1) assms(2,3)
    by (simp add: req_key_def)
  have nin: "strategy c \<notin> strategy ` set cs" using Cons.prems(2) by simp
  have ih: "decided (denied lib s r clk m cs h) cs (response (?loop m cs h e))" for m h e
    using Cons by simp
  obtain ok st where t: "strategy_take lib (hp ! strategy c) (clk n) (req_key lib s r c) = (ok, st)" by fastforce
  show ?case
  proof (cases "applies lib s r c")
    case False
    then have "?loop n (c # cs) hp ev = ?loop n cs hp ev" by (auto simp: applies_def)
    then show ?thesis using decided_Cons [OF ih [of n hp ev]] False denied_Suc [OF nin, of lib s r clk n hp _ "hp ! strategy c"]
      by (simp add: denied_0)
  next
    case True
    then have loop: "?loop n (c # cs) hp ev =
      (if ok \<or> lmode c = modeShadow then ?loop (Suc n) cs (hp[strategy c := st]) (ev @ report c ok)
       else \<lparr>response = Reject (status c) (message c) (retry_after (strategy_after lib st (clk (Suc n)) (req_key lib s r c))),
             sheap = hp[strategy c := st], events = ev @ report c ok\<rparr>)"
      using k t by (auto simp: applies_def Let_def)
    show ?thesis
    proof (cases "ok \<or> lmode c = modeShadow")
      case pass: True
      then show ?thesis using decided_Cons [OF ih [of "Suc n" "hp[strategy c := st]" "ev @ report c ok"]] loop True t
          denied_Suc [OF nin, of lib s r clk n hp _ st] by (auto simp: denied_0)
    next
      case False
      then have "denied lib s r clk n (c # cs) hp 0" using True t by (cases "lmode c") (auto simp: denied_0)
      then show ?thesis using loop False retry_after_pos by (auto intro!: exI [of _ 0])
    qed
  qed
qed


text \<open>C8. The decision on a request: on any set a limiter ever published, \<open>serve\<close> never panics; a request
  passes exactly when it is an ACME challenge or no enforcing, applicable limit is out of tokens
  for its bucket; otherwise the first such limit in declaration order rejects it with its own
  message, status 429 or 503, and a \<open>Retry-After\<close> of at least one second when one is sent.\<close>
theorem serve_decision:
  assumes "limiter_reach cfg lib l S" and "s \<in> S"
  shows "case response (serve lib s r clk (heap l)) of
      Next \<Rightarrow> has_prefix (RequestURI r) acmeChallengePrefix \<or>
        (\<forall>i. \<not> denied lib s r clk 0 (limits s) (heap l) i)
    | Reject st m ra \<Rightarrow> \<not> has_prefix (RequestURI r) acmeChallengePrefix \<and> st \<in> {429, 503} \<and>
        (\<exists>i. denied lib s r clk 0 (limits s) (heap l) i \<and> (\<forall>j < i. \<not> denied lib s r clk 0 (limits s) (heap l) j) \<and>
          st = status (limits s ! i) \<and> m = message (limits s ! i)) \<and> (\<forall>n. ra = Some n \<longrightarrow> 1 \<le> n)
    | Panic \<Rightarrow> False"
proof (cases "has_prefix (RequestURI r) acmeChallengePrefix")
  case True
  then show ?thesis by (simp add: serve_def)
next
  case False
  let ?x = "response (serve lib s r clk (heap l))" and ?d = "denied lib s r clk 0 (limits s) (heap l)"
  have ok: "set_ok cfg (length (heap l)) s" using limiter_reach_inv [OF assms(1)] assms(2) by blast
  then have lk: "\<forall>c \<in> set (limits s). limit_ok cfg c" and di: "distinct (map strategy (limits s))"
    using set_ok_limit by (auto simp: set_ok_def)
  have d: "decided ?d (limits s) ?x"
    using serve_loop_decided [OF lk set_ok_env [OF ok] di] False by (simp add: serve_def)
  show ?thesis
  proof (cases ?x)
    case Next
    then show ?thesis using d by simp
  next
    case (Reject st m ra)
    then obtain i where i: "?d i" "\<forall>j < i. \<not> ?d j" "st = status (limits s ! i)" "m = message (limits s ! i)"
      and ra: "\<forall>n. ra = Some n \<longrightarrow> 1 \<le> n" using d by auto
    have "status (limits s ! i) \<in> {429, 503}" using lk i(1) by (auto simp: denied_def limit_ok_def)
    then show ?thesis using False i ra Reject by auto
  next
    case Panic
    then show ?thesis using d by simp
  qed
qed

lemma serve_loop_frame:
  assumes "\<forall>c \<in> set cs. applies lib s r c \<longrightarrow> strategy c \<noteq> ref"
  shows "sheap (serve_loop lib s r (req_addr lib s r) (req_rawIP s r) (req_cookies s r) clk n cs hp ev) ! ref = hp ! ref"
  using assms by (induction cs arbitrary: n hp ev) (auto simp: applies_def Let_def split: option.split prod.split)

text \<open>A request consumes tokens only of the limits that apply to it: a strategy all of whose limits
  exclude the client's address, or have a filter that is false or fails on the request, keeps its
  counters; and an ACME challenge consumes none at all.\<close>
theorem serve_counts_only_applicable:
  assumes "has_prefix (RequestURI r) acmeChallengePrefix \<or>
    (\<forall>c \<in> set (limits s). applies lib s r c \<longrightarrow> strategy c \<noteq> ref)"
  shows "sheap (serve lib s r clk hp) ! ref = hp ! ref"
  using assms serve_loop_frame [of "limits s" lib s r ref] by (auto simp: serve_def)

text \<open>An instance for the witnesses: one sliding limit of one request per ten seconds and host.\<close>

definition demo_cfg :: limiter_config where
  "demo_cfg = \<lparr>NamePrefix = ''global'', Observe = True, KnownHost = None, Country = None, ASN = None,
     FilterCostLimit = 0, FilterDisableMacros = False\<rparr>"

definition demo_lib :: "(unit, unit, unit) library" where
  "demo_lib = \<lparr>ParseDuration = (\<lambda>t. if t = ''10s'' then Some 10000000000 else if t = ''1m'' then Some 60000000000 else None),
     ParsePrefix = (\<lambda>_. None), ParseAddr = (\<lambda>_. None), NewPredicate = (\<lambda>_ _. Some ()), NewInput = (\<lambda>_ _ _ _. ()),
     Eval = (\<lambda>_ _. Some True), fixed_new = (\<lambda>_ _. ()), fixed_take = (\<lambda>f _ _. (True, f)), fixed_after = (\<lambda>_ _ _. 0)\<rparr>"

definition demo_limit :: Limit where
  "demo_limit = \<lparr>ID = ''a'', Key = [''host'', ''ip''], Rate = 1, Window = ''10s'', Algorithm = ''sliding'', Mode = [],
     Status = 0, Message = [], Exclude = [], Filter = []\<rparr>"

definition demo_request :: http_request where
  "demo_request = \<lparr>Host = ''h'', RequestURI = ''/'', header_get = (\<lambda>_. ''x''), Cookies = []\<rparr>"

definition demo_limiter :: "(unit, unit) limiter" where
  "demo_limiter = snd (SetLimits demo_cfg demo_lib \<lparr>live = None, heap = []\<rparr> [demo_limit])"

definition demo_set :: "unit limit_set" where
  "demo_set = the (live demo_limiter)"

lemma demo_start:
  shows demo_live: "live demo_limiter = Some demo_set"
    and demo_reach: "limiter_reach demo_cfg demo_lib demo_limiter {demo_set}"
proof -
  let ?r = "SetLimits demo_cfg demo_lib \<lparr>live = None, heap = []\<rparr> [demo_limit]"
  have "fst ?r = []" "live (snd ?r) \<noteq> None" by code_simp+
  then show l: "live demo_limiter = Some demo_set" and "limiter_reach demo_cfg demo_lib demo_limiter {demo_set}"
  proof -
    assume f: "fst ?r = []" and n: "live (snd ?r) \<noteq> None"
    show l: "live demo_limiter = Some demo_set" using n by (auto simp: demo_limiter_def demo_set_def)
    have "?r = ([], demo_limiter)" using f by (simp add: demo_limiter_def prod_eq_iff)
    from limiter_reach.swap [OF limiter_reach.start this l] show "limiter_reach demo_cfg demo_lib demo_limiter {demo_set}" .
  qed
qed


theorem serve_decision_witness:
  "limiter_reach demo_cfg demo_lib demo_limiter {demo_set} \<and>
   response (serve demo_lib demo_set demo_request (\<lambda>_. 5) (heap demo_limiter)) = Next \<and>
   (\<forall>i. \<not> denied demo_lib demo_set demo_request (\<lambda>_. 5) 0 (limits demo_set) (heap demo_limiter) i)"
proof -
  have "response (serve demo_lib demo_set demo_request (\<lambda>_. 5) (heap demo_limiter)) = Next"
    "\<not> has_prefix (RequestURI demo_request) acmeChallengePrefix" by code_simp+
  then show ?thesis using serve_decision [OF demo_reach, of demo_set demo_request "\<lambda>_. 5"] demo_reach by simp
qed

theorem serve_counts_only_applicable_witness:
  "sheap (serve demo_lib demo_set (demo_request\<lparr>RequestURI := acmeChallengePrefix\<rparr>) (\<lambda>_. 5) (heap demo_limiter)) ! 0 =
   heap demo_limiter ! 0"
  by (rule serve_counts_only_applicable) (simp add: has_prefix_def)

theorem bucketKey_unambiguous_witness:
  "partValue demo_set (plain_part keyHost) demo_request NoAddr ''x'' (map_of (Cookies demo_request)) =
   partValue demo_set (plain_part keyHost) (demo_request\<lparr>RequestURI := ''/b''\<rparr>) NoAddr ''x'' (map_of (Cookies (demo_request\<lparr>RequestURI := ''/b''\<rparr>)))"
proof (rule bucketKey_unambiguous [OF demo_reach])
  let ?c = "hd (limits demo_set)"
  show "?c \<in> set (limits demo_set)" "plain_part keyHost \<in> set (keyParts ?c)" by code_simp+
  show "clean_request demo_set demo_request" "clean_request demo_set (demo_request\<lparr>RequestURI := ''/b''\<rparr>)"
  proof -
    have "country demo_set = None" by code_simp
    then show "clean_request demo_set demo_request" "clean_request demo_set (demo_request\<lparr>RequestURI := ''/b''\<rparr>)"
      by (simp_all add: clean_request_def demo_request_def)
  qed
  show "bucketKey demo_set (keyParts ?c) demo_request NoAddr ''x'' (map_of (Cookies demo_request)) =
      bucketKey demo_set (keyParts ?c) (demo_request\<lparr>RequestURI := ''/b''\<rparr>) NoAddr ''x''
        (map_of (Cookies (demo_request\<lparr>RequestURI := ''/b''\<rparr>)))" by code_simp
qed simp

text \<open>A reload that changes the message and adds a limit.\<close>

definition demo_reloaded :: "(unit, unit) limiter" where
  "demo_reloaded = snd (SetLimits demo_cfg demo_lib demo_limiter
     [demo_limit\<lparr>ID := ''b'', Key := []\<rparr>, demo_limit\<lparr>Message := ''slow down'', Key := [''host'', '''']\<rparr>])"

theorem SetLimits_keeps_counters_witness:
  "strategy (limits (the (live demo_reloaded)) ! 1) = strategy (limits demo_set ! 0) \<and>
   heap demo_reloaded ! strategy (limits (the (live demo_reloaded)) ! 1) = heap demo_limiter ! strategy (limits demo_set ! 0)"
proof -
  let ?r = "SetLimits demo_cfg demo_lib demo_limiter
     [demo_limit\<lparr>ID := ''b'', Key := []\<rparr>, demo_limit\<lparr>Message := ''slow down'', Key := [''host'', '''']\<rparr>]"
  have "fst ?r = []" "live (snd ?r) \<noteq> None" by code_simp+
  then have r: "?r = ([], demo_reloaded)" "live demo_reloaded = Some (the (live demo_reloaded))"
    by (auto simp: demo_reloaded_def prod_eq_iff)
  have f: "0 < length (limits demo_set)" "1 < length (limits (the (live demo_reloaded)))"
    "id_of (limits demo_set ! 0) = id_of (limits (the (live demo_reloaded)) ! 1)"
    and e: "shaping (source demo_set ! 0) = shaping (source (the (live demo_reloaded)) ! 1)" by code_simp+
  show ?thesis using SetLimits_keeps_counters [OF demo_reach r(1) demo_live r(2) f] unfolding e by argo
qed


end
