(* ===== verification/Config_Reload.thy ===== *)
theory Config_Reload
  imports Config_Docs Rate_Limiter
begin

text \<open>
  The reload passes of the controller, \<open>reloadWAFDebounced\<close>, \<open>reloadRateLimitDebounced\<close>,
  \<open>reloadCorazaDebounced\<close> and \<open>reloadTransformDebounced\<close>. Each rebuilds a global instance and a
  registry of zone instances from the watched ConfigMaps, skips inputs whose fingerprint is
  unchanged, and keeps what it had when an input is bad. The first three share one shape
  (\<open>reload_pass\<close>) and differ in how documents are applied to an instance; a mutex serialises the
  passes, so a pass is one function on the registry.

  The locale \<open>applicable\<close> states what such a feature promises: whether documents apply, and what is
  live after they do, depends on the documents alone; \<open>reloadable\<close> is the case of document lists. Inside it the pass with its fingerprint
  shortcut is shown to refine a pass that always applies everything.
\<close>

record 'i registry =
  global_inst :: 'i
  global_fp :: string
  zones :: "string \<rightharpoonup> 'i"
  zone_fps :: "string \<rightharpoonup> string"

definition read_fp :: "(string \<rightharpoonup> string) \<Rightarrow> string \<Rightarrow> string" where
  "read_fp m k = (case m k of None \<Rightarrow> [] | Some f \<Rightarrow> f)"

definition reload_global ::
  "(string list \<Rightarrow> string) \<Rightarrow> (string list \<Rightarrow> 'i \<Rightarrow> 'i option) \<Rightarrow> string list \<Rightarrow> 'i registry \<Rightarrow> 'i registry" where
  "reload_global fp app docs r =
     (if fp docs \<noteq> global_fp r then
        case app docs (global_inst r) of
          None \<Rightarrow> r
        | Some i \<Rightarrow> r\<lparr>global_inst := i, global_fp := fp docs\<rparr>
      else r)"

definition reload_zone ::
  "(string list \<Rightarrow> string) \<Rightarrow> (string list \<Rightarrow> 'i \<Rightarrow> 'i option) \<Rightarrow> (string \<Rightarrow> 'i) \<Rightarrow> 'i registry \<Rightarrow> string
    \<Rightarrow> string list \<Rightarrow> 'i \<times> string" where
  "reload_zone fp app new r key docs =
     (let old = read_fp (zone_fps r) key;
          again = (\<lambda>i. case app docs i of None \<Rightarrow> (i, old) | Some i' \<Rightarrow> (i', fp docs))
      in case zones r key of
           Some i \<Rightarrow> if fp docs = old then (i, fp docs) else again i
         | None \<Rightarrow> again (new key))"

definition reload_pass ::
  "(string list \<Rightarrow> string) \<Rightarrow> (string list \<Rightarrow> 'i \<Rightarrow> 'i option) \<Rightarrow> (string \<Rightarrow> 'i) \<Rightarrow> string list \<Rightarrow> string
    \<Rightarrow> string \<Rightarrow> configmap list \<Rightarrow> 'i registry \<Rightarrow> 'i registry" where
  "reload_pass fp app new keys label pod cms r =
     (let zd = zone_docs keys label cms
      in (reload_global fp app (global_docs keys label pod cms) r)
         \<lparr>zones := (\<lambda>key. map_option (\<lambda>docs. fst (reload_zone fp app new r key docs)) (zd key)),
          zone_fps := (\<lambda>key. map_option (\<lambda>docs. snd (reload_zone fp app new r key docs)) (zd key))\<rparr>)"

text \<open>How each feature applies documents to an instance. \<open>None\<close> is an error; the instance is as before.\<close>

definition apply_waf ::
  "(string \<Rightarrow> Rule list option) \<Rightarrow> (waf_rule list \<Rightarrow> 'w \<Rightarrow> 'w option) \<Rightarrow> string list \<Rightarrow> 'w \<Rightarrow> 'w option" where
  "apply_waf decode set_rules docs w =
     (let (rules, errs) = waf_parse_docs decode docs in if errs \<noteq> [] then None else set_rules rules w)"

type_synonym ('p, 'f) rl_instance = "limiter_config \<times> ('p, 'f) limiter"

definition apply_limits ::
  "(string \<Rightarrow> Limit list option) \<Rightarrow> ('p, 'i, 'f) library \<Rightarrow> string list \<Rightarrow> ('p, 'f) rl_instance \<Rightarrow> ('p, 'f) rl_instance option" where
  "apply_limits decode lib docs inst =
     (let (lims, errs) = parse_docs decode docs in
      if errs \<noteq> [] then None
      else let (errs', l) = SetLimits (fst inst) lib (snd inst) lims in
        if errs' \<noteq> [] then None else Some (fst inst, l))"

text \<open>\<open>corazawaf.Instance.SetDirectives\<close>: blank input unloads the rules.\<close>

definition SetDirectives :: "(string \<Rightarrow> 'c option) \<Rightarrow> string list \<Rightarrow> 'c option \<Rightarrow> 'c option option" where
  "SetDirectives compile docs cu =
     (let directives = trim_space (join_by (CHR 10) docs) in
      if directives = [] then Some None else map_option Some (compile directives))"

definition newRateLimiter :: "limiter_config \<Rightarrow> string \<Rightarrow> ('p, 'f) rl_instance" where
  "newRateLimiter cfg namePrefix = (cfg\<lparr>NamePrefix := namePrefix\<rparr>, \<lparr>live = None, heap = []\<rparr>)"

definition InitRateLimit :: "limiter_config \<Rightarrow> ('p, 'f) rl_instance registry" where
  "InitRateLimit cfg =
     \<lparr>global_inst = newRateLimiter cfg ''global'', global_fp = [], zones = Map.empty, zone_fps = Map.empty\<rparr>"

definition reloadWAFDebounced ::
  "bool \<Rightarrow> (string \<Rightarrow> string) \<Rightarrow> (string \<Rightarrow> Rule list option) \<Rightarrow> (waf_rule list \<Rightarrow> 'w \<Rightarrow> 'w option) \<Rightarrow> 'w \<Rightarrow> string
    \<Rightarrow> configmap list \<Rightarrow> 'w registry \<Rightarrow> 'w registry" where
  "reloadWAFDebounced enabled sha decode set_rules newWAF pod cms r =
     (if enabled then
        reload_pass (fingerprintDocs sha) (apply_waf decode set_rules) (\<lambda>_. newWAF) ctrl_featureLabelKeys wafLabelKey pod cms r
      else r)"

definition reloadRateLimitDebounced ::
  "bool \<Rightarrow> (string \<Rightarrow> string) \<Rightarrow> (string \<Rightarrow> Limit list option) \<Rightarrow> ('p, 'i, 'f) library \<Rightarrow> limiter_config \<Rightarrow> string
    \<Rightarrow> configmap list \<Rightarrow> ('p, 'f) rl_instance registry \<Rightarrow> ('p, 'f) rl_instance registry" where
  "reloadRateLimitDebounced enabled sha decode lib cfg pod cms r =
     (if enabled then
        reload_pass (fingerprintDocs sha) (apply_limits decode lib) (\<lambda>key. newRateLimiter cfg (''zone:'' @ key))
          ctrl_featureLabelKeys rateLimitLabelKey pod cms r
      else r)"

definition reloadCorazaDebounced ::
  "bool \<Rightarrow> (string \<Rightarrow> string) \<Rightarrow> (string \<Rightarrow> 'c option) \<Rightarrow> string
    \<Rightarrow> configmap list \<Rightarrow> 'c option registry \<Rightarrow> 'c option registry" where
  "reloadCorazaDebounced enabled sha compile pod cms r =
     (if enabled then
        reload_pass (fingerprintDocs sha) (SetDirectives compile) (\<lambda>_. None) ctrl_featureLabelKeys corazaLabelKey pod cms r
      else r)"

text \<open>
  The transform pass: compiled sets are immutable and swapped as pointers; without a global
  document the global set is dropped, and a zone whose first input is bad is not registered.
\<close>

definition reloadTransformDebounced ::
  "bool \<Rightarrow> (string \<Rightarrow> string) \<Rightarrow> (string list \<Rightarrow> 'z option) \<Rightarrow> string
    \<Rightarrow> configmap list \<Rightarrow> 'z option registry \<Rightarrow> 'z option registry" where
  "reloadTransformDebounced enabled sha parse pod cms r =
     (if \<not> enabled then r
      else
        let fp = fingerprintDocs sha;
            gd = global_docs ctrl_featureLabelKeys transformLabelKey pod cms;
            zd = zone_docs ctrl_featureLabelKeys transformLabelKey cms;
            r1 = (if fp gd \<noteq> global_fp r then
                    (if gd = [] then r\<lparr>global_inst := None, global_fp := fp gd\<rparr>
                     else case parse gd of
                       None \<Rightarrow> r
                     | Some z \<Rightarrow> r\<lparr>global_inst := Some z, global_fp := fp gd\<rparr>)
                  else r);
            step = (\<lambda>key docs.
              case zones r key of
                Some z \<Rightarrow>
                  if fp docs = read_fp (zone_fps r) key then Some (z, fp docs)
                  else (case parse docs of
                    None \<Rightarrow> Some (z, read_fp (zone_fps r) key)
                  | Some z' \<Rightarrow> Some (Some z', fp docs))
              | None \<Rightarrow> map_option (\<lambda>z'. (Some z', fp docs)) (parse docs))
        in r1\<lparr>zones := (\<lambda>key. Option.bind (zd key) (\<lambda>docs. map_option fst (step key docs))),
              zone_fps := (\<lambda>key. Option.bind (zd key) (\<lambda>docs. map_option snd (step key docs)))\<rparr>)"

subsection \<open>The contract of a reloadable feature\<close>

text \<open>What serves requests, without fingerprints: the view of the global instance and of each zone.\<close>

record 'v views =
  gview :: 'v
  zview :: "string \<rightharpoonup> 'v"

definition views_of :: "('i \<Rightarrow> 'v) \<Rightarrow> 'i registry \<Rightarrow> 'v views" where
  "views_of view r = \<lparr>gview = view (global_inst r), zview = (\<lambda>key. map_option view (zones r key))\<rparr>"

text \<open>The reference pass: apply every input; a bad one leaves what was there, or a fresh instance.\<close>

definition spec_pass ::
  "(string list \<Rightarrow> 'v option) \<Rightarrow> (string \<Rightarrow> 'v) \<Rightarrow> string list \<Rightarrow> string \<Rightarrow> string \<Rightarrow> configmap list \<Rightarrow> 'v views \<Rightarrow> 'v views" where
  "spec_pass meaning fresh keys label pod cms s =
     \<lparr>gview = (case meaning (global_docs keys label pod cms) of None \<Rightarrow> gview s | Some v \<Rightarrow> v),
      zview = (\<lambda>key. map_option
        (\<lambda>docs. case meaning docs of
           Some v \<Rightarrow> v
         | None \<Rightarrow> (case zview s key of Some v \<Rightarrow> v | None \<Rightarrow> fresh key))
        (zone_docs keys label cms key))\<rparr>"

text \<open>A stored fingerprint vouches for the documents it is the fingerprint of, among those in \<open>D\<close>.\<close>

definition vouched ::
  "('i \<Rightarrow> 'v) \<Rightarrow> (string list \<Rightarrow> 'v option) \<Rightarrow> ('i \<Rightarrow> bool) \<Rightarrow> (string list \<Rightarrow> string) \<Rightarrow> string list set
    \<Rightarrow> 'i registry \<Rightarrow> bool" where
  "vouched view meaning wfi fp D r \<longleftrightarrow>
     wfi (global_inst r) \<and> (\<forall>key i. zones r key = Some i \<longrightarrow> wfi i) \<and>
     (\<forall>key. zones r key = None \<longrightarrow> zone_fps r key = None) \<and>
     (\<forall>docs \<in> D. global_fp r = fp docs \<longrightarrow> meaning docs = Some (view (global_inst r))) \<and>
     (\<forall>docs \<in> D. \<forall>key i. zones r key = Some i \<longrightarrow> read_fp (zone_fps r) key = fp docs \<longrightarrow> meaning docs = Some (view i))"

locale applicable =
  fixes app :: "'d \<Rightarrow> 'i \<Rightarrow> 'i option"
    and view :: "'i \<Rightarrow> 'v"
    and meaning :: "'d \<Rightarrow> 'v option"
    and wfi :: "'i \<Rightarrow> bool"
  assumes app_Some: "wfi i \<Longrightarrow> app docs i = Some i' \<Longrightarrow> wfi i' \<and> meaning docs = Some (view i')"
    and app_None: "wfi i \<Longrightarrow> app docs i = None \<Longrightarrow> meaning docs = None"

locale reloadable = applicable app view meaning wfi
  for app :: "string list \<Rightarrow> 'i \<Rightarrow> 'i option"
    and view :: "'i \<Rightarrow> 'v"
    and meaning :: "string list \<Rightarrow> 'v option"
    and wfi :: "'i \<Rightarrow> bool"
begin

lemma reload_zone_refines:
  assumes "vouched view meaning wfi fp D r" and "docs \<in> D" and "wfi (new key)"
  shows "view (fst (reload_zone fp app new r key docs)) =
      (case meaning docs of Some v \<Rightarrow> v | None \<Rightarrow> (case map_option view (zones r key) of Some v \<Rightarrow> v | None \<Rightarrow> view (new key)))"
    and "wfi (fst (reload_zone fp app new r key docs))"
proof -
  have w: "wfi i" if "zones r key = Some i" for i using assms(1) that by (simp add: vouched_def)
  have m: "meaning docs = Some (view i)" if "zones r key = Some i" "fp docs = read_fp (zone_fps r) key" for i
    using assms(1,2) that by (simp add: vouched_def)
  show "view (fst (reload_zone fp app new r key docs)) =
      (case meaning docs of Some v \<Rightarrow> v | None \<Rightarrow> (case map_option view (zones r key) of Some v \<Rightarrow> v | None \<Rightarrow> view (new key)))"
    using w m assms(3) app_Some app_None
    by (cases "zones r key") (fastforce simp: reload_zone_def Let_def split: option.splits)+
  show "wfi (fst (reload_zone fp app new r key docs))"
    using w assms(3) app_Some by (auto simp: reload_zone_def Let_def split: option.splits)
qed

lemma reload_zone_fp:
  assumes "vouched view meaning wfi fp D r" and "inj_on fp D" and "[] \<notin> fp ` D" and "docs \<in> D" and "docs' \<in> D" and "wfi (new key)"
    and "snd (reload_zone fp app new r key docs) = fp docs'"
  shows "meaning docs' = Some (view (fst (reload_zone fp app new r key docs)))"
proof -
  let ?old = "read_fp (zone_fps r) key"
  define i where "i = (case zones r key of Some i \<Rightarrow> i | None \<Rightarrow> new key)"
  have wi: "wfi i" using assms(1,6) by (auto simp: i_def vouched_def split: option.split)
  have same: "meaning docs' = Some (view i)" if "?old = fp docs'"
  proof (cases "zones r key")
    case None
    then have "?old = []" using assms(1) by (simp add: vouched_def read_fp_def)
    then show ?thesis using that assms(3,5) by force
  next
    case (Some j)
    then show ?thesis using that assms(1,5) by (simp add: vouched_def i_def)
  qed
  have "(reload_zone fp app new r key docs = (i, fp docs) \<and> fp docs = ?old) \<or>
      reload_zone fp app new r key docs = (i, ?old) \<or>
      (\<exists>i'. reload_zone fp app new r key docs = (i', fp docs) \<and> app docs i = Some i')"
    by (cases "zones r key") (auto simp: reload_zone_def Let_def i_def split: option.split)
  then consider (skip) "reload_zone fp app new r key docs = (i, fp docs)" "fp docs = ?old"
    | (bad) "reload_zone fp app new r key docs = (i, ?old)"
    | (good) i' where "reload_zone fp app new r key docs = (i', fp docs)" "app docs i = Some i'"
    by blast
  then show ?thesis
  proof cases
    case skip
    then show ?thesis using same assms(7) by simp
  next
    case bad
    then show ?thesis using same assms(7) by simp
  next
    case good
    then have "docs' = docs" using assms(2,4,5,7) by (auto dest: inj_onD)
    then show ?thesis using good app_Some [OF wi] by simp
  qed
qed

lemma reload_global_refines:
  assumes "vouched view meaning wfi fp D r" and "docs \<in> D"
  shows "view (global_inst (reload_global fp app docs r)) = (case meaning docs of None \<Rightarrow> view (global_inst r) | Some v \<Rightarrow> v)"
    and "wfi (global_inst (reload_global fp app docs r))"
    and "inj_on fp D \<Longrightarrow> docs' \<in> D \<Longrightarrow> global_fp (reload_global fp app docs r) = fp docs' \<Longrightarrow>
      meaning docs' = Some (view (global_inst (reload_global fp app docs r)))"
proof -
  have w: "wfi (global_inst r)" and v: "\<And>d. d \<in> D \<Longrightarrow> global_fp r = fp d \<Longrightarrow> meaning d = Some (view (global_inst r))"
    using assms(1) by (auto simp: vouched_def)
  have m: "meaning docs = Some (view (global_inst r))" if "fp docs = global_fp r" using v [OF assms(2)] that by simp
  show "view (global_inst (reload_global fp app docs r)) = (case meaning docs of None \<Rightarrow> view (global_inst r) | Some v \<Rightarrow> v)"
    using m app_Some [OF w] app_None [OF w] by (auto simp: reload_global_def split: option.splits)
  show "wfi (global_inst (reload_global fp app docs r))"
    using w app_Some [OF w] by (auto simp: reload_global_def split: option.split)
  show "meaning docs' = Some (view (global_inst (reload_global fp app docs r)))"
    if "inj_on fp D" "docs' \<in> D" "global_fp (reload_global fp app docs r) = fp docs'"
    using that v app_Some [OF w] inj_onD [OF that(1) _ assms(2) that(2)]
    by (auto simp: reload_global_def split: option.splits if_splits)
qed

lemma reload_pass_refines:
  assumes "vouched view meaning wfi fp D r" and "inj_on fp D" and "[] \<notin> fp ` D" and "\<And>key. wfi (new key)"
    and "global_docs keys label pod cms \<in> D" and "ran (zone_docs keys label cms) \<subseteq> D"
  shows "views_of view (reload_pass fp app new keys label pod cms r) =
      spec_pass meaning (\<lambda>key. view (new key)) keys label pod cms (views_of view r)"
    and "vouched view meaning wfi fp D (reload_pass fp app new keys label pod cms r)"
proof -
  have zd: "docs \<in> D" if "zone_docs keys label cms key = Some docs" for key docs using that assms(6) by (auto simp: ran_def)
  show "views_of view (reload_pass fp app new keys label pod cms r) =
      spec_pass meaning (\<lambda>key. view (new key)) keys label pod cms (views_of view r)"
  proof (rule views.equality)
    show "zview (views_of view (reload_pass fp app new keys label pod cms r)) =
        zview (spec_pass meaning (\<lambda>key. view (new key)) keys label pod cms (views_of view r))"
    proof
      fix key
      show "zview (views_of view (reload_pass fp app new keys label pod cms r)) key =
          zview (spec_pass meaning (\<lambda>key. view (new key)) keys label pod cms (views_of view r)) key"
        using reload_zone_refines(1) [OF assms(1) zd, of key _ new key] assms(4)
        by (cases "zone_docs keys label cms key") (simp_all add: views_of_def spec_pass_def reload_pass_def Let_def split: option.split)
    qed
  qed (use reload_global_refines(1) [OF assms(1,5)] in \<open>simp_all add: views_of_def spec_pass_def reload_pass_def Let_def split: option.split\<close>)
  show "vouched view meaning wfi fp D (reload_pass fp app new keys label pod cms r)"
    unfolding vouched_def reload_pass_def
    using reload_global_refines(2,3) [OF assms(1,5)] assms(2)
      reload_zone_refines(2) [OF assms(1) zd assms(4)] reload_zone_fp [OF assms(1-3) zd _ assms(4)]
    by (auto simp: Let_def read_fp_def)
qed

text \<open>Over a whole run of passes, the fingerprints never change what serves.\<close>

lemma reload_run_refines:
  assumes "vouched view meaning wfi fp D r" and "inj_on fp D" and "[] \<notin> fp ` D" and "\<And>key. wfi (new key)"
    and "\<forall>cms \<in> set run. global_docs keys label pod cms \<in> D \<and> ran (zone_docs keys label cms) \<subseteq> D"
  shows "views_of view (foldl (\<lambda>r cms. reload_pass fp app new keys label pod cms r) r run) =
    foldl (\<lambda>s cms. spec_pass meaning (\<lambda>key. view (new key)) keys label pod cms s) (views_of view r) run"
  using assms(1,5)
proof (induction run arbitrary: r)
  case (Cons cms run)
  then have d: "global_docs keys label pod cms \<in> D" "ran (zone_docs keys label cms) \<subseteq> D" by auto
  show ?case
    using Cons.IH [OF reload_pass_refines(2) [OF Cons.prems(1) assms(2,3,4) d]] Cons.prems(2)
      reload_pass_refines(1) [OF Cons.prems(1) assms(2,3,4) d] by simp
qed simp

end

subsection \<open>The rate limiter is reloadable\<close>

text \<open>The normalised limits a batch compiles to; only the resolvers and filter knobs of the
  configuration matter, not the metric prefix.\<close>

definition normal_form :: "limiter_config \<Rightarrow> ('p, 'i, 'f) library \<Rightarrow> Limit \<Rightarrow> Limit" where
  "normal_form cfg lib lm = (case compileLimit cfg lib 0 lm of Inr (_, nl, _) \<Rightarrow> nl | Inl _ \<Rightarrow> lm)"

definition limits_meaning ::
  "(string \<Rightarrow> Limit list option) \<Rightarrow> ('p, 'i, 'f) library \<Rightarrow> limiter_config \<Rightarrow> string list \<Rightarrow> Limit list option" where
  "limits_meaning decode lib cfg docs =
     (let (lims, errs) = parse_docs decode docs in
      if errs = [] \<and> list_all (compiles cfg lib) lims \<and> distinct (map ID lims)
      then Some (map (normal_form cfg lib) lims) else None)"

definition norm_result :: "limit_error list + 'p compiledLimit \<times> Limit \<times> 'f strategy \<Rightarrow> limit_error list + Limit" where
  "norm_result = map_sum id (\<lambda>(c, nl, st). nl)"

lemma compileLimit_prefix:
  "norm_result (compileLimit (cfg\<lparr>NamePrefix := p\<rparr>) lib ref lm) = norm_result (compileLimit cfg lib ref' lm)"
proof -
  have fields: "ASN (cfg\<lparr>NamePrefix := p\<rparr>) = ASN cfg" "Country (cfg\<lparr>NamePrefix := p\<rparr>) = Country cfg"
    "FilterCostLimit (cfg\<lparr>NamePrefix := p\<rparr>) = FilterCostLimit cfg"
    "FilterDisableMacros (cfg\<lparr>NamePrefix := p\<rparr>) = FilterDisableMacros cfg" by simp_all
  have k: "compileKey (cfg\<lparr>NamePrefix := p\<rparr>) = compileKey cfg"
    unfolding compileKey_def fields by (rule refl)
  have f: "check_filter (cfg\<lparr>NamePrefix := p\<rparr>) lib = check_filter cfg lib"
    unfolding check_filter_def filterOptions_def fields by (rule refl)
  show ?thesis by (simp add: norm_result_def compileLimit_def compileKeys_def k f Let_def split: prod.split)
qed

lemma compileLimit_same:
  assumes "cfg\<lparr>NamePrefix := []\<rparr> = cfg'\<lparr>NamePrefix := []\<rparr>"
  shows "norm_result (compileLimit cfg lib ref lm) = norm_result (compileLimit cfg' lib ref' lm)"
  using compileLimit_prefix [where cfg = cfg and p = "[]" and ref' = ref] assms
    compileLimit_prefix [where cfg = cfg' and p = "[]" and ref' = ref'] by metis

lemma norm_result_Inr: "norm_result x = Inr nl \<longleftrightarrow> (\<exists>c st. x = Inr (c, nl, st))"
  by (cases x) (auto simp: norm_result_def)

lemma compiles_same:
  assumes "cfg\<lparr>NamePrefix := []\<rparr> = cfg'\<lparr>NamePrefix := []\<rparr>"
  shows "compiles cfg lib = compiles cfg' lib"
proof
  fix lm
  have "compiles c lib lm \<longleftrightarrow> (\<exists>nl. norm_result (compileLimit c lib 0 lm) = Inr nl)" for c
    unfolding compiles_def norm_result_Inr by (metis prod_cases3)
  then show "compiles cfg lib lm = compiles cfg' lib lm" using compileLimit_same [OF assms, of lib 0 lm 0] by simp
qed

lemma normal_form_eq:
  assumes "cfg\<lparr>NamePrefix := []\<rparr> = cfg'\<lparr>NamePrefix := []\<rparr>" and "compileLimit cfg lib ref lm = Inr (c, nl, st)"
  shows "normal_form cfg' lib lm = nl"
proof -
  have "norm_result (compileLimit cfg' lib 0 lm) = Inr nl"
    using compileLimit_same [OF assms(1), of lib ref lm 0] assms(2) by (simp add: norm_result_def)
  then show ?thesis by (auto simp: norm_result_Inr normal_form_def)
qed

lemma compile_batch_source:
  assumes "berrs (compile_batch cfg lib i lims b) = []" and "cfg\<lparr>NamePrefix := []\<rparr> = cfg'\<lparr>NamePrefix := []\<rparr>"
  shows "bsource (compile_batch cfg lib i lims b) = bsource b @ map (normal_form cfg' lib) lims"
  using assms(1)
proof (induction lims arbitrary: i b)
  case (Cons lm lims)
  have "berrs b = []" using Cons.prems compile_batch_keeps_errors by blast
  then have "compiles cfg lib lm" and nin: "ID lm \<notin> id_of ` set (compiled b)"
    using Cons.prems compile_batch_errors [of b cfg lib i "lm # lims"] by auto
  then show ?case
  proof (cases rule: compiles_cases [of cfg lib "length (bheap b)" lm])
    case (ok c nl st)
    then show ?thesis
      using Cons nin compileLimit_ok(1) [OF ok(1)] normal_form_eq [OF assms(2) ok(1)] by simp
  qed simp
qed simp

lemma SetLimits_Limits:
  assumes "cfg\<lparr>NamePrefix := []\<rparr> = cfg'\<lparr>NamePrefix := []\<rparr>"
  shows "fst (SetLimits cfg lib l lims) = [] \<longleftrightarrow> list_all (compiles cfg' lib) lims \<and> distinct (map ID lims)"
    and "fst (SetLimits cfg lib l lims) = [] \<Longrightarrow> Limits (snd (SetLimits cfg lib l lims)) = map (normal_form cfg' lib) lims"
proof -
  let ?b = "\<lparr>berrs = [], compiled = [], bsource = [], bheap = heap l\<rparr>"
  show "fst (SetLimits cfg lib l lims) = [] \<longleftrightarrow> list_all (compiles cfg' lib) lims \<and> distinct (map ID lims)"
    using compile_batch_errors [of ?b cfg lib 0 lims] compiles_same [OF assms, of lib]
    by (simp add: SetLimits_def Let_def list_all_iff)
  show "fst (SetLimits cfg lib l lims) = [] \<Longrightarrow> Limits (snd (SetLimits cfg lib l lims)) = map (normal_form cfg' lib) lims"
    using compile_batch_source [OF _ assms, of lib 0 lims ?b]
    by (auto simp: SetLimits_def Let_def Limits_def build_set_def split: if_splits)
qed

interpretation rl: reloadable "apply_limits decode lib" "\<lambda>inst. Limits (snd inst)" "limits_meaning decode lib cfg"
    "\<lambda>inst. (fst inst)\<lparr>NamePrefix := []\<rparr> = cfg\<lparr>NamePrefix := []\<rparr>"
  for decode lib cfg
proof
  fix inst inst' :: "('a, 'c) rl_instance" and docs
  assume wfi: "(fst inst)\<lparr>NamePrefix := []\<rparr> = cfg\<lparr>NamePrefix := []\<rparr>"
  note sl = SetLimits_Limits [OF wfi, of lib "snd inst"]
  show "(fst inst')\<lparr>NamePrefix := []\<rparr> = cfg\<lparr>NamePrefix := []\<rparr> \<and> limits_meaning decode lib cfg docs = Some (Limits (snd inst'))"
    if "apply_limits decode lib docs inst = Some inst'"
    using that wfi sl by (auto simp: apply_limits_def limits_meaning_def split_def Let_def split: if_splits)
  show "limits_meaning decode lib cfg docs = None" if "apply_limits decode lib docs inst = None"
    using that sl(1) by (auto simp: apply_limits_def limits_meaning_def split_def Let_def split: if_splits)
qed

text \<open>Coraza instances are reloadable outright: what is live is what the directives compile to.\<close>

interpretation coraza: reloadable "SetDirectives compile" "\<lambda>c. c"
    "\<lambda>docs. SetDirectives compile docs None" "\<lambda>_. True" for compile
  by unfold_locales (auto simp: SetDirectives_def Let_def)

text \<open>C18. The rate-limit reload refines its specification: over any run of reload passes on any contents of
  the watched store, the global set and every zone serve exactly the limits that applying every
  input would give. A bad batch leaves what served before, a removed zone is dropped, and the
  fingerprint shortcut never changes what serves, provided the hash separates the inputs seen.\<close>
theorem reload_ratelimit_refines:
  assumes "inj_on (fingerprintDocs sha) D" and "[] \<notin> fingerprintDocs sha ` D"
    and "\<forall>cms \<in> set run. global_docs ctrl_featureLabelKeys rateLimitLabelKey pod cms \<in> D \<and>
      ran (zone_docs ctrl_featureLabelKeys rateLimitLabelKey cms) \<subseteq> D"
  shows "views_of (\<lambda>inst. Limits (snd inst))
      (foldl (\<lambda>r cms. reloadRateLimitDebounced True sha decode lib cfg pod cms r) (InitRateLimit cfg) run) =
    foldl (\<lambda>s cms. spec_pass (limits_meaning decode lib cfg) (\<lambda>_. []) ctrl_featureLabelKeys rateLimitLabelKey pod cms s)
      \<lparr>gview = [], zview = Map.empty\<rparr> run"
proof -
  have v: "vouched (\<lambda>inst. Limits (snd inst)) (limits_meaning decode lib cfg)
      (\<lambda>inst. (fst inst)\<lparr>NamePrefix := []\<rparr> = cfg\<lparr>NamePrefix := []\<rparr>) (fingerprintDocs sha) D (InitRateLimit cfg)"
    unfolding vouched_def using assms(2)
    by (auto simp: InitRateLimit_def newRateLimiter_def image_iff)
  have n: "(fst (newRateLimiter cfg (''zone:'' @ key)))\<lparr>NamePrefix := []\<rparr> = cfg\<lparr>NamePrefix := []\<rparr>" for key
    by (simp add: newRateLimiter_def)
  show ?thesis
    using rl.reload_run_refines [OF v assms(1,2) n assms(3)]
    by (simp add: reloadRateLimitDebounced_def InitRateLimit_def newRateLimiter_def views_of_def Limits_def)
qed

text \<open>Tenants are isolated: for any feature, two watched stores that agree on the ConfigMaps of a
  namespace give the same zones of that namespace, and the same global instance if it is the
  controller's own. So nothing a tenant writes reaches the global set or another tenant's zones.\<close>
theorem reload_isolation:
  assumes "well_keyed cms" and "well_keyed cms'" and "dns_namespaces cms" and "dns_namespaces cms'"
    and "CHR ''/'' \<notin> set ns" and "\<forall>cm. cm_namespace cm = ns \<longrightarrow> (cm \<in> set cms \<longleftrightarrow> cm \<in> set cms')"
  shows "zones (reload_pass fp app new keys label pod cms r) (ns @ ''/'' @ n) =
      zones (reload_pass fp app new keys label pod cms' r) (ns @ ''/'' @ n) \<and>
    (ns = pod \<longrightarrow> global_inst (reload_pass fp app new keys label pod cms r) =
      global_inst (reload_pass fp app new keys label pod cms' r))"
  using zone_docs_isolated [OF assms, of keys label n] global_docs_isolated [OF assms(1,2), of pod keys label] assms(6)
  by (auto simp: reload_pass_def Let_def)

text \<open>A reload pass does not depend on the order in which the watched store is iterated.\<close>
theorem reload_order_irrelevant:
  assumes "well_keyed cms" and "dns_namespaces cms" and "mset cms = mset cms'"
  shows "reload_pass fp app new keys label pod cms r = reload_pass fp app new keys label pod cms' r"
  using zone_docs_order [OF assms, of keys label] global_docs_order [OF assms(1,3), of keys label pod]
  by (simp add: reload_pass_def Let_def)

text \<open>An instance for the witnesses: one tenant zone and one global ConfigMap.\<close>

definition demo_zone_cm :: configmap where
  "demo_zone_cm = \<lparr>cm_namespace = ''a'', cm_name = ''z'', cm_labels = [rateLimitLabelKey \<mapsto> roleZone], cm_data = [(''k'', ''doc'')]\<rparr>"

definition demo_global_cm :: configmap where
  "demo_global_cm = \<lparr>cm_namespace = ''sys'', cm_name = ''g'', cm_labels = [rateLimitLabelKey \<mapsto> roleGlobal], cm_data = [(''k'', ''doc'')]\<rparr>"

lemma demo_accepted:
  "accepted ctrl_featureLabelKeys rateLimitLabelKey demo_zone_cm" "has_role rateLimitLabelKey roleZone demo_zone_cm"
  "zone_key demo_zone_cm = ''a/z''" "global_docs ctrl_featureLabelKeys rateLimitLabelKey ''sys'' [demo_zone_cm] = []"
  "sortedDataValues (cm_data demo_zone_cm) = [''doc'']"
  by code_simp+

lemma demo_zone_docs:
  "zone_docs ctrl_featureLabelKeys rateLimitLabelKey [demo_zone_cm] = [''a/z'' \<mapsto> [''doc'']]"
  by (rule ext) (simp add: zone_docs_def demo_accepted)

lemma demo_well_keyed: "well_keyed [demo_zone_cm, demo_global_cm]" "dns_namespaces [demo_zone_cm, demo_global_cm]"
  by (simp_all add: well_keyed_def dns_namespaces_def demo_zone_cm_def demo_global_cm_def)

theorem reload_ratelimit_refines_witness:
  "zview (views_of (\<lambda>inst. Limits (snd inst))
      (foldl (\<lambda>r cms. reloadRateLimitDebounced True (\<lambda>t. CHR ''h'' # t) (\<lambda>_. Some [demo_limit]) demo_lib demo_cfg ''sys'' cms r)
        (InitRateLimit demo_cfg) [[demo_zone_cm]])) ''a/z'' = Some [normal_form demo_cfg demo_lib demo_limit]"
proof -
  let ?fp = "fingerprintDocs (\<lambda>t. CHR ''h'' # t)"
  have i: "inj_on ?fp {[], [''doc'']}" "[] \<notin> ?fp ` {[], [''doc'']}"
    by (auto simp: inj_on_def fingerprintDocs_def le64_def)
  have d: "\<forall>cms \<in> set [[demo_zone_cm]]. global_docs ctrl_featureLabelKeys rateLimitLabelKey ''sys'' cms \<in> {[], [''doc'']} \<and>
      ran (zone_docs ctrl_featureLabelKeys rateLimitLabelKey cms) \<subseteq> {[], [''doc'']}"
    by (simp add: demo_accepted demo_zone_docs)
  have "\<not> isl (compileLimit demo_cfg demo_lib 0 demo_limit)" by code_simp
  then have "compiles demo_cfg demo_lib demo_limit"
    unfolding compiles_def by (cases "compileLimit demo_cfg demo_lib 0 demo_limit") auto
  moreover have "trim_space ''doc'' \<noteq> []" by code_simp
  ultimately have "limits_meaning (\<lambda>_. Some [demo_limit]) demo_lib demo_cfg [''doc''] = Some [normal_form demo_cfg demo_lib demo_limit]"
    by (simp add: limits_meaning_def)
  then show ?thesis
    unfolding reload_ratelimit_refines [OF i d] by (simp add: spec_pass_def demo_zone_docs)
qed

definition demo_registry :: "string list registry" where
  "demo_registry = \<lparr>global_inst = [], global_fp = [], zones = Map.empty, zone_fps = Map.empty\<rparr>"

definition demo_pass :: "configmap list \<Rightarrow> string list registry" where
  "demo_pass cms = reload_pass frame_docs (\<lambda>docs _. Some docs) (\<lambda>_. []) ctrl_featureLabelKeys rateLimitLabelKey ''sys'' cms demo_registry"

theorem reload_isolation_witness:
  "zones (demo_pass [demo_zone_cm, demo_global_cm]) (''a'' @ ''/'' @ ''z'') = zones (demo_pass [demo_zone_cm]) (''a'' @ ''/'' @ ''z'')"
  unfolding demo_pass_def
  by (rule reload_isolation [THEN conjunct1])
    (auto simp: well_keyed_def dns_namespaces_def demo_zone_cm_def demo_global_cm_def)

theorem reload_order_irrelevant_witness:
  "demo_pass [demo_zone_cm, demo_global_cm] = demo_pass [demo_global_cm, demo_zone_cm]"
  unfolding demo_pass_def by (rule reload_order_irrelevant [OF demo_well_keyed]) simp

end
