(* ===== verification/Edge_Policy.thy ===== *)
theory Edge_Policy
  imports Policy_Server Config_Reload
begin

section \<open>Policies at the edge\<close>

text \<open>
  The edge's side of policy distribution: fetching a payload (\<^verbatim>\<open>edge/cp.go\<close>), applying it
  (\<open>EdgeWAF.Update\<close>, \<open>EdgeRateLimit.Update\<close>, \<open>EdgeCoraza.Update\<close>, \<open>EdgeCacheOverride.Update\<close>), resolving
  a request's zone (\<^verbatim>\<open>edge/zoneroute.go\<close>) and stamping the WAF claim (\<^verbatim>\<open>edge/waf.go\<close>), with the core's use of
  the claim (\<open>GlobalWAF\<close> in \<^verbatim>\<open>controller_waf.go\<close>).

  The four edge policies have one shape: a global instance, a registry of zone instances, the zone
  matcher, the generation and the ETag of the last clean apply. They differ in how documents are
  applied to an instance. The mux behind the matcher and the JSON decoder are parameters.
\<close>

record 'i edge_policy =
  ep_global :: 'i
  ep_zones :: "string \<rightharpoonup> 'i"
  ep_patterns :: "string gomap"
  ep_knownHosts :: "string list"
  ep_generation :: nat
  ep_etag :: string

definition new_edge :: "'i \<Rightarrow> 'i edge_policy" where
  "new_edge g = \<lparr>ep_global = g, ep_zones = Map.empty, ep_patterns = [], ep_knownHosts = [], ep_generation = 0, ep_etag = []\<rparr>"

definition newZoneMatcher :: "string gomap \<Rightarrow> string gomap \<Rightarrow> string gomap" where
  "newZoneMatcher routeZone hostZone =
     (if routeZone = [] \<and> hostZone \<noteq> [] then map (\<lambda>(host, key). (host @ ''/'', key)) hostZone else routeZone)"

text \<open>\<open>Zone\<close>: the instance in front of a request; \<open>mux\<close> finds the pattern's handler as \<^verbatim>\<open>http.ServeMux\<close> does.\<close>

definition edge_zone :: "(string gomap \<Rightarrow> 'r \<Rightarrow> string option) \<Rightarrow> 'i edge_policy \<Rightarrow> 'r \<Rightarrow> 'i option" where
  "edge_zone mux e r = (case mux (ep_patterns e) r of None \<Rightarrow> None | Some key \<Rightarrow> ep_zones e key)"

definition apply_keep :: "('d \<Rightarrow> 'i \<Rightarrow> 'i option) \<Rightarrow> 'd \<Rightarrow> 'i \<Rightarrow> 'i" where
  "apply_keep app docs i = (case app docs i of None \<Rightarrow> i | Some i' \<Rightarrow> i')"

definition zone_base :: "(string \<Rightarrow> 'i) \<Rightarrow> 'i edge_policy \<Rightarrow> string \<Rightarrow> 'i" where
  "zone_base new e key = (case ep_zones e key of None \<Rightarrow> new key | Some z \<Rightarrow> z)"

text \<open>\<open>Update\<close>: every document set is applied on its own, keeping the previous one if it is rejected; the
  registry and the matcher are replaced; generation and ETag advance only when nothing was
  rejected. The result says whether that was so.\<close>

definition edge_update ::
  "('d \<Rightarrow> 'i \<Rightarrow> 'i option) \<Rightarrow> (string \<Rightarrow> 'i) \<Rightarrow> ('d, 'x) snapshot_scheme \<Rightarrow> string \<Rightarrow> 'i edge_policy \<Rightarrow> bool \<times> 'i edge_policy" where
  "edge_update app new p etag e =
     (let clean = (\<not> Option.is_none (app (sn_global p) (ep_global e)) \<and>
            list_all (\<lambda>(key, docs). \<not> Option.is_none (app docs (zone_base new e key))) (sn_zones p));
          e' = e\<lparr>ep_global := apply_keep app (sn_global p) (ep_global e),
                 ep_zones := (\<lambda>key. map_option (\<lambda>docs. apply_keep app docs (zone_base new e key)) (map_of (sn_zones p) key)),
                 ep_patterns := newZoneMatcher (sn_routeZone p) (sn_hostZone p),
                 ep_knownHosts := sn_hosts p\<rparr>
      in if clean then (True, e'\<lparr>ep_etag := etag, ep_generation := sn_gen p\<rparr>) else (False, e'))"

definition NewEdgeWAF :: "'w \<Rightarrow> 'w edge_policy" where
  "NewEdgeWAF newWAF = new_edge newWAF"

definition EdgeWAF_Update ::
  "(string \<Rightarrow> Rule list option) \<Rightarrow> (waf_rule list \<Rightarrow> 'w \<Rightarrow> 'w option) \<Rightarrow> 'w \<Rightarrow> (string, 'x) snapshot_scheme \<Rightarrow> string
    \<Rightarrow> 'w edge_policy \<Rightarrow> bool \<times> 'w edge_policy" where
  "EdgeWAF_Update decode set_rules newWAF = edge_update (\<lambda>yaml. apply_waf decode set_rules [yaml]) (\<lambda>_. newWAF)"

definition NewEdgeRateLimit :: "limiter_config \<Rightarrow> ('p, 'f) rl_instance edge_policy" where
  "NewEdgeRateLimit cfg = new_edge (newRateLimiter cfg ''global'')"

definition EdgeRateLimit_Update ::
  "(string \<Rightarrow> Limit list option) \<Rightarrow> ('p, 'i, 'f) library \<Rightarrow> limiter_config \<Rightarrow> string list snapshot \<Rightarrow> string
    \<Rightarrow> ('p, 'f) rl_instance edge_policy \<Rightarrow> bool \<times> ('p, 'f) rl_instance edge_policy" where
  "EdgeRateLimit_Update decode lib cfg = edge_update (apply_limits decode lib) (\<lambda>key. newRateLimiter cfg (''zone:'' @ key))"

definition NewEdgeCoraza :: "'c option edge_policy" where
  "NewEdgeCoraza = new_edge None"

definition EdgeCoraza_Update ::
  "(string \<Rightarrow> 'c option) \<Rightarrow> string snapshot \<Rightarrow> string \<Rightarrow> 'c option edge_policy \<Rightarrow> bool \<times> 'c option edge_policy" where
  "EdgeCoraza_Update compile = edge_update (\<lambda>directives. SetDirectives compile [directives]) (\<lambda>_. None)"

definition apply_overrides ::
  "(string \<Rightarrow> 'o list option) \<Rightarrow> ('o list \<Rightarrow> 'c \<Rightarrow> 'c option) \<Rightarrow> string list \<Rightarrow> 'c \<Rightarrow> 'c option" where
  "apply_overrides decode set_overrides docs c =
     (let (ovs, errs) = cache_parse_docs decode docs in if errs \<noteq> [] then None else set_overrides ovs c)"

definition NewEdgeCacheOverride :: "(string \<Rightarrow> 'c) \<Rightarrow> 'c edge_policy" where
  "NewEdgeCacheOverride newRuleset = new_edge (newRuleset ''global'')"

definition EdgeCacheOverride_Update ::
  "(string \<Rightarrow> 'o list option) \<Rightarrow> ('o list \<Rightarrow> 'c \<Rightarrow> 'c option) \<Rightarrow> (string \<Rightarrow> 'c) \<Rightarrow> string list snapshot \<Rightarrow> string
    \<Rightarrow> 'c edge_policy \<Rightarrow> bool \<times> 'c edge_policy" where
  "EdgeCacheOverride_Update decode set_overrides newRuleset =
     edge_update (apply_overrides decode set_overrides) (\<lambda>key. newRuleset (''zone:'' @ key))"

subsection \<open>Fetching\<close>

datatype 'p fetch = FetchError | Unchanged | Fetched 'p string

text \<open>\<open>c.do\<close>, \<open>FetchWaf\<close> and its siblings: an unmodified reply, a decodable 200, or an error. \<open>lost\<close> stands for a
  request that got no reply.\<close>

definition fetch_policy :: "(string \<Rightarrow> 'p option) \<Rightarrow> string reply option \<Rightarrow> 'p fetch" where
  "fetch_policy unmarshal resp =
     (case resp of
        Some (NotModified _) \<Rightarrow> Unchanged
      | Some (OK etag body) \<Rightarrow> (case unmarshal body of None \<Rightarrow> FetchError | Some p \<Rightarrow> Fetched p etag)
      | _ \<Rightarrow> FetchError)"

definition FetchWaf :: "(string \<Rightarrow> wafResponse option) \<Rightarrow> string reply option \<Rightarrow> wafResponse fetch" where
  "FetchWaf = fetch_policy"

definition FetchCoraza :: "(string \<Rightarrow> string snapshot option) \<Rightarrow> string reply option \<Rightarrow> string snapshot fetch" where
  "FetchCoraza = fetch_policy"

definition FetchRateLimit :: "(string \<Rightarrow> string list snapshot option) \<Rightarrow> string reply option \<Rightarrow> string list snapshot fetch" where
  "FetchRateLimit = fetch_policy"

definition FetchCache :: "(string \<Rightarrow> string list snapshot option) \<Rightarrow> string reply option \<Rightarrow> string list snapshot fetch" where
  "FetchCache = fetch_policy"

definition refresh_with ::
  "('p \<Rightarrow> string \<Rightarrow> 'i edge_policy \<Rightarrow> bool \<times> 'i edge_policy) \<Rightarrow> 'p fetch \<Rightarrow> 'i edge_policy \<Rightarrow> 'i edge_policy" where
  "refresh_with update res e =
     (case res of FetchError \<Rightarrow> e | Unchanged \<Rightarrow> e | Fetched p etag \<Rightarrow> snd (update p etag e))"

definition RefreshWafOnce ::
  "(string \<Rightarrow> Rule list option) \<Rightarrow> (waf_rule list \<Rightarrow> 'w \<Rightarrow> 'w option) \<Rightarrow> 'w \<Rightarrow> wafResponse fetch \<Rightarrow> 'w edge_policy \<Rightarrow> 'w edge_policy" where
  "RefreshWafOnce decode set_rules newWAF = refresh_with (EdgeWAF_Update decode set_rules newWAF)"

definition RefreshRateLimitOnce ::
  "(string \<Rightarrow> Limit list option) \<Rightarrow> ('p, 'i, 'f) library \<Rightarrow> limiter_config \<Rightarrow> string list snapshot fetch
    \<Rightarrow> ('p, 'f) rl_instance edge_policy \<Rightarrow> ('p, 'f) rl_instance edge_policy" where
  "RefreshRateLimitOnce decode lib cfg = refresh_with (EdgeRateLimit_Update decode lib cfg)"

definition RefreshCorazaOnce :: "(string \<Rightarrow> 'c option) \<Rightarrow> string snapshot fetch \<Rightarrow> 'c option edge_policy \<Rightarrow> 'c option edge_policy" where
  "RefreshCorazaOnce compile = refresh_with (EdgeCoraza_Update compile)"

definition RefreshCacheOverrideOnce ::
  "(string \<Rightarrow> 'o list option) \<Rightarrow> ('o list \<Rightarrow> 'c \<Rightarrow> 'c option) \<Rightarrow> (string \<Rightarrow> 'c) \<Rightarrow> string list snapshot fetch
    \<Rightarrow> 'c edge_policy \<Rightarrow> 'c edge_policy" where
  "RefreshCacheOverrideOnce decode set_overrides newRuleset = refresh_with (EdgeCacheOverride_Update decode set_overrides newRuleset)"

subsection \<open>The WAF claim\<close>

text \<open>The claim header of a request, as the edge and the core handle it.\<close>

definition ClaimStamp :: "'w edge_policy \<Rightarrow> string option \<Rightarrow> string option" where
  "ClaimStamp e claim = (if ep_generation e > 0 then Some (itoa (int (ep_generation e))) else None)"

definition StripWAFClaim :: "string option \<Rightarrow> string option" where
  "StripWAFClaim claim = None"

text \<open>\<open>GlobalWAF\<close> at the core: whether the WAF evaluates the request, and the header it goes on with. \<open>skip\<close> is
  the configured predicate, or \<^const>\<open>None\<close> when the skip is not enabled.\<close>

definition GlobalWAF :: "(string option \<Rightarrow> bool) option \<Rightarrow> string option \<Rightarrow> bool \<times> string option" where
  "GlobalWAF skipValidated claim =
     (case skipValidated of
        None \<Rightarrow> (True, claim)
      | Some sk \<Rightarrow> if sk claim then (False, claim) else (True, None))"

subsection \<open>What an edge serves\<close>

text \<open>An edge serves a payload when its global instance and its zones are what the payload's documents mean,
  and its bindings are the payload's. The generation does not matter.\<close>

definition edge_serves :: "('i \<Rightarrow> 'v) \<Rightarrow> ('d \<Rightarrow> 'v option) \<Rightarrow> 'i edge_policy \<Rightarrow> ('d, 'x) snapshot_scheme \<Rightarrow> bool" where
  "edge_serves view meaning e p \<longleftrightarrow>
     meaning (sn_global p) = Some (view (ep_global e)) \<and>
     (\<forall>key. map_option (\<lambda>z. Some (view z)) (ep_zones e key) = map_option meaning (map_of (sn_zones p) key)) \<and>
     ep_patterns e = newZoneMatcher (sn_routeZone p) (sn_hostZone p) \<and> ep_knownHosts e = sn_hosts p"

lemma edge_serves_zero: "edge_serves view meaning e (zero_gen p) = edge_serves view meaning e p"
  by (simp add: edge_serves_def zero_gen_def)

definition acceptable :: "('d \<Rightarrow> 'v option) \<Rightarrow> ('d, 'x) snapshot_scheme \<Rightarrow> bool" where
  "acceptable meaning p \<longleftrightarrow> meaning (sn_global p) \<noteq> None \<and> list_all (\<lambda>(k, d). meaning d \<noteq> None) (sn_zones p)"

definition edge_wf :: "('i \<Rightarrow> bool) \<Rightarrow> 'i edge_policy \<Rightarrow> bool" where
  "edge_wf wfi e \<longleftrightarrow> wfi (ep_global e) \<and> (\<forall>key z. ep_zones e key = Some z \<longrightarrow> wfi z)"

context applicable
begin

lemma zone_base_wf: "edge_wf wfi e \<Longrightarrow> wfi (new key) \<Longrightarrow> wfi (zone_base new e key)"
  by (auto simp: edge_wf_def zone_base_def split: option.splits)

lemma apply_keep_wf: "wfi i \<Longrightarrow> wfi (apply_keep app docs i)"
  using app_Some by (auto simp: apply_keep_def split: option.splits)

lemma apply_keep_view: "wfi i \<Longrightarrow> meaning docs = Some v \<Longrightarrow> view (apply_keep app docs i) = v"
  using app_Some app_None by (auto simp: apply_keep_def split: option.splits)

lemma app_defined: "wfi i \<Longrightarrow> Option.is_none (app docs i) \<longleftrightarrow> meaning docs = None"
  using app_Some app_None by (cases "app docs i") fastforce+

lemma edge_update_wf:
  assumes "edge_wf wfi e" and "\<And>key. wfi (new key)"
  shows "edge_wf wfi (snd (edge_update app new p etag e))"
proof -
  have "wfi (apply_keep app docs (zone_base new e key))" for docs key
    using apply_keep_wf zone_base_wf [OF assms(1)] assms(2) by blast
  moreover have "wfi (apply_keep app (sn_global p) (ep_global e))" using apply_keep_wf assms(1) by (simp add: edge_wf_def)
  ultimately show ?thesis unfolding edge_wf_def edge_update_def by (auto simp: Let_def)
qed

lemma edge_update_acceptable:
  assumes "edge_wf wfi e" and "\<And>key. wfi (new key)" and "acceptable meaning p"
  shows "fst (edge_update app new p etag e)" and "ep_etag (snd (edge_update app new p etag e)) = etag"
    and "edge_serves view meaning (snd (edge_update app new p etag e)) p"
proof -
  have w: "wfi (ep_global e)" "\<And>key. wfi (zone_base new e key)" using assms(1,2) zone_base_wf by (auto simp: edge_wf_def)
  have m: "meaning (sn_global p) \<noteq> None" "\<And>k d. (k, d) \<in> set (sn_zones p) \<Longrightarrow> meaning d \<noteq> None"
    using assms(3) by (auto simp: acceptable_def list_all_iff)
  have c: "\<not> Option.is_none (app (sn_global p) (ep_global e))"
    "list_all (\<lambda>(key, docs). \<not> Option.is_none (app docs (zone_base new e key))) (sn_zones p)"
    using app_defined w m by (auto simp: list_all_iff)
  then show "fst (edge_update app new p etag e)" "ep_etag (snd (edge_update app new p etag e)) = etag"
    by (simp_all add: edge_update_def Let_def)
  have "Some (view (apply_keep app docs (zone_base new e key))) = meaning docs" if "map_of (sn_zones p) key = Some docs" for key docs
    using m(2) [OF map_of_SomeD [OF that]] apply_keep_view [OF w(2)] by fastforce
  moreover have "meaning (sn_global p) = Some (view (apply_keep app (sn_global p) (ep_global e)))"
    using m(1) apply_keep_view [OF w(1)] by fastforce
  ultimately show "edge_serves view meaning (snd (edge_update app new p etag e)) p"
    using c by (auto simp: edge_serves_def edge_update_def Let_def option.map_comp o_def intro!: option.map_cong0)
qed

lemma edge_new_wf: "wfi g \<Longrightarrow> edge_wf wfi (new_edge g)"
  by (simp add: edge_wf_def new_edge_def)

end

text \<open>A quoted hexadecimal ETag matches itself only.\<close>

lemma split_byte_plain: "c \<notin> set s \<Longrightarrow> split_byte c s = [s]"
  by (induction s) auto

lemma hex_digit_plain: "d < 16 \<Longrightarrow> hex_digit d \<notin> {CHR '','', CHR ''*''} \<and> \<not> is_space (hex_digit d)"
  by (auto simp: hex_digit_def is_space_def char_of_eq_iff take_bit_eq_mod)


lemma hex_encode_plain: "c \<in> set (hex_encode s) \<Longrightarrow> c \<noteq> CHR '','' \<and> c \<noteq> CHR ''*''"
proof -
  assume c: "c \<in> set (hex_encode s)"
  have d: "(of_char x :: nat) div 16 < 16" for x using nat_of_char_less_256 [of x] by linarith
  from c obtain x where "c = hex_digit (of_char x div 16) \<or> c = hex_digit (of_char x mod 16)" by (auto simp: hex_encode_def)
  then show ?thesis using hex_digit_plain [OF d] hex_digit_plain [of "of_char x mod 16"] by auto
qed

lemma etagMatch_etag: "etagMatch (etagOfString sha a) (etagOfString sha b) \<longleftrightarrow> etagOfString sha a = etagOfString sha b"
proof -
  have c: "CHR '','' \<notin> set (etagOfString sha a)" using hex_encode_plain by (auto simp: etagOfString_def)
  have "trim_space (etagOfString sha a) = etagOfString sha a" by (simp add: trim_space_def etagOfString_def is_space_def)
  moreover have "etagOfString sha a \<noteq> ''*''" by (simp add: etagOfString_def)
  ultimately show ?thesis by (simp add: etagMatch_def split_byte_plain [OF c])
qed

lemma etag_nonempty [simp]: "etagOfString sha a \<noteq> []"
  by (simp add: etagOfString_def)

lemma bearer_token:
  assumes "trim_space token = token" and "token \<noteq> []"
  shows "bearer (''Bearer '' @ token) = Some token"
proof -
  have "\<not> length (''Bearer '' @ token) \<le> length ''Bearer ''" using assms(2) by (cases token) auto
  then show ?thesis using assms(1) by (simp add: bearer_def Let_def)
qed

text \<open>One poll of an edge for its rate limits: the request carries the edge's token and ETag; \<open>delivered\<close> says
  whether a reply arrives.\<close>

definition ratelimit_poll ::
  "(string \<Rightarrow> string) \<Rightarrow> (string list snapshot \<Rightarrow> string option) \<Rightarrow> (string \<Rightarrow> string list snapshot option)
    \<Rightarrow> (string \<Rightarrow> Limit list option) \<Rightarrow> ('p, 'i, 'f) library \<Rightarrow> limiter_config \<Rightarrow> Authz \<Rightarrow> string
    \<Rightarrow> string list policy_store \<times> bool \<Rightarrow> ('p, 'f) rl_instance edge_policy \<Rightarrow> ('p, 'f) rl_instance edge_policy" where
  "ratelimit_poll sha marshal unmarshal decode lib cfg authz token now e =
     (let (store, delivered) = now;
          resp = handleRateLimit sha marshal authz (Some store) (''Bearer '' @ token) (ep_etag e)
      in RefreshRateLimitOnce decode lib cfg (FetchRateLimit unmarshal (if delivered then Some resp else None)) e)"

definition payload_for :: "Authz \<Rightarrow> string \<Rightarrow> string list policy_store \<Rightarrow> string list snapshot" where
  "payload_for authz token s = RateLimitStore_scoped (Allowed authz token) s"

text \<open>The invariant of a run of polls: the edge has no ETag yet, or the ETag of a payload it serves.\<close>

definition edge_synced ::
  "(string \<Rightarrow> string) \<Rightarrow> (string list snapshot \<Rightarrow> string option) \<Rightarrow> (string list \<Rightarrow> Limit list option) \<Rightarrow> limiter_config
    \<Rightarrow> string list snapshot set \<Rightarrow> ('p, 'f) rl_instance edge_policy \<Rightarrow> bool" where
  "edge_synced sha marshal meaning cfg P e \<longleftrightarrow>
     edge_wf (\<lambda>inst. (fst inst)\<lparr>NamePrefix := []\<rparr> = cfg\<lparr>NamePrefix := []\<rparr>) e \<and>
     (ep_etag e = [] \<or>
      (\<exists>p \<in> P. ep_etag e = etagOfString sha (the (marshal (zero_gen p))) \<and> edge_serves (\<lambda>inst. Limits (snd inst)) meaning e p))"

text \<open>What the JSON codec has to do for a payload: encode it and its zeroed copy, and decode the first again.\<close>

definition codec_ok :: "('p \<Rightarrow> string option) \<Rightarrow> (string \<Rightarrow> 'p option) \<Rightarrow> ('p \<Rightarrow> 'p) \<Rightarrow> 'p \<Rightarrow> bool" where
  "codec_ok marshal unmarshal zero p \<longleftrightarrow> Option.bind (marshal p) unmarshal = Some p \<and> marshal (zero p) \<noteq> None"

lemma ratelimit_poll_synced:
  assumes "edge_synced sha marshal (limits_meaning decode lib cfg) cfg P e"
    and "codec_ok marshal unmarshal zero_gen (payload_for authz token store)"
    and "inj_on (\<lambda>p. etagOfString sha (the (marshal (zero_gen p)))) (zero_gen ` P)"
    and "Known authz token" and "trim_space token = token" and "token \<noteq> []"
    and "payload_for authz token store \<in> P" and "acceptable (limits_meaning decode lib cfg) (payload_for authz token store)"
  shows "edge_synced sha marshal (limits_meaning decode lib cfg) cfg P
      (ratelimit_poll sha marshal unmarshal decode lib cfg authz token (store, delivered) e)"
    and "delivered \<Longrightarrow> edge_serves (\<lambda>inst. Limits (snd inst)) (limits_meaning decode lib cfg)
      (ratelimit_poll sha marshal unmarshal decode lib cfg authz token (store, delivered) e) (payload_for authz token store)"
proof -
  let ?p = "payload_for authz token store" and ?et = "\<lambda>p. etagOfString sha (the (marshal (zero_gen p)))"
  let ?m = "limits_meaning decode lib cfg" and ?v = "\<lambda>inst. Limits (snd inst)"
  let ?e = "ratelimit_poll sha marshal unmarshal decode lib cfg authz token (store, delivered) e"
  let ?u = "edge_update (apply_limits decode lib) (\<lambda>key. newRateLimiter cfg (''zone:'' @ key)) ?p (?et ?p) e"
  have zz: "zero_gen (zero_gen p) = zero_gen p" for p :: "string list snapshot" by (simp add: zero_gen_def)
  have wf: "edge_wf (\<lambda>inst. (fst inst)\<lparr>NamePrefix := []\<rparr> = cfg\<lparr>NamePrefix := []\<rparr>) e" using assms(1) by (simp add: edge_synced_def)
  have new: "(fst (newRateLimiter cfg k))\<lparr>NamePrefix := []\<rparr> = cfg\<lparr>NamePrefix := []\<rparr>" for k by (simp add: newRateLimiter_def)
  have up: "ep_etag (snd ?u) = ?et ?p" "edge_serves ?v ?m (snd ?u) ?p"
    "edge_wf (\<lambda>inst. (fst inst)\<lparr>NamePrefix := []\<rparr> = cfg\<lparr>NamePrefix := []\<rparr>) (snd ?u)"
    using rl.edge_update_acceptable [OF wf new assms(8)] rl.edge_update_wf [OF wf new] by auto
  obtain b eb where b: "marshal ?p = Some b" "unmarshal b = Some ?p" "marshal (zero_gen ?p) = Some eb"
    using assms(2) by (auto simp: codec_ok_def bind_eq_Some_conv)
  have step: "?e = (if \<not> delivered \<or> ep_etag e \<noteq> [] \<and> etagMatch (ep_etag e) (?et ?p) then e else snd ?u)"
    using assms(4) b bearer_token [OF assms(5,6)]
    by (simp add: ratelimit_poll_def handleRateLimit_def policy_reply_def payload_for_def Let_def FetchRateLimit_def fetch_policy_def
        RefreshRateLimitOnce_def refresh_with_def EdgeRateLimit_Update_def del: append_Cons append_Nil)
  show "edge_synced sha marshal ?m cfg P ?e" using step assms(1,7) up by (auto simp: edge_synced_def)
  have same: "edge_serves ?v ?m e ?p" if h: "ep_etag e \<noteq> []" "etagMatch (ep_etag e) (?et ?p)"
  proof -
    obtain p where p: "p \<in> P" "ep_etag e = ?et p" "edge_serves ?v ?m e p" using assms(1) h(1) by (auto simp: edge_synced_def)
    then have "?et p = ?et ?p" using h(2) by (simp add: etagMatch_etag)
    then have "zero_gen p = zero_gen ?p" using inj_onD [OF assms(3), of "zero_gen p" "zero_gen ?p"] p(1) assms(7) by (simp add: zz)
    then show ?thesis using p(3) edge_serves_zero [of ?v ?m e p] edge_serves_zero [of ?v ?m e ?p] by simp
  qed
  show "edge_serves ?v ?m ?e ?p" if delivered using step same up(2) that by auto
qed


subsection \<open>Edges converge to the control plane's policy\<close>

definition poll_run ::
  "(string \<Rightarrow> string) \<Rightarrow> (string list snapshot \<Rightarrow> string option) \<Rightarrow> (string \<Rightarrow> string list snapshot option)
    \<Rightarrow> (string \<Rightarrow> Limit list option) \<Rightarrow> ('p, 'i, 'f) library \<Rightarrow> limiter_config \<Rightarrow> Authz \<Rightarrow> string
    \<Rightarrow> (string list policy_store \<times> bool) list \<Rightarrow> ('p, 'f) rl_instance edge_policy" where
  "poll_run sha marshal unmarshal decode lib cfg authz token polls =
     foldl (\<lambda>e now. ratelimit_poll sha marshal unmarshal decode lib cfg authz token now e) (NewEdgeRateLimit cfg) polls"

text \<open>C9. After any history of polls, lost or answered, against a changing store, an answered poll leaves the
  edge serving exactly the limits, zones and bindings of the store's current payload for that edge,
  also when the answer was 304. This holds as long as every payload compiles, the JSON codec is
  faithful and the hash separates the payloads seen.\<close>
theorem edge_serves_current_limits:
  assumes "list_all (\<lambda>poll. codec_ok marshal unmarshal zero_gen (payload_for authz token (fst poll)) \<and>
      acceptable (limits_meaning decode lib cfg) (payload_for authz token (fst poll))) (polls @ [(store, True)])"
    and "inj_on (\<lambda>p. etagOfString sha (the (marshal (zero_gen p))))
      (zero_gen ` (\<lambda>poll. payload_for authz token (fst poll)) ` set (polls @ [(store, True)]))"
    and "Known authz token" and "trim_space token = token" and "token \<noteq> []"
  shows "edge_serves (\<lambda>inst. Limits (snd inst)) (limits_meaning decode lib cfg)
    (poll_run sha marshal unmarshal decode lib cfg authz token (polls @ [(store, True)])) (payload_for authz token store)"
proof -
  let ?P = "(\<lambda>poll. payload_for authz token (fst poll)) ` set (polls @ [(store, True)])"
  let ?synced = "edge_synced sha marshal (limits_meaning decode lib cfg) cfg ?P"
  have ok: "codec_ok marshal unmarshal zero_gen (payload_for authz token st)"
    "acceptable (limits_meaning decode lib cfg) (payload_for authz token st)" "payload_for authz token st \<in> ?P"
    if "(st, d) \<in> set (polls @ [(store, True)])" for st d
    using assms(1) that by (fastforce simp: list_all_iff, fastforce simp: list_all_iff, force)
  have sync: "?synced (poll_run sha marshal unmarshal decode lib cfg authz token qs)" if "set qs \<subseteq> set polls" for qs
    using that
  proof (induction qs rule: rev_induct)
    case Nil
    show ?case
      by (simp add: poll_run_def edge_synced_def NewEdgeRateLimit_def new_edge_def edge_wf_def newRateLimiter_def)
  next
    case (snoc q qs)
    obtain st d where q: "q = (st, d)" by fastforce
    have "(st, d) \<in> set (polls @ [(store, True)])" using snoc.prems q by simp
    note m = ok [OF this]
    have "?synced (poll_run sha marshal unmarshal decode lib cfg authz token qs)" using snoc.IH snoc.prems by simp
    then show ?case using ratelimit_poll_synced(1) [OF _ m(1) assms(2-5) m(3,2), where delivered = d]
      by (simp add: poll_run_def q)
  qed
  have "(store, True) \<in> set (polls @ [(store, True)])" by simp
  note now = ok [OF this]
  show ?thesis
    using ratelimit_poll_synced(2) [OF sync [OF order_refl] now(1) assms(2-5) now(3,2), where delivered = True]
    by (simp add: poll_run_def)
qed

text \<open>C27. A rejected update followed by a rollback leaves an edge on the wrong policy for good: the edge applied a first
  payload cleanly, a second one only in part (its global rules were bad, its zones were
  installed), and the control plane returned to the first. The poll is answered 304, because the
  ETag is still that of the first payload, so the edge keeps the zones of the rejected payload, and
  its claim still names the first generation.\<close>
theorem rollback_keeps_rejected_zones:
  assumes "edge_update app new (waf_payload signer (Allowed authz token) storeA) etag e0 = (True, e1)"
    and "edge_update app new pB etagB e1 = (False, e2)"
    and "zero_gen (waf_payload signer (Allowed authz token) storeA') = zero_gen (waf_payload signer (Allowed authz token) storeA)"
    and "marshal (waf_payload signer (Allowed authz token) storeA') = Some body"
    and "marshal (zero_gen (waf_payload signer (Allowed authz token) storeA)) = Some etagBody"
    and "etag = etagOfString sha etagBody"
    and "Known authz token" and "trim_space token = token" and "token \<noteq> []"
    and "app docsB (zone_base new e1 z) = Some zB" and "map_of (sn_zones pB) z = Some docsB"
  shows "handleWAF sha marshal authz signer (Some storeA') (''Bearer '' @ token) (ep_etag e2) = NotModified etag \<and>
    ep_zones e2 z = Some zB \<and> ClaimStamp e2 c = ClaimStamp e1 c"
proof -
  have "ep_etag e2 = etag" using assms(1,2) by (auto simp: edge_update_def Let_def split: if_splits)
  then have "handleWAF sha marshal authz signer (Some storeA') (''Bearer '' @ token) (ep_etag e2) = NotModified etag"
    using assms(3-7) bearer_token [OF assms(8,9)]
    by (simp add: handleWAF_def policy_reply_def Let_def etagMatch_etag del: append_Cons append_Nil)
  moreover have "ep_zones e2 z = Some zB"
    using assms(2,10,11) by (auto simp: edge_update_def Let_def apply_keep_def split: if_splits)
  moreover have "ep_generation e2 = ep_generation e1" using assms(2) by (auto simp: edge_update_def Let_def split: if_splits)
  ultimately show ?thesis by (simp add: ClaimStamp_def)
qed

subsection \<open>The WAF documents an edge runs\<close>



subsection \<open>Concrete runs\<close>

definition demo_authz :: Authz where
  "demo_authz = [''tok'' \<mapsto> Entry.make ''e1'' [''*''] False]"

definition demo_store :: "string list policy_store" where
  "demo_store =
     \<lparr>ps_global = [], ps_zones = [(''d/z'', [''doc''])], ps_hostZone = [], ps_routeZone = [(''a.com/'', ''d/z'')], ps_hosts = [''a.com''],
      ps_gen = 0, ps_etag = []\<rparr>"

lemma demo_known: "Known demo_authz ''tok''" "trim_space ''tok'' = ''tok''"
  by code_simp+

lemma demo_meaning:
  "limits_meaning (\<lambda>_. Some [demo_limit]) demo_lib demo_cfg [''doc''] = Some [normal_form demo_cfg demo_lib demo_limit]"
  "limits_meaning (\<lambda>_. Some [demo_limit]) demo_lib demo_cfg [] = Some []"
proof -
  have "\<not> isl (compileLimit demo_cfg demo_lib 0 demo_limit)" by code_simp
  then have "compiles demo_cfg demo_lib demo_limit"
    unfolding compiles_def by (cases "compileLimit demo_cfg demo_lib 0 demo_limit") auto
  moreover have "trim_space ''doc'' \<noteq> []" by code_simp
  ultimately show "limits_meaning (\<lambda>_. Some [demo_limit]) demo_lib demo_cfg [''doc''] = Some [normal_form demo_cfg demo_lib demo_limit]"
    "limits_meaning (\<lambda>_. Some [demo_limit]) demo_lib demo_cfg [] = Some []"
    by (simp_all add: limits_meaning_def)
qed

lemma demo_payload:
  "payload_for demo_authz ''tok'' demo_store =
     \<lparr>sn_gen = 0, sn_global = [], sn_zones = [(''d/z'', [''doc''])], sn_hostZone = [], sn_routeZone = [(''a.com/'', ''d/z'')],
      sn_hosts = [''a.com'']\<rparr>"
  by code_simp

theorem edge_serves_current_limits_witness:
  "edge_serves (\<lambda>inst. Limits (snd inst)) (limits_meaning (\<lambda>_. Some [demo_limit]) demo_lib demo_cfg)
    (poll_run (\<lambda>s. s) (\<lambda>_. Some []) (\<lambda>_. Some (payload_for demo_authz ''tok'' demo_store)) (\<lambda>_. Some [demo_limit]) demo_lib demo_cfg
       demo_authz ''tok'' ([(demo_store, True), (demo_store, False)] @ [(demo_store, True)]))
    (payload_for demo_authz ''tok'' demo_store)"
  by (rule edge_serves_current_limits)
    (simp_all add: demo_known codec_ok_def acceptable_def demo_payload demo_meaning inj_on_def)

text \<open>A WAF edge whose rules are identified by their document: any document but \<^verbatim>\<open>bad\<close> compiles.\<close>

definition demo_app :: "string \<Rightarrow> string \<Rightarrow> string option" where
  "demo_app doc i = (if doc = ''bad'' then None else Some doc)"

definition demo_waf_store :: "string \<Rightarrow> string \<Rightarrow> nat \<Rightarrow> string policy_store" where
  "demo_waf_store g z n =
     \<lparr>ps_global = g, ps_zones = [(''d/z'', z)], ps_hostZone = [], ps_routeZone = [(''a.com/'', ''d/z'')], ps_hosts = [],
      ps_gen = n, ps_etag = []\<rparr>"

definition demo_waf_payload :: "string \<Rightarrow> string \<Rightarrow> nat \<Rightarrow> wafResponse" where
  "demo_waf_payload g z n = waf_payload None (Allowed demo_authz ''tok'') (demo_waf_store g z n)"

theorem rollback_keeps_rejected_zones_witness:
  "let et = etagOfString (\<lambda>s. s) ''body'';
       e1 = snd (edge_update demo_app (\<lambda>_. []) (demo_waf_payload ''g'' ''zA'' 1) et (new_edge []));
       e2 = snd (edge_update demo_app (\<lambda>_. []) (demo_waf_payload ''bad'' ''zB'' 2) ''etB'' e1)
   in ep_zones e1 ''d/z'' = Some ''zA'' \<and>
      handleWAF (\<lambda>s. s) (\<lambda>_. Some ''body'') demo_authz None (Some (demo_waf_store ''g'' ''zA'' 3)) (''Bearer '' @ ''tok'') (ep_etag e2) =
        NotModified et \<and>
      ep_zones e2 ''d/z'' = Some ''zB'' \<and> ClaimStamp e2 None = Some ''1''"
proof -
  let ?et = "etagOfString (\<lambda>s. s) ''body''"
  let ?u1 = "edge_update demo_app (\<lambda>_. []) (demo_waf_payload ''g'' ''zA'' 1) ?et (new_edge [])"
  let ?u2 = "edge_update demo_app (\<lambda>_. []) (demo_waf_payload ''bad'' ''zB'' 2) ''etB'' (snd ?u1)"
  have r: "fst ?u1" "\<not> fst ?u2" "ep_zones (snd ?u1) ''d/z'' = Some ''zA''" "ClaimStamp (snd ?u1) None = Some ''1''"
    "map_of (sn_zones (demo_waf_payload ''bad'' ''zB'' 2)) ''d/z'' = Some ''zB''" by code_simp+
  obtain e1 where e1: "?u1 = (True, e1)" using r(1) by (cases ?u1) simp
  obtain e2 where e2: "edge_update demo_app (\<lambda>_. []) (demo_waf_payload ''bad'' ''zB'' 2) ''etB'' e1 = (False, e2)"
    using r(2) e1 by (cases ?u2) simp
  have g: "zero_gen (waf_payload None (Allowed demo_authz ''tok'') (demo_waf_store ''g'' ''zA'' 3)) =
      zero_gen (waf_payload None (Allowed demo_authz ''tok'') (demo_waf_store ''g'' ''zA'' 1))" by code_simp
  show ?thesis
    using rollback_keeps_rejected_zones [OF e1 [unfolded demo_waf_payload_def] e2 g, of "\<lambda>_. Some ''body''" "''body''" "''body''" "\<lambda>s. s"
        "''zB''" "''d/z''" "''zB''" None] r(3-5) e1 e2 demo_known
    by (simp add: Let_def demo_app_def del: append_Cons append_Nil)
qed


end
