(* ===== verification/Trust_Manager.thy ===== *)
theory Trust_Manager
  imports Go_Prelude
begin

section \<open>The core's trust in edge certificates\<close>

text \<open>
  The manager of \<^verbatim>\<open>trust/trust.go\<close>: it pulls the edge CA bundle from the control plane, swaps it in under the
  strict-parse, forward-only and floor rules, persists it as the floor of the next start, and
  answers per request whether a client certificate chains to the live pool, through a cache that is
  valid for one generation.

  A pool is the list of its certificates. \<open>blocks\<close> is \<^verbatim>\<open>pem.Decode\<close> run to the end (block type and bytes),
  \<open>parse\<close> is \<^verbatim>\<open>x509.ParseCertificate\<close>, \<open>verify\<close> is \<^verbatim>\<open>Certificate.Verify\<close> on roots, leaf and
  intermediates, and \<open>fp\<close> the hash of a leaf. \<open>apply\<close> runs in one goroutine; \<open>VerifyClientCert\<close> in
  one per request. The theory has it as one step and, for the races, as the steps of its loads and
  stores.
\<close>

record Bundle =
  b_Generation :: nat
  b_CAPEM :: string
  b_CAID :: string

record cacheEntry =
  ce_Generation :: nat
  ce_CAID :: string
  ce_CAPEM :: string
  ce_WrittenAt :: time

record 'c manager =
  clientCAs :: "'c list option"
  gen :: nat
  caID :: string
  warm_floor :: nat
  cachePath :: string
  lastGood :: "cacheEntry option"
  verifyGen :: nat
  verifyCache :: "string list"

definition NewManager :: "'c manager" where
  "NewManager = \<lparr>clientCAs = None, gen = 0, caID = [], warm_floor = 0, cachePath = [], lastGood = None, verifyGen = 0, verifyCache = []\<rparr>"

datatype endpoint_mode = ModeHTTPS | ModeInsecureHTTP

definition ClassifyEndpoint :: "string \<Rightarrow> endpoint_mode option" where
  "ClassifyEndpoint endpoint =
     (if has_prefix endpoint ''https://'' then Some ModeHTTPS
      else if has_prefix endpoint ''http://'' then Some ModeInsecureHTTP
      else None)"

subsection \<open>Applying a bundle\<close>

fun pool_loop :: "(string \<Rightarrow> 'c option) \<Rightarrow> (string \<times> string) list \<Rightarrow> 'c list \<Rightarrow> 'c list option" where
  "pool_loop parse [] pool = Some pool"
| "pool_loop parse ((ty, bytes) # rest) pool =
     (if ty \<noteq> ''CERTIFICATE'' then pool_loop parse rest pool
      else case parse bytes of None \<Rightarrow> None | Some c \<Rightarrow> pool_loop parse rest (pool @ [c]))"

definition strictPool :: "(string \<Rightarrow> (string \<times> string) list) \<Rightarrow> (string \<Rightarrow> 'c option) \<Rightarrow> string \<Rightarrow> 'c list option" where
  "strictPool blocks parse caPEM = pool_loop parse (blocks caPEM) []"

datatype applyResult =
    resultApplied | resultParseRejected | resultEmptyRejected | resultRollbackRejected | resultFloorRejected | resultUnchanged

definition apply_result ::
  "(string \<Rightarrow> (string \<times> string) list) \<Rightarrow> (string \<Rightarrow> 'c option) \<Rightarrow> Bundle \<Rightarrow> 'c manager \<Rightarrow> applyResult" where
  "apply_result blocks parse b m =
     (case strictPool blocks parse (b_CAPEM b) of
        None \<Rightarrow> resultParseRejected
      | Some pool \<Rightarrow>
          if pool = [] then resultEmptyRejected
          else if b_Generation b < warm_floor m then resultFloorRejected
          else if gen m \<noteq> 0 \<and> b_Generation b = gen m then resultUnchanged
          else if gen m \<noteq> 0 \<and> b_Generation b < gen m then resultRollbackRejected
          else resultApplied)"

definition apply_bundle ::
  "(string \<Rightarrow> (string \<times> string) list) \<Rightarrow> (string \<Rightarrow> 'c option) \<Rightarrow> Bundle \<Rightarrow> 'c manager \<Rightarrow> applyResult \<times> 'c manager" where
  "apply_bundle blocks parse b m =
     (let res = apply_result blocks parse b m in
      if res = resultApplied then
        (res, m\<lparr>clientCAs := strictPool blocks parse (b_CAPEM b), gen := b_Generation b, caID := b_CAID b\<rparr>)
      else (res, m))"

subsection \<open>The warm-start file\<close>

text \<open>The file is its decoded entry, or \<^const>\<open>None\<close> when it is missing or unreadable.\<close>

definition readCache :: "cacheEntry option \<Rightarrow> cacheEntry option" where
  "readCache file = (case file of None \<Rightarrow> None | Some e \<Rightarrow> if ce_Generation e = 0 then None else Some e)"

definition EnableWarmStart :: "string \<Rightarrow> duration \<Rightarrow> time \<Rightarrow> cacheEntry option \<Rightarrow> 'c manager \<Rightarrow> 'c manager" where
  "EnableWarmStart path maxStale now file m =
     (let m = m\<lparr>cachePath := path\<rparr> in
      if path = [] then m
      else case readCache file of
        None \<Rightarrow> m
      | Some e \<Rightarrow> if maxStale > 0 \<and> now - ce_WrittenAt e > maxStale then m
                  else m\<lparr>warm_floor := ce_Generation e, lastGood := Some e\<rparr>)"

text \<open>\<open>writeCache\<close>: \<open>wrote\<close> says whether the write and the rename succeed; the file is replaced as a whole or kept.\<close>

definition writeCache :: "cacheEntry \<Rightarrow> time \<Rightarrow> bool \<Rightarrow> 'c manager \<Rightarrow> cacheEntry option \<Rightarrow> cacheEntry option" where
  "writeCache e now wrote m file = (if cachePath m = [] \<or> \<not> wrote then file else Some (e\<lparr>ce_WrittenAt := now div second * second\<rparr>))"

datatype bundle_fetch = BundleError | BundleUnchanged | BundleFetched Bundle

definition refresh_cache :: "time \<Rightarrow> bool \<Rightarrow> 'c manager \<Rightarrow> cacheEntry option \<Rightarrow> cacheEntry option" where
  "refresh_cache now wrote m file = (case lastGood m of None \<Rightarrow> file | Some e \<Rightarrow> writeCache e now wrote m file)"

text \<open>One round of \<open>Run\<close>.\<close>

definition Run_step ::
  "(string \<Rightarrow> (string \<times> string) list) \<Rightarrow> (string \<Rightarrow> 'c option) \<Rightarrow> bundle_fetch \<Rightarrow> time \<Rightarrow> bool
    \<Rightarrow> 'c manager \<times> cacheEntry option \<Rightarrow> 'c manager \<times> cacheEntry option" where
  "Run_step blocks parse fetched now wrote st =
     (let (m, file) = st in
      case fetched of
        BundleError \<Rightarrow> (m, file)
      | BundleUnchanged \<Rightarrow> (m, refresh_cache now wrote m file)
      | BundleFetched b \<Rightarrow>
          (case apply_bundle blocks parse b m of
             (resultApplied, m') \<Rightarrow>
               let e = \<lparr>ce_Generation = b_Generation b, ce_CAID = b_CAID b, ce_CAPEM = b_CAPEM b, ce_WrittenAt = 0\<rparr>;
                   m' = m'\<lparr>lastGood := Some e\<rparr>
               in (m', writeCache e now wrote m' file)
           | (resultUnchanged, m') \<Rightarrow> (m', refresh_cache now wrote m' file)
           | (_, m') \<Rightarrow> (m', file)))"

subsection \<open>Verifying a client certificate\<close>

definition verifyCacheCap :: nat where
  "verifyCacheCap = 4096"

text \<open>The cache lookup and the cache write of \<open>VerifyClientCert\<close>; at the cap one arbitrary entry, \<open>victim\<close>, goes.\<close>

definition cache_hit :: "nat \<Rightarrow> string \<Rightarrow> 'c manager \<Rightarrow> bool" where
  "cache_hit g key m \<longleftrightarrow> verifyGen m = g \<and> key \<in> set (verifyCache m)"

definition cache_put :: "nat \<Rightarrow> string \<Rightarrow> string \<Rightarrow> 'c manager \<Rightarrow> 'c manager" where
  "cache_put g key victim m =
     (let c = (if verifyGen m \<noteq> g then [] else verifyCache m);
          c = (if length c \<ge> verifyCacheCap then remove1 victim c else c)
      in m\<lparr>verifyGen := g, verifyCache := (if key \<in> set c then c else key # c)\<rparr>)"

definition VerifyClientCert ::
  "('c list \<Rightarrow> 'c \<Rightarrow> 'c list \<Rightarrow> bool) \<Rightarrow> ('c \<Rightarrow> string) \<Rightarrow> 'c list \<Rightarrow> string \<Rightarrow> 'c manager \<Rightarrow> bool \<times> 'c manager" where
  "VerifyClientCert verify fp certs victim m =
     (case certs of
        [] \<Rightarrow> (False, m)
      | leaf # rest \<Rightarrow>
          (case clientCAs m of
             None \<Rightarrow> (False, m)
           | Some pool \<Rightarrow>
               if cache_hit (gen m) (fp leaf) m then (True, m)
               else if \<not> verify pool leaf rest then (False, m)
               else (True, cache_put (gen m) (fp leaf) victim m)))"

subsection \<open>Generations only move forward\<close>

lemma apply_bundle_cases:
  obtains (applied) pool where "strictPool blocks parse (b_CAPEM b) = Some pool" "pool \<noteq> []" "warm_floor m \<le> b_Generation b"
      "gen m = 0 \<or> gen m < b_Generation b"
      "apply_bundle blocks parse b m = (resultApplied, m\<lparr>clientCAs := Some pool, gen := b_Generation b, caID := b_CAID b\<rparr>)"
  | (kept) r where "apply_bundle blocks parse b m = (r, m)" "r \<noteq> resultApplied"
proof (cases "apply_result blocks parse b m = resultApplied")
  case True
  then obtain pool where "strictPool blocks parse (b_CAPEM b) = Some pool" "pool \<noteq> []" "\<not> b_Generation b < warm_floor m"
    "\<not> (gen m \<noteq> 0 \<and> b_Generation b = gen m)" "\<not> (gen m \<noteq> 0 \<and> b_Generation b < gen m)"
    by (auto simp: apply_result_def split: option.splits if_splits)
  then show ?thesis using True by (intro applied) (auto simp: apply_bundle_def)
next
  case False
  then show ?thesis by (intro kept) (auto simp: apply_bundle_def)
qed

text \<open>A run of the core with restarts: the manager and the warm-start file. \<open>applied\<close> collects the generations in
  the order they went live; a restart keeps only the file, and starts with the floor it holds.\<close>

datatype core_event = CoreFetch bundle_fetch time bool | CoreRestart time

record 'c core =
  co_manager :: "'c manager"
  co_file :: "cacheEntry option"
  co_applied :: "nat list"

definition core_step ::
  "(string \<Rightarrow> (string \<times> string) list) \<Rightarrow> (string \<Rightarrow> 'c option) \<Rightarrow> string \<Rightarrow> duration \<Rightarrow> core_event \<Rightarrow> 'c core \<Rightarrow> 'c core" where
  "core_step blocks parse path maxStale ev s =
     (case ev of
        CoreRestart now \<Rightarrow> s\<lparr>co_manager := EnableWarmStart path maxStale now (co_file s) NewManager\<rparr>
      | CoreFetch f now wrote \<Rightarrow>
          let (m, file) = Run_step blocks parse f now wrote (co_manager s, co_file s);
              went_live = (case f of
                 BundleFetched b \<Rightarrow> apply_result blocks parse b (co_manager s) = resultApplied
               | _ \<Rightarrow> False)
          in s\<lparr>co_manager := m, co_file := file, co_applied := co_applied s @ (if went_live then [gen m] else [])\<rparr>)"

definition core_init :: "string \<Rightarrow> duration \<Rightarrow> time \<Rightarrow> 'c core" where
  "core_init path maxStale now =
     \<lparr>co_manager = EnableWarmStart path maxStale now None NewManager, co_file = None, co_applied = []\<rparr>"

text \<open>Fetches bring positive generations and the file writes succeed; at a restart the file, if any, is not older than
  the staleness bound.\<close>

fun core_ok :: "duration \<Rightarrow> 'c core \<Rightarrow> core_event \<Rightarrow> bool" where
  "core_ok maxStale s (CoreFetch f now wrote) \<longleftrightarrow> wrote \<and> (case f of BundleFetched b \<Rightarrow> b_Generation b > 0 | _ \<Rightarrow> True)"
| "core_ok maxStale s (CoreRestart now) \<longleftrightarrow>
     (case co_file s of None \<Rightarrow> True | Some e \<Rightarrow> maxStale \<le> 0 \<or> now - ce_WrittenAt e \<le> maxStale)"

inductive core_reach :: "(string \<Rightarrow> (string \<times> string) list) \<Rightarrow> (string \<Rightarrow> 'c option) \<Rightarrow> string \<Rightarrow> duration \<Rightarrow> 'c core \<Rightarrow> bool"
  for blocks parse path maxStale where
  core_start: "core_reach blocks parse path maxStale (core_init path maxStale now)"
| core_next: "core_reach blocks parse path maxStale s \<Longrightarrow> core_ok maxStale s ev \<Longrightarrow>
    core_reach blocks parse path maxStale (core_step blocks parse path maxStale ev s)"

definition covers_applied :: "'c core \<Rightarrow> cacheEntry \<Rightarrow> bool" where
  "covers_applied s e \<longleftrightarrow> ce_Generation e \<noteq> 0 \<and> (\<forall>g \<in> set (co_applied s). g \<le> ce_Generation e)"

definition core_inv :: "string \<Rightarrow> 'c core \<Rightarrow> bool" where
  "core_inv path s \<longleftrightarrow>
     sorted (co_applied s) \<and> cachePath (co_manager s) = path \<and>
     (\<forall>g \<in> set (co_applied s). g \<le> max (gen (co_manager s)) (warm_floor (co_manager s))) \<and>
     (\<forall>e. lastGood (co_manager s) = Some e \<longrightarrow> covers_applied s e) \<and>
     (\<forall>e. co_file s = Some e \<longrightarrow> covers_applied s e) \<and>
     (co_applied s \<noteq> [] \<longrightarrow> co_file s \<noteq> None)"

lemma EnableWarmStart_simps [simp]:
  "cachePath (EnableWarmStart path maxStale now file m) = path"
  "gen (EnableWarmStart path maxStale now file m) = gen m"
  by (simp_all add: EnableWarmStart_def Let_def split: option.splits)

lemma core_inv_restart:
  assumes "core_inv path s" and "path \<noteq> []" and "core_ok maxStale s (CoreRestart now)"
  shows "core_inv path (core_step blocks parse path maxStale (CoreRestart now) s)"
proof (cases "co_file s")
  case None
  then have "co_applied s = []" using assms(1) by (auto simp: core_inv_def)
  then show ?thesis using None
    by (simp add: core_inv_def core_step_def EnableWarmStart_def readCache_def NewManager_def Let_def)
next
  case (Some e)
  then have "covers_applied s e" using assms(1) by (simp add: core_inv_def)
  then show ?thesis using Some assms
    by (auto simp: core_inv_def core_step_def EnableWarmStart_def readCache_def NewManager_def covers_applied_def Let_def)
qed

lemma core_inv_fetch:
  assumes "core_inv path s" and "path \<noteq> []" and "core_ok maxStale s (CoreFetch f now wrote)"
  shows "core_inv path (core_step blocks parse path maxStale (CoreFetch f now wrote) s)"
proof (cases f)
  case BundleError
  then show ?thesis using assms(1) by (simp add: core_step_def Run_step_def)
next
  case BundleUnchanged
  then show ?thesis using assms
    by (auto simp: core_step_def Run_step_def core_inv_def refresh_cache_def writeCache_def covers_applied_def split: option.splits)
next
  case (BundleFetched b)
  show ?thesis
  proof (cases rule: apply_bundle_cases [of blocks parse b "co_manager s"])
    case (applied pool)
    have r: "apply_result blocks parse b (co_manager s) = resultApplied"
      using applied(5) by (auto simp: apply_bundle_def Let_def split: if_splits)
    have "g \<le> b_Generation b" if "g \<in> set (co_applied s)" for g
      using that applied(3,4) assms(1) by (force simp: core_inv_def)
    then show ?thesis using applied(5) r assms BundleFetched
      by (auto simp: core_step_def Run_step_def core_inv_def writeCache_def covers_applied_def sorted_append le_max_iff_disj Let_def)
  next
    case (kept r)
    then have "apply_result blocks parse b (co_manager s) \<noteq> resultApplied"
      by (auto simp: apply_bundle_def Let_def split: if_splits)
    moreover from kept have "core_inv path (s\<lparr>co_file := refresh_cache now wrote (co_manager s) (co_file s)\<rparr>)" 
      using assms by (auto simp: core_inv_def refresh_cache_def writeCache_def covers_applied_def split: option.splits)
    ultimately show ?thesis using kept BundleFetched assms(1)
      by (cases r) (simp_all add: core_step_def Run_step_def Let_def)
  qed
qed

lemma core_reach_inv: "core_reach blocks parse path maxStale s \<Longrightarrow> path \<noteq> [] \<Longrightarrow> core_inv path s"
proof (induction rule: core_reach.induct)
  case (core_start now)
  then show ?case by (simp add: core_inv_def core_init_def EnableWarmStart_def readCache_def NewManager_def Let_def)
next
  case (core_next s ev)
  then show ?case using core_inv_restart core_inv_fetch by (cases ev) blast+
qed

text \<open>C10. A rotated-out CA is not resurrected: over any run of fetches and restarts, with the warm-start file enabled,
  writable and fresh at each restart, the generations that go live never decrease, and the live
  generation is never below one that was live before, also across restarts.\<close>
theorem trust_never_regresses:
  assumes "core_reach blocks parse path maxStale s" and "path \<noteq> []"
  shows "sorted (co_applied s) \<and>
    list_all (\<lambda>g. g \<le> max (gen (co_manager s)) (warm_floor (co_manager s))) (co_applied s)"
  using core_reach_inv [OF assms] by (simp add: core_inv_def list_all_iff)


subsection \<open>The verification cache\<close>

inductive manager_reach ::
  "(string \<Rightarrow> (string \<times> string) list) \<Rightarrow> (string \<Rightarrow> 'c option) \<Rightarrow> ('c list \<Rightarrow> 'c \<Rightarrow> 'c list \<Rightarrow> bool) \<Rightarrow> ('c \<Rightarrow> string) \<Rightarrow> 'c manager \<Rightarrow> bool"
  for blocks parse verify fp where
  manager_start: "manager_reach blocks parse verify fp (EnableWarmStart path maxStale now file NewManager)"
| manager_apply: "manager_reach blocks parse verify fp m \<Longrightarrow> b_Generation b > 0 \<Longrightarrow>
    manager_reach blocks parse verify fp (snd (apply_bundle blocks parse b m))"
| manager_verify: "manager_reach blocks parse verify fp m \<Longrightarrow>
    manager_reach blocks parse verify fp (snd (VerifyClientCert verify fp certs victim m))"

definition cache_ok :: "('c list \<Rightarrow> 'c \<Rightarrow> 'c list \<Rightarrow> bool) \<Rightarrow> ('c \<Rightarrow> string) \<Rightarrow> 'c manager \<Rightarrow> bool" where
  "cache_ok verify fp m \<longleftrightarrow> verifyGen m \<le> gen m \<and>
     (verifyGen m = gen m \<longrightarrow>
        (\<forall>key \<in> set (verifyCache m). \<exists>pool leaf rest. clientCAs m = Some pool \<and> fp leaf = key \<and> verify pool leaf rest))"

lemma cache_put_keys: "key' \<in> set (verifyCache (cache_put g key victim m)) \<Longrightarrow> key' = key \<or> verifyGen m = g \<and> key' \<in> set (verifyCache m)"
  using set_remove1_subset [of victim "verifyCache m"] by (auto simp: cache_put_def Let_def split: if_splits)

lemma cache_put_simps [simp]:
  "verifyGen (cache_put g key victim m) = g" "gen (cache_put g key victim m) = gen m" "clientCAs (cache_put g key victim m) = clientCAs m"
  by (simp_all add: cache_put_def Let_def)

lemma manager_reach_cache: "manager_reach blocks parse verify fp m \<Longrightarrow> cache_ok verify fp m"
proof (induction rule: manager_reach.induct)
  case manager_start
  show ?case by (simp add: cache_ok_def EnableWarmStart_def NewManager_def Let_def split: option.splits)
next
  case (manager_apply m b)
  show ?case
    using manager_apply.IH manager_apply.hyps(2)
    by (cases rule: apply_bundle_cases [of blocks parse b m]) (auto simp: cache_ok_def)
next
  case (manager_verify m certs victim)
  then show ?case
    by (cases certs) (auto simp: VerifyClientCert_def cache_ok_def dest!: cache_put_keys split: option.splits)
qed

text \<open>Without races the cache never changes the answer: in every state reached by applying bundles and answering
  requests one at a time, a certificate that chains to the live pool is accepted, and an accepted
  leaf chains to the live pool, the one of the current generation, with some intermediates that
  were presented with it.\<close>
theorem verify_matches_live_pool:
  assumes "manager_reach blocks parse verify fp m" and "inj fp" and "clientCAs m = Some pool"
  shows "(verify pool leaf rest \<longrightarrow> fst (VerifyClientCert verify fp (leaf # rest) victim m)) \<and>
    (fst (VerifyClientCert verify fp (leaf # rest) victim m) \<longrightarrow> (\<exists>rest'. verify pool leaf rest'))"
proof -
  have res: "fst (VerifyClientCert verify fp (leaf # rest) victim m) = (cache_hit (gen m) (fp leaf) m \<or> verify pool leaf rest)"
    unfolding VerifyClientCert_def by (simp only: list.case assms(3) option.case split: if_splits) simp
  have "\<exists>rest'. verify pool leaf rest'" if hit: "cache_hit (gen m) (fp leaf) m"
  proof -
    from hit have g: "verifyGen m = gen m" and key: "fp leaf \<in> set (verifyCache m)" by (simp_all only: cache_hit_def)
    from manager_reach_cache [OF assms(1)] g key
    obtain p l r where "clientCAs m = Some p" "fp l = fp leaf" "verify p l r" unfolding cache_ok_def by blast
    with assms(3) injD [OF assms(2), of l leaf] show ?thesis by (intro exI [of _ r]) (simp only: option.inject)
  qed
  with res show ?thesis by blast
qed

subsection \<open>The race between a rotation and a request\<close>

text \<open>The loads and stores as separate steps. \<open>apply\<close> stores the pool, then the generation; \<open>VerifyClientCert\<close> loads
  the pool, then the generation, then looks up, verifies and stores.\<close>

definition store_pool :: "'c list \<Rightarrow> 'c manager \<Rightarrow> 'c manager" where
  "store_pool pool m = m\<lparr>clientCAs := Some pool\<rparr>"

definition store_gen :: "nat \<Rightarrow> 'c manager \<Rightarrow> 'c manager" where
  "store_gen g m = m\<lparr>gen := g\<rparr>"

definition verify_loaded ::
  "('c list \<Rightarrow> 'c \<Rightarrow> 'c list \<Rightarrow> bool) \<Rightarrow> ('c \<Rightarrow> string) \<Rightarrow> 'c list option \<Rightarrow> nat \<Rightarrow> 'c list \<Rightarrow> string \<Rightarrow> 'c manager \<Rightarrow> bool \<times> 'c manager" where
  "verify_loaded verify fp pool g certs victim m =
     (case certs of
        [] \<Rightarrow> (False, m)
      | leaf # rest \<Rightarrow>
          (case pool of
             None \<Rightarrow> (False, m)
           | Some p \<Rightarrow>
               if cache_hit g (fp leaf) m then (True, m)
               else if \<not> verify p leaf rest then (False, m)
               else (True, cache_put g (fp leaf) victim m)))"

lemma VerifyClientCert_steps: "VerifyClientCert verify fp certs victim m = verify_loaded verify fp (clientCAs m) (gen m) certs victim m"
  by (simp add: VerifyClientCert_def verify_loaded_def)

text \<open>C31. The loads are in the wrong order: a request loads the old pool, a rotation stores the new pool and the new
  generation, and the request then loads the new generation. Its certificate, which chains only to
  the old pool, is cached under the new generation, and every later request with it is accepted
  although it does not chain to the live pool.\<close>
theorem rotation_race_caches_old_leaf:
  assumes "clientCAs m0 = Some old" and "verify old leaf rest" and "\<not> verify new leaf rest" and "verifyGen m0 < g"
  shows "let loaded_pool = clientCAs m0;
      m1 = store_gen g (store_pool new m0);
      loaded_gen = gen m1;
      m2 = snd (verify_loaded verify fp loaded_pool loaded_gen (leaf # rest) victim m1)
    in clientCAs m2 = Some new \<and> gen m2 = g \<and> fst (VerifyClientCert verify fp (leaf # rest) victim2 m2)"
  using assms by (auto simp: Let_def VerifyClientCert_def verify_loaded_def store_gen_def store_pool_def cache_hit_def cache_put_def verifyCacheCap_def)

text \<open>The witnesses: certificates are texts, and a leaf chains to a pool that contains its first letter.\<close>

definition demo_verify :: "string list \<Rightarrow> string \<Rightarrow> string list \<Rightarrow> bool" where
  "demo_verify pool leaf rest \<longleftrightarrow> take 1 leaf \<in> set pool"

definition demo_bundle :: "nat \<Rightarrow> string \<Rightarrow> Bundle" where
  "demo_bundle g pem = \<lparr>b_Generation = g, b_CAPEM = pem, b_CAID = pem\<rparr>"

definition demo_blocks :: "string \<Rightarrow> (string \<times> string) list" where
  "demo_blocks pem = [(''CERTIFICATE'', pem)]"

definition demo_core :: "string core" where
  "demo_core = foldl (\<lambda>s ev. core_step demo_blocks Some ''f'' 0 ev s) (core_init ''f'' 0 0)
     [CoreFetch (BundleFetched (demo_bundle 3 ''A'')) 1 True, CoreRestart 2, CoreFetch (BundleFetched (demo_bundle 2 ''B'')) 3 True,
      CoreFetch (BundleFetched (demo_bundle 4 ''B'')) 4 True]"

lemma demo_core_reach: "core_reach demo_blocks Some ''f'' 0 demo_core"
  unfolding demo_core_def foldl_Cons foldl_Nil
  by (intro core_next core_start) (simp_all add: demo_bundle_def split: option.splits)

theorem trust_never_regresses_witness: "co_applied demo_core = [3, 4] \<and> sorted (co_applied demo_core)"
proof -
  have "co_applied demo_core = [3, 4]" by code_simp
  then show ?thesis using trust_never_regresses [OF demo_core_reach] by simp
qed

definition demo_manager :: "string manager" where
  "demo_manager = snd (apply_bundle demo_blocks Some (demo_bundle 3 ''A'') (EnableWarmStart [] 0 0 None NewManager))"

lemma demo_manager_reach: "manager_reach demo_blocks Some demo_verify (\<lambda>l. l) demo_manager"
  unfolding demo_manager_def by (rule manager_apply [OF manager_start]) (simp add: demo_bundle_def)

theorem verify_matches_live_pool_witness:
  "fst (VerifyClientCert demo_verify (\<lambda>l. l) [''Ax''] [] demo_manager) \<and>
    \<not> fst (VerifyClientCert demo_verify (\<lambda>l. l) [''Bx''] [] demo_manager)"
proof -
  have "clientCAs demo_manager = Some [''A'']" by code_simp
  note m = verify_matches_live_pool [OF demo_manager_reach _ this, where victim = "[]" and rest = "[]"]
  show ?thesis using m [of "''Ax''"] m [of "''Bx''"] by (simp add: demo_verify_def)
qed

theorem rotation_race_caches_old_leaf_witness:
  "let m2 = snd (verify_loaded demo_verify (\<lambda>l. l) (clientCAs demo_manager) 4 [''Ax''] [] (store_gen 4 (store_pool [''B''] demo_manager)))
   in clientCAs m2 = Some [''B''] \<and> gen m2 = 4 \<and> \<not> demo_verify [''B''] ''Ax'' [] \<and>
      fst (VerifyClientCert demo_verify (\<lambda>l. l) [''Ax''] [] m2)"
proof -
  have m: "clientCAs demo_manager = Some [''A'']" "verifyGen demo_manager < 4" by code_simp+
  show ?thesis
    using rotation_race_caches_old_leaf [where verify = demo_verify and leaf = "''Ax''" and rest = "[]" and new = "[''B'']"
        and fp = "\<lambda>l. l" and victim = "[]" and ?victim2.0 = "[]", OF m(1) _ _ m(2)]
    by (simp add: demo_verify_def Let_def store_gen_def)
qed

end
