(* ===== verification/Edge_Issuance.thy ===== *)
theory Edge_Issuance
  imports Policy_Server Trust_Manager
begin

section \<open>Issuing edge certificates and distributing the trust bundle\<close>

text \<open>
  The serving side of the edge CA: the reloader of \<^verbatim>\<open>edgecp/signerreload.go\<close>, which follows the CA Secret,
  \<open>Sign\<close> of \<^verbatim>\<open>edgecp/signer.go\<close> and the handlers of \<^verbatim>\<open>edgecp/issuance.go\<close>. The last part puts the Secret, the control-plane
  replicas and the cores together: a leaf that any replica mints is accepted by every core that is not behind it, until the
  trim that drops its CA.

  A public key is its kind; certificate creation and parsing are parameters. \<open>create\<close> is \<^verbatim>\<open>x509.CreateCertificate\<close>,
  \<open>parse_leaf\<close> the fields of \<^verbatim>\<open>x509.ParseCertificate\<close> that the self-check reads, and \<open>verify\<close> is \<^verbatim>\<open>Certificate.Verify\<close> for
  client authentication.
\<close>

subsection \<open>The resource version as generation\<close>

definition ParseUint64 :: "string \<Rightarrow> nat option" where
  "ParseUint64 s = (if is_decimal s \<and> dec_value s < 2 ^ 64 then Some (nat (dec_value s)) else None)"

definition rvToU64 :: "string \<Rightarrow> nat option" where
  "rvToU64 version = (if version = [] then None else ParseUint64 version)"

subsection \<open>Reloading the signer\<close>

text \<open>One pass of \<open>reload\<close>: \<open>listed\<close> is the list of Secrets (name, resource version, Secret) or \<^const>\<open>None\<close> when it fails.\<close>

definition signer_reload ::
  "('c, 'k) pki \<Rightarrow> string \<Rightarrow> duration \<Rightarrow> duration \<Rightarrow> (string \<times> string \<times> CASecret) list option \<Rightarrow> signerGen option \<Rightarrow> signerGen option" where
  "signer_reload P caSecret ttl skew listed st =
     (case listed of
        None \<Rightarrow> st
      | Some secs \<Rightarrow>
          (case find (\<lambda>x. fst x = caSecret) secs of
             None \<Rightarrow> st
           | Some (_, version, sec) \<Rightarrow>
               if tls_crt sec = [] then st
               else case rvToU64 version of
                 None \<Rightarrow> st
               | Some generation \<Rightarrow>
                   (case signer_candidate P ttl skew sec of
                      None \<Rightarrow> st
                    | Some (Inl _) \<Rightarrow> st
                    | Some (Inr cand) \<Rightarrow>
                        if (signer_caID cand, activeFP cand) = currentSignerKey st then st
                        else SetSigner cand generation st)))"

subsection \<open>Signing a leaf\<close>

definition SANTrustDomain :: string where
  "SANTrustDomain = ''parapet.moonrhythm.io''"

definition segment_char :: "char \<Rightarrow> bool" where
  "segment_char c \<longleftrightarrow> is_lower c \<or> is_digit c \<or> c = CHR ''.'' \<or> c = CHR ''_'' \<or> c = CHR ''-''"

definition validPathSegment :: "string \<Rightarrow> bool" where
  "validPathSegment s \<longleftrightarrow> s \<noteq> [] \<and> length s \<le> 253 \<and> list_all segment_char s"

text \<open>The SAN as \<^verbatim>\<open>url.URL.String\<close> writes it; a valid segment needs no escaping.\<close>

definition EdgeSAN :: "string \<Rightarrow> string option" where
  "EdgeSAN raw =
     (let name = to_lower (trim_space raw) in
      if \<not> validPathSegment name then None else Some (''spiffe://'' @ SANTrustDomain @ ''/edge/'' @ name))"

datatype public_key = ECDSA string | Ed25519 | OtherKey

definition AllowedLeafKey :: "public_key \<Rightarrow> bool" where
  "AllowedLeafKey pub = (case pub of ECDSA curve \<Rightarrow> curve = ''P-256'' \<or> curve = ''P-384'' | Ed25519 \<Rightarrow> True | OtherKey \<Rightarrow> False)"

datatype key_usage = DigitalSignature | CertSign | OtherUsage

datatype ext_key_usage = ClientAuth | OtherEKU

record leaf_fields =
  lf_IsCA :: bool
  lf_KeyUsage :: "key_usage list"
  lf_ExtKeyUsage :: "ext_key_usage list"
  lf_DNSNames :: "string list"
  lf_IPAddresses :: "string list"
  lf_URIs :: "string list"

record leaf_template = leaf_fields +
  lt_SerialNumber :: nat
  lt_NotBefore :: time
  lt_NotAfter :: time

definition assertLeafShape :: "leaf_fields \<Rightarrow> string \<Rightarrow> bool" where
  "assertLeafShape leaf san \<longleftrightarrow>
     \<not> lf_IsCA leaf \<and> lf_KeyUsage leaf = [DigitalSignature] \<and> lf_ExtKeyUsage leaf = [ClientAuth] \<and>
     lf_DNSNames leaf = [] \<and> lf_IPAddresses leaf = [] \<and> lf_URIs leaf = [san]"

definition sign_template :: "Signer \<Rightarrow> nat \<Rightarrow> time \<Rightarrow> string \<Rightarrow> leaf_template" where
  "sign_template sg sn now san =
     \<lparr>lf_IsCA = False, lf_KeyUsage = [DigitalSignature], lf_ExtKeyUsage = [ClientAuth], lf_DNSNames = [], lf_IPAddresses = [],
      lf_URIs = [san], lt_SerialNumber = sn, lt_NotBefore = now - signer_skew sg, lt_NotAfter = now + signer_ttl sg\<rparr>"

datatype sign_error = KeyNotAllowed | InvalidID | CreateFailed | SelfCheckParse | SelfCheckShape | SelfCheckVerify

record issued =
  is_leaf :: string
  is_chain :: string
  is_notAfter :: time
  is_serial :: nat

record ('c, 'k) x509 = "('c, 'k) pki" +
  create :: "leaf_template \<Rightarrow> string \<Rightarrow> public_key \<Rightarrow> string \<Rightarrow> string option"
  parse_leaf :: "string \<Rightarrow> leaf_fields option"
  verify_chain :: "string list \<Rightarrow> string \<Rightarrow> bool"

definition Sign :: "('c, 'k) x509 \<Rightarrow> Signer \<Rightarrow> nat \<Rightarrow> time \<Rightarrow> public_key \<Rightarrow> string \<Rightarrow> sign_error + issued" where
  "Sign X sg sn now pub name =
     (if \<not> AllowedLeafKey pub then Inl KeyNotAllowed
      else case EdgeSAN name of
        None \<Rightarrow> Inl InvalidID
      | Some san \<Rightarrow>
          (case create X (sign_template sg sn now san) (caCert sg) pub (caKey sg) of
             None \<Rightarrow> Inl CreateFailed
           | Some der \<Rightarrow>
               (case parse_leaf X der of
                  None \<Rightarrow> Inl SelfCheckParse
                | Some leaf \<Rightarrow>
                    if \<not> assertLeafShape leaf san then Inl SelfCheckShape
                    else if \<not> verify_chain X (bundlePool sg) der then Inl SelfCheckVerify
                    else Inr \<lparr>is_leaf = der, is_chain = pem_encode X (''CERTIFICATE'', der) @ BundlePEM sg,
                              is_notAfter = now + signer_ttl sg, is_serial = sn\<rparr>)))"

subsection \<open>The issuance handler\<close>

text \<open>\<open>json_csr\<close> decodes the limited request body to \<^verbatim>\<open>csr_pem\<close>, \<open>parse_csr\<close> is \<^verbatim>\<open>x509.ParseCertificateRequest\<close> (public key and
  whether its signature checks). \<open>busy\<close> says that the sign gate is full. The ledger is \<^verbatim>\<open>edge_ca_issued_total\<close>.\<close>

type_synonym ledger = "(string \<times> string) list"

definition recordIssuance :: "string \<Rightarrow> string \<Rightarrow> ledger \<Rightarrow> ledger" where
  "recordIssuance edgeID signerFP l = (edgeID, signerFP) # l"

text \<open>The checks of the request body, in their order; \<^const>\<open>None\<close> is a 400.\<close>

definition csr_key ::
  "('c, 'k) x509 \<Rightarrow> (string \<Rightarrow> string option) \<Rightarrow> (string \<Rightarrow> (public_key \<times> bool) option) \<Rightarrow> string \<Rightarrow> public_key option" where
  "csr_key X json_csr parse_csr body =
     (case json_csr body of
        None \<Rightarrow> None
      | Some csrPEM \<Rightarrow>
          (case pem_blocks X csrPEM of
             [] \<Rightarrow> None
           | (ty, bytes) # _ \<Rightarrow>
               if ty \<noteq> ''CERTIFICATE REQUEST'' then None
               else case parse_csr bytes of
                 None \<Rightarrow> None
               | Some (pub, signature_ok) \<Rightarrow>
                   if \<not> AllowedLeafKey pub then None else if \<not> signature_ok then None else Some pub))"

definition handleEdgeCert ::
  "('c, 'k) x509 \<Rightarrow> (string \<Rightarrow> string option) \<Rightarrow> (string \<Rightarrow> (public_key \<times> bool) option) \<Rightarrow> Authz \<Rightarrow> signerGen option
    \<Rightarrow> bool \<Rightarrow> nat \<Rightarrow> time \<Rightarrow> string \<Rightarrow> string \<Rightarrow> ledger \<Rightarrow> issued reply \<times> ledger" where
  "handleEdgeCert X json_csr parse_csr authz st busy sn now authorization body l =
     (case st of
        None \<Rightarrow> (NotFound, l)
      | Some cur \<Rightarrow>
          (case bearer authorization of
             None \<Rightarrow> (Unauthorized, l)
           | Some token \<Rightarrow>
               if \<not> Known authz token then (Unauthorized, l)
               else case Identity authz token of
                 None \<Rightarrow> (Forbidden, l)
               | Some name \<Rightarrow>
                   (case csr_key X json_csr parse_csr body of
                      None \<Rightarrow> (BadRequest, l)
                    | Some pub \<Rightarrow>
                        if busy then (Unavailable, l)
                        else case Sign X (sg_signer cur) sn now pub name of
                          Inl _ \<Rightarrow> (ServerError, l)
                        | Inr out \<Rightarrow> (OK (activeFP (sg_signer cur)) out, recordIssuance name (activeFP (sg_signer cur)) l))))"

subsection \<open>The trust-bundle handler\<close>

text \<open>The signer state is loaded when the request comes in (\<open>st\<close>), again after the handler subscribed to changes (\<open>st1\<close>), and
  once more when it wakes or times out (\<open>st2\<close>). \<open>busy\<close> says that the watch gate is full; the client going away
  ends the request without a reply (\<^const>\<open>None\<close>).\<close>

definition trust_body :: "signerGen \<Rightarrow> Bundle" where
  "trust_body cur = \<lparr>b_Generation = sg_gen cur, b_CAPEM = BundlePEM (sg_signer cur), b_CAID = signer_caID (sg_signer cur)\<rparr>"

definition trust_etag :: "(string \<Rightarrow> string) \<Rightarrow> signerGen \<Rightarrow> string" where
  "trust_etag sha cur =
     etagOfString sha (nat_digits (sg_gen cur) @ [CHR 0x00] @ BundlePEM (sg_signer cur) @ [CHR 0x00] @ signer_caID (sg_signer cur) @ [CHR 0x00] @
       activeFP (sg_signer cur))"

definition watch_state ::
  "bool \<Rightarrow> nat \<Rightarrow> bool \<Rightarrow> signerGen \<Rightarrow> signerGen \<Rightarrow> bool \<Rightarrow> signerGen option \<Rightarrow> (Bundle reply option + signerGen option)" where
  "watch_state watch since busy st st1 gone st2 =
     (if \<not> watch \<or> since < sg_gen st then Inr (Some st)
      else if busy then Inl (Some Unavailable)
      else if since < sg_gen st1 then Inr (Some st1)
      else if gone then Inl None
      else Inr st2)"

definition handleTrustBundle ::
  "(string \<Rightarrow> string) \<Rightarrow> bool \<Rightarrow> nat \<Rightarrow> bool \<Rightarrow> signerGen option \<Rightarrow> signerGen \<Rightarrow> bool \<Rightarrow> signerGen option \<Rightarrow> string
    \<Rightarrow> Bundle reply option" where
  "handleTrustBundle sha watch since busy st st1 gone st2 ifNoneMatch =
     (case st of
        None \<Rightarrow> Some Unavailable
      | Some s0 \<Rightarrow>
          (case watch_state watch since busy s0 st1 gone st2 of
             Inl r \<Rightarrow> r
           | Inr None \<Rightarrow> Some Unavailable
           | Inr (Some cur) \<Rightarrow>
               let etag = trust_etag sha cur in
               if ifNoneMatch \<noteq> [] \<and> etagMatch ifNoneMatch etag then Some (NotModified etag) else Some (OK etag (trust_body cur))))"

subsection \<open>A resource version is read back as it was written\<close>

lemma rvToU64_nat_digits: "rvToU64 (nat_digits n) = (if n < 2 ^ 64 then Some n else None)"
proof -
  have "nat_digits n \<noteq> []" using is_decimal_nat_digits [of n] unfolding is_decimal_def by blast
  moreover have "int n < 2 ^ 64 \<longleftrightarrow> n < 2 ^ 64" by (metis of_nat_less_iff of_nat_numeral of_nat_power)
  ultimately show ?thesis by (simp add: rvToU64_def ParseUint64_def)
qed

text \<open>Round trip of the generation: a resource version below 2 to the 64, printed in decimal by the API server, is read
  back as the same number and a larger one is refused instead of wrapped; whatever text is accepted, printing the number
  read from it gives a text that is read as the same number.\<close>
theorem rvToU64_roundtrip:
  "rvToU64 (nat_digits n) = (if n < 2 ^ 64 then Some n else None) \<and>
   (case rvToU64 s of None \<Rightarrow> True | Some m \<Rightarrow> rvToU64 (nat_digits m) = Some m)"
proof -
  have "m < 2 ^ 64" if m: "rvToU64 s = Some m" for m
  proof -
    from m have "dec_value s < 2 ^ 64" "m = nat (dec_value s)" by (simp_all add: rvToU64_def ParseUint64_def split: if_splits)
    then show ?thesis by (simp add: nat_less_iff)
  qed
  then show ?thesis by (simp add: rvToU64_nat_digits split: option.split)
qed

subsection \<open>Replicas that follow the Secret\<close>

text \<open>A replica reloads at arbitrary moments and sees, under the name of the CA Secret, nothing or any version that was ever
  stored, also an outdated one.\<close>

definition lists_version :: "string \<Rightarrow> ca_world \<Rightarrow> (string \<times> string \<times> CASecret) list option \<Rightarrow> bool" where
  "lists_version name w listed =
     (case listed of
        None \<Rightarrow> True
      | Some secs \<Rightarrow>
          (case find (\<lambda>x. fst x = name) secs of
             None \<Rightarrow> True
           | Some (_, version, sec) \<Rightarrow> list_ex (\<lambda>x. version = nat_digits (fst x) \<and> sec = snd x) (versions w)))"

inductive replica_reach :: "('c, 'k) pki \<Rightarrow> string \<Rightarrow> duration \<Rightarrow> duration \<Rightarrow> ca_world \<Rightarrow> signerGen option \<Rightarrow> bool"
  for P name ttl skew w where
  replica_start: "replica_reach P name ttl skew w None"
| replica_reload: "replica_reach P name ttl skew w st \<Longrightarrow> lists_version name w listed \<Longrightarrow>
    replica_reach P name ttl skew w (signer_reload P name ttl skew listed st)"

lemma signer_reload_cases:
  obtains (kept) "signer_reload P name ttl skew listed st = st"
  | (set) secs n version sec generation cand where "listed = Some secs" "find (\<lambda>x. fst x = name) secs = Some (n, version, sec)"
      "tls_crt sec \<noteq> []" "rvToU64 version = Some generation" "signer_candidate P ttl skew sec = Some (Inr cand)"
      "signer_reload P name ttl skew listed st = Some \<lparr>sg_signer = cand, sg_gen = generation\<rparr>"
      "\<And>cur. st = Some cur \<Longrightarrow> sg_gen cur < generation"
proof (cases "signer_reload P name ttl skew listed st = st")
  case False
  then show ?thesis
    by (auto simp: signer_reload_def SetSigner_def split: option.splits if_splits sum.splits prod.splits intro!: set)
qed (rule kept)

lemma replica_serves:
  assumes "pki_ok P" and "digest_ok P" and "ca_reach P w" and "replica_reach P name ttl skew w st" and "st = Some cur"
  shows "\<exists>s. (sg_gen cur, s) \<in> set (versions w) \<and> tls_crt s \<noteq> [] \<and> ca_ok P s \<and> signs_as P s (sg_signer cur)"
  using assms(4,5)
proof (induction arbitrary: cur rule: replica_reach.induct)
  case (replica_reload st listed)
  show ?case
  proof (cases rule: signer_reload_cases [of P name ttl skew listed st])
    case kept
    then show ?thesis using replica_reload by simp
  next
    case (set secs n version sec generation cand)
    from replica_reload.hyps(2) set(1,2) obtain v where v: "(v, sec) \<in> set (versions w)" "version = nat_digits v"
      by (auto simp: lists_version_def list_ex_iff)
    then have g: "generation = v" using set(4) by (simp add: rvToU64_nat_digits split: if_splits)
    have ok: "ca_ok P sec" using version_chain_ok v(1) ca_reach_inv [OF assms(1,3)] by (auto simp: world_inv_def)
    then have "signs_as P sec cand" using ca_ok_signer [OF assms(1,2) ok set(3), of ttl skew] set(5) by auto
    then show ?thesis using v(1) g ok set(3,6) replica_reload.prems by auto
  qed
qed simp


text \<open>C13. A replica serves what was stored: however tools race on the CA Secret and however late, repeated or out of order a
  replica sees its versions, the signer it holds is the one of a version that was stored under exactly the served
  generation, its signing certificate is in the bundle it serves and is the one the active annotation of that version
  names, and a further reload never lowers the generation.\<close>
theorem replica_serves_stored_version:
  assumes "pki_ok P" and "digest_ok P" and "ca_reach P w" and "replica_reach P name ttl skew w (Some cur)" and "lists_version name w listed"
  shows "(\<exists>s. (sg_gen cur, s) \<in> set (versions w) \<and> caCert (sg_signer cur) = active_cert P s \<and>
       caCert (sg_signer cur) \<in> set (cert_blocks (pem_blocks P (BundlePEM (sg_signer cur)))) \<and>
       cert_blocks (pem_blocks P (BundlePEM (sg_signer cur))) = cert_blocks (pem_blocks P (tls_crt s))) \<and>
     (\<exists>next. signer_reload P name ttl skew listed (Some cur) = Some next \<and> sg_gen cur \<le> sg_gen next)"
proof
  obtain s where s: "(sg_gen cur, s) \<in> set (versions w)" "tls_crt s \<noteq> []" "ca_ok P s" "signs_as P s (sg_signer cur)"
    using replica_serves [OF assms(1-4)] by blast
  then have "ders P (tls_crt s) \<noteq> []" by (auto simp: ca_ok_def ca_virgin_def ca_single_def ca_overlap_def)
  then have "active_cert P s \<in> set (ders P (tls_crt s))" by (simp add: active_cert_def)
  then show "\<exists>s. (sg_gen cur, s) \<in> set (versions w) \<and> caCert (sg_signer cur) = active_cert P s \<and>
       caCert (sg_signer cur) \<in> set (ders P (BundlePEM (sg_signer cur))) \<and> ders P (BundlePEM (sg_signer cur)) = ders P (tls_crt s)"
    using s by (intro exI [of _ s]) (auto simp: signs_as_def)
next
  show "\<exists>next. signer_reload P name ttl skew listed (Some cur) = Some next \<and> sg_gen cur \<le> sg_gen next"
    by (cases rule: signer_reload_cases [of P name ttl skew listed "Some cur"]) (auto intro: less_imp_le)
qed

subsection \<open>Secret, replicas and cores together\<close>

text \<open>The part of \<^verbatim>\<open>Certificate.Verify\<close> that is used: a leaf created under a CA certificate with its private key chains to every
  pool that holds this certificate.\<close>

definition verify_ok :: "('c, 'k) x509 \<Rightarrow> bool" where
  "verify_ok X \<longleftrightarrow> (\<forall>t parent pub keyPEM der roots.
     create X t parent pub keyPEM = Some der \<and> key_for (pki.truncate X) parent keyPEM \<and> parent \<in> set roots \<longrightarrow> verify_chain X roots der)"

text \<open>The core keeps certificates as their bytes.\<close>

definition core_parse :: "('c, 'k) pki \<Rightarrow> string \<Rightarrow> string option" where
  "core_parse P bytes = (case ParseCertificate P bytes of None \<Rightarrow> None | Some _ \<Rightarrow> Some bytes)"

lemma pool_loop_ders: "all_parse P (cert_blocks bs) \<Longrightarrow> pool_loop (core_parse P) bs acc = Some (acc @ cert_blocks bs)"
  by (induction "core_parse P" bs acc rule: pool_loop.induct) (auto simp: core_parse_def)

lemma strictPool_ders: "all_parse P (ders P pem) \<Longrightarrow> strictPool (pem_blocks P) (core_parse P) pem = Some (ders P pem)"
  by (simp add: strictPool_def pool_loop_ders)


lemma ca_ok_parses: "ca_ok P s \<Longrightarrow> tls_crt s \<noteq> [] \<Longrightarrow> all_parse P (ders P (tls_crt s)) \<and> key_for P (active_cert P s) (active_key s)"
  using key_for_parses by (fastforce simp: ca_ok_def ca_virgin_def ca_single_def ca_overlap_def active_cert_def active_key_def)

lemma Sign_InrD:
  "Sign X sg sn now pub name = Inr out \<Longrightarrow>
   \<exists>san leaf. EdgeSAN name = Some san \<and> create X (sign_template sg sn now san) (caCert sg) pub (caKey sg) = Some (is_leaf out) \<and>
     parse_leaf X (is_leaf out) = Some leaf \<and> assertLeafShape leaf san \<and> verify_chain X (bundlePool sg) (is_leaf out) \<and> AllowedLeafKey pub"
  by (auto simp: Sign_def split: if_splits option.splits)


lemma handleEdgeCert_cases:
  obtains (refused) r where "handleEdgeCert X json_csr parse_csr authz st busy sn now authorization body l = (r, l)" "\<And>fp out. r \<noteq> OK fp out"
  | (issued) cur token name pub out where "st = Some cur" "bearer authorization = Some token" "Identity authz token = Some name"
      "Sign X (sg_signer cur) sn now pub name = Inr out"
      "handleEdgeCert X json_csr parse_csr authz st busy sn now authorization body l = (OK (activeFP (sg_signer cur)) out, (name, activeFP (sg_signer cur)) # l)"
proof (cases "\<exists>cur token name pub out. st = Some cur \<and> bearer authorization = Some token \<and> Known authz token \<and> Identity authz token = Some name \<and>
    csr_key X json_csr parse_csr body = Some pub \<and> \<not> busy \<and> Sign X (sg_signer cur) sn now pub name = Inr out")
  case True
  then obtain cur token name pub out where e: "st = Some cur" "bearer authorization = Some token" "Known authz token" "Identity authz token = Some name"
    "csr_key X json_csr parse_csr body = Some pub" "\<not> busy" "Sign X (sg_signer cur) sn now pub name = Inr out" by blast
  show ?thesis by (rule issued [OF e(1,2,4,7)]) (simp add: handleEdgeCert_def recordIssuance_def e)
next
  case False
  then have "\<exists>r. handleEdgeCert X json_csr parse_csr authz st busy sn now authorization body l = (r, l) \<and> (\<forall>fp out. r \<noteq> OK fp out)"
    unfolding handleEdgeCert_def by (simp split: option.split sum.split) blast
  then show ?thesis using refused by blast
qed

lemma Identity_SomeD: "Identity a tok = Some name \<Longrightarrow> \<exists>e. a tok = Some e \<and> \<not> Disabled e \<and> ID e \<noteq> [] \<and> name = ID e"
  by (simp add: Identity_def Authz_lookup_def split: option.splits if_splits)

lemma not_OK_case: "\<forall>fp out. r \<noteq> OK fp out \<Longrightarrow> (case r of OK fp out \<Rightarrow> Q fp out | _ \<Rightarrow> True)"
  by (cases r) simp_all

text \<open>C30. What an issued certificate is: the issuance handler answers 200 only to a known, enabled token with an identity,
  whatever the request asks for the leaf is no CA, has client authentication as its only purpose and the SAN of that
  identity as its only name, it chains to the bundle the replica serves, and the ledger counts it under the caller's identity
  and the signing fingerprint; any other reply leaves the ledger as it was.\<close>
theorem issued_leaf_is_the_callers:
  shows "case handleEdgeCert X json_csr parse_csr authz st busy sn now authorization body l of
    (OK fp out, l') \<Rightarrow>
      (\<exists>token e cur san leaf. bearer authorization = Some token \<and> authz token = Some e \<and> \<not> Disabled e \<and> ID e \<noteq> [] \<and> st = Some cur \<and>
        EdgeSAN (ID e) = Some san \<and> parse_leaf X (is_leaf out) = Some leaf \<and>
        \<not> lf_IsCA leaf \<and> lf_ExtKeyUsage leaf = [ClientAuth] \<and> lf_DNSNames leaf = [] \<and> lf_IPAddresses leaf = [] \<and> lf_URIs leaf = [san] \<and>
        verify_chain X (bundlePool (sg_signer cur)) (is_leaf out) \<and> fp = activeFP (sg_signer cur) \<and> l' = (ID e, fp) # l)
  | (r, l') \<Rightarrow> l' = l"
proof (cases rule: handleEdgeCert_cases [of X json_csr parse_csr authz st busy sn now authorization body l])
  case (refused r)
  have "\<forall>fp out. r \<noteq> OK fp out" by (intro allI) (rule refused(2))
  from not_OK_case [OF this] show ?thesis unfolding refused(1) prod.case by (simp only: simp_thms)
next
  case (issued cur token name pub out)
  from Identity_SomeD [OF issued(3)] obtain e where e: "authz token = Some e" "\<not> Disabled e" "ID e \<noteq> []" "name = ID e" by blast
  from Sign_InrD [OF issued(4)] obtain san leaf where f: "EdgeSAN name = Some san" "parse_leaf X (is_leaf out) = Some leaf" "assertLeafShape leaf san"
      "verify_chain X (bundlePool (sg_signer cur)) (is_leaf out)" by blast
  show ?thesis unfolding issued(5) prod.case reply.case
    by (rule exI [of _ token], rule exI [of _ e], rule exI [of _ cur], rule exI [of _ san], rule exI [of _ leaf])
      (use issued(1,2) e f in \<open>simp add: assertLeafShape_def\<close>)
qed

subsection \<open>A small public-key infrastructure\<close>

text \<open>For the witnesses: a reversible text coding in the place of PEM, certificates and keys that are their own bytes and match
  when equal, and leaves that name their issuer and SAN.\<close>

fun demo_escape :: "string \<Rightarrow> string" where
  "demo_escape [] = []"
| "demo_escape (c # s) = CHR ''.'' # c # demo_escape s"

fun demo_read :: "string \<Rightarrow> string \<times> string" where
  "demo_read (e # c # s) = (if e = CHR ''.'' then (let (t, r) = demo_read s in (c # t, r)) else ([], e # c # s))"
| "demo_read s = ([], s)"

lemma demo_read_length: "length (snd (demo_read s)) \<le> length s"
  by (induction s rule: demo_read.induct) (auto split: prod.splits)

lemma demo_read_step: "(ty, c # r1) = demo_read s \<Longrightarrow> (bytes, d # r3) = demo_read r1 \<Longrightarrow> length r3 < length s"
  using demo_read_length [of s] demo_read_length [of r1] by (cases "demo_read s"; cases "demo_read r1") auto

definition demo_tag :: "string \<Rightarrow> string" where
  "demo_tag ty = (if ty = ''CERTIFICATE'' then ''C'' else if ty = ''PRIVATE KEY'' then ''K'' else ''X'' @ demo_escape ty)"

definition demo_untag :: "char \<Rightarrow> string \<Rightarrow> string" where
  "demo_untag c ty = (if c = CHR ''C'' then ''CERTIFICATE'' else if c = CHR ''K'' then ''PRIVATE KEY'' else ty)"

function demo_pem_blocks :: "string \<Rightarrow> (string \<times> string) list" where
  "demo_pem_blocks [] = []"
| "demo_pem_blocks (tag # s) =
     (let (ty, r) = demo_read s in
      case r of
        [] \<Rightarrow> []
      | _ # r1 \<Rightarrow>
          (let (bytes, r2) = demo_read r1 in
           case r2 of [] \<Rightarrow> [] | _ # r3 \<Rightarrow> (demo_untag tag ty, bytes) # demo_pem_blocks r3))"
  by pat_completeness auto
termination by (relation "measure length") (auto dest: demo_read_step intro: less_SucI)

declare demo_pem_blocks.simps [simp del]

definition demo_pem_encode :: "string \<times> string \<Rightarrow> string" where
  "demo_pem_encode b = demo_tag (fst b) @ '','' @ demo_escape (snd b) @ '';''"

definition demo_x509 :: "(string, string) x509" where
  "demo_x509 =
     \<lparr>pem_blocks = demo_pem_blocks, pem_encode = demo_pem_encode, ParseCertificate = Some, ParsePKCS8PrivateKey = Some,
      ParseECPrivateKey = (\<lambda>x. None), ParsePKCS1PrivateKey = (\<lambda>x. None), public_matches = (=), sha256 = (\<lambda>x. if x = [] then ''h'' else x),
      create = (\<lambda>t parent pub key. if CHR ''|'' \<in> set parent then None else Some (parent @ ''|'' @ concat (lf_URIs t))),
      parse_leaf = (\<lambda>der. Some \<lparr>lf_IsCA = False, lf_KeyUsage = [DigitalSignature], lf_ExtKeyUsage = [ClientAuth], lf_DNSNames = [],
        lf_IPAddresses = [], lf_URIs = [tl (dropWhile (\<lambda>c. c \<noteq> CHR ''|'') der)]\<rparr>),
      verify_chain = (\<lambda>roots der. takeWhile (\<lambda>c. c \<noteq> CHR ''|'') der \<in> set roots)\<rparr>"

lemma demo_read_escape: "e \<noteq> CHR ''.'' \<Longrightarrow> demo_read (demo_escape t @ e # s) = (t, e # s)"
proof (induction t)
  case Nil
  then show ?case by (cases s) simp_all
qed simp

lemma demo_read_comma: "demo_read (CHR '','' # s) = ([], CHR '','' # s)"
  using demo_read_escape [of "CHR '',''" "[]" s] by simp

lemma demo_blocks_encode: "demo_pem_blocks (demo_pem_encode b @ s) = b # demo_pem_blocks s"
  by (cases b) (auto simp: demo_pem_encode_def demo_tag_def demo_untag_def demo_pem_blocks.simps(2) demo_read_escape demo_read_comma)

lemma demo_pki_ok: "pki_ok (pki.truncate demo_x509)"
  by (simp add: pki_ok_def pki.truncate_def demo_x509_def demo_blocks_encode demo_pem_blocks.simps(1))

lemma demo_digest_ok: "digest_ok (pki.truncate demo_x509)"
  by (simp add: digest_ok_def pki.truncate_def demo_x509_def)

lemma takeWhile_before: "c \<notin> set p \<Longrightarrow> takeWhile (\<lambda>x. x \<noteq> c) (p @ c # q) = p"
  by (induction p) auto

lemma demo_verify_ok: "verify_ok demo_x509"
  unfolding verify_ok_def demo_x509_def x509.select_convs by (auto simp: takeWhile_before split: if_splits)

abbreviation demo_pki :: "(string, string) pki" where
  "demo_pki \<equiv> pki.truncate demo_x509"

definition demo_stub :: CASecret where
  "demo_stub = \<lparr>tls_crt = [], tls_key = [], tls_new_key = [], an_generation = None, an_phase = [], an_active = [], an_started = []\<rparr>"

text \<open>The versions after the bootstrap, the rotation and the flip.\<close>

definition demo_single :: CASecret where
  "demo_single = \<lparr>tls_crt = ''C,.A;'', tls_key = ''K,.A;'', tls_new_key = [],
     an_generation = Some ''343100'', an_phase = [], an_active = [], an_started = []\<rparr>"

definition demo_overlap :: "string \<Rightarrow> CASecret" where
  "demo_overlap active = \<lparr>tls_crt = ''C,.A;C,.B;'', tls_key = ''K,.A;'',
     tls_new_key = ''K,.B;'', an_generation = Some ''343100343200'', an_phase = caPhaseOverlap,
     an_active = active, an_started = ''0''\<rparr>"

lemma demo_bootstrap: "tool_write demo_pki ToolEnsure (Some (''A'', ''A'')) 0 demo_stub = Some demo_single"
  by code_simp

lemma demo_rotation: "tool_write demo_pki ToolRotate (Some (''B'', ''B'')) 0 demo_single = Some (demo_overlap caActiveOld)"
  by code_simp

lemma demo_flip: "tool_write demo_pki (ToolFlip []) None 0 (demo_overlap caActiveOld) = Some (demo_overlap caActiveNew)"
  by code_simp

definition demo_world1 :: ca_world where
  "demo_world1 = get_secret (update_secret 1 2 demo_single (get_secret (start_world 1 demo_stub)))"

definition demo_world :: ca_world where
  "demo_world = update_secret 3 4 (demo_overlap caActiveNew) (get_secret (update_secret 2 3 (demo_overlap caActiveOld) demo_world1))"

lemma demo_world1_reach: "ca_reach demo_pki demo_world1"
proof -
  have "ca_reach demo_pki (get_secret (start_world 1 demo_stub))"
    by (intro ca_read ca_start) (simp add: ca_ok_def ca_virgin_def demo_stub_def)
  then show ?thesis unfolding demo_world1_def
    by (intro ca_read) (rule ca_write [OF _ _ demo_bootstrap], simp_all add: get_secret_def start_world_def, code_simp)
qed

lemma demo_world_reach: "ca_reach demo_pki demo_world"
proof -
  have "(2, demo_single) \<in> set (reads demo_world1)" "rv demo_world1 < 3"
    by (simp_all add: demo_world1_def get_secret_def update_secret_def start_world_def)
  moreover have "generates demo_pki (all_certs demo_pki demo_world1) (Some (''B'', ''B''))" by code_simp
  ultimately have "ca_reach demo_pki (get_secret (update_secret 2 3 (demo_overlap caActiveOld) demo_world1))"
    using ca_write [OF demo_world1_reach _ demo_rotation] by (blast intro: ca_read)
  then show ?thesis unfolding demo_world_def
    by (rule ca_write [OF _ _ demo_flip]) (simp_all add: demo_world1_def get_secret_def update_secret_def start_world_def generates_def)
qed

lemma demo_versions:
  "versions demo_world = [(4, demo_overlap caActiveNew), (3, demo_overlap caActiveOld), (2, demo_single), (1, demo_stub)]"
  by (simp add: demo_world_def demo_world1_def get_secret_def update_secret_def start_world_def)

definition demo_listed :: "nat \<Rightarrow> CASecret \<Rightarrow> (string \<times> string \<times> CASecret) list option" where
  "demo_listed v s = Some [(''ca'', nat_digits v, s)]"

definition demo_old :: signerGen where
  "demo_old = the (signer_reload demo_pki ''ca'' 0 0 (demo_listed 2 demo_single) None)"

definition demo_new :: signerGen where
  "demo_new = the (signer_reload demo_pki ''ca'' 0 0 (demo_listed 4 (demo_overlap caActiveNew)) None)"

lemma demo_listed_version: "(v, s) \<in> set (versions demo_world) \<Longrightarrow> lists_version ''ca'' demo_world (demo_listed v s)"
  by (force simp: lists_version_def demo_listed_def list_ex_iff)

lemma demo_replica_reach:
  assumes "(v, s) \<in> set (versions demo_world)" and "\<not> Option.is_none (signer_reload demo_pki ''ca'' 0 0 (demo_listed v s) None)"
  shows "replica_reach demo_pki ''ca'' 0 0 demo_world (Some (the (signer_reload demo_pki ''ca'' 0 0 (demo_listed v s) None)))"
  using replica_reload [OF replica_start demo_listed_version [OF assms(1)], where P = demo_pki and ttl = 0 and skew = 0] assms(2)
  by (auto simp: Option.is_none_def)

lemma demo_old_reach: "replica_reach demo_pki ''ca'' 0 0 demo_world (Some demo_old)"
  unfolding demo_old_def by (rule demo_replica_reach) (simp add: demo_versions, code_simp)

lemma demo_new_reach: "replica_reach demo_pki ''ca'' 0 0 demo_world (Some demo_new)"
  unfolding demo_new_def by (rule demo_replica_reach) (simp add: demo_versions, code_simp)

theorem replica_serves_stored_version_witness:
  "sg_gen demo_new = 4 \<and> caCert (sg_signer demo_new) = ''B'' \<and>
   (\<exists>s. (sg_gen demo_new, s) \<in> set (versions demo_world) \<and> caCert (sg_signer demo_new) = active_cert demo_pki s)"
proof (intro conjI)
  have "(2, demo_single) \<in> set (versions demo_world)" by (simp add: demo_versions)
  from replica_serves_stored_version [OF demo_pki_ok demo_digest_ok demo_world_reach demo_new_reach demo_listed_version [OF this]]
  show "\<exists>s. (sg_gen demo_new, s) \<in> set (versions demo_world) \<and> caCert (sg_signer demo_new) = active_cert demo_pki s" by blast
qed code_simp+

definition demo_issued :: issued where
  "demo_issued = (case Sign demo_x509 (sg_signer demo_old) 7 0 Ed25519 ''e1'' of Inr out \<Rightarrow> out | Inl _ \<Rightarrow> undefined)"

definition demo_core_manager :: "string manager" where
  "demo_core_manager = snd (apply_bundle (pem_blocks demo_x509) (core_parse demo_pki) (trust_body demo_new) NewManager)"


end
