(* ===== verification/Rotation_Gate.thy ===== *)
theory Rotation_Gate
  imports Complex_Main Edge_Issuance
begin

section \<open>The gate before the old CA is dropped\<close>

text \<open>
  The predicate of \<^verbatim>\<open>edgecp/converge/predicate.go\<close> over a metric snapshot, and the revoke tool of
  \<^verbatim>\<open>cmd/edge-controlplane/revoke.go\<close> that rotates, waits for the gate, flips, waits again and trims. The snapshot itself
  (Prometheus queries) and the probe are inputs. Metric values are rationals: what the
  code compares are counters and 48-bit fingerprints, which \<^verbatim>\<open>float64\<close> holds exactly.
\<close>

record Blocker =
  bl_Plane :: string
  bl_Reporter :: string
  bl_Reason :: string

record ExcludedEdge =
  ex_EdgeID :: string
  ex_Reason :: string

record Config =
  ExpectedCP :: int
  ExpectedCore :: int
  MinEdges :: int
  Exclude :: "ExcludedEdge list"
  ExpectedTargetCAID :: string
  ExpectedActiveSignerFP :: string
  ExpectedAuthzGen :: rat
  RevokedEdgeID :: string

record CPReplica =
  cp_Instance :: string
  cp_Up :: bool
  cp_TargetCAID :: string
  cp_SignerCAID :: string
  cp_SignerGen :: nat
  cp_BundleCerts :: int
  cp_AuthzGen :: rat
  cp_ActiveSignerFP :: string
  cp_RevokedIssuedUnderNew :: rat

record CoreReplica =
  co_Instance :: string
  co_Up :: bool
  co_HeldCAID :: string

record EdgeReporter =
  ed_EdgeID :: string
  ed_Up :: bool
  ed_LiveCAID :: string
  ed_ObservedTarget :: string
  ed_RefreshedInWindow :: bool
  ed_FailedRemints :: bool
  ed_LiveSignerFP :: string
  ed_ObservedSignerFP :: string

record Observations =
  ob_CP :: "CPReplica list"
  ob_Core :: "CoreReplica list"
  ob_Edges :: "EdgeReporter list"
  ob_ExpectedEdges :: "string list"
  ob_RevokedProbeRan :: bool
  ob_RevokedProbeStatus :: int

record Result =
  rs_Converged :: bool
  rs_Target :: string
  rs_Blockers :: "Blocker list"
  rs_Excluded :: "ExcludedEdge list"

definition block :: "string \<Rightarrow> string \<Rightarrow> string \<Rightarrow> Blocker" where
  "block plane reporter reason = \<lparr>bl_Plane = plane, bl_Reporter = reporter, bl_Reason = reason\<rparr>"

definition finalize :: "Config \<Rightarrow> string \<Rightarrow> Blocker list \<Rightarrow> Result" where
  "finalize cfg target blockers = \<lparr>rs_Converged = (blockers = []), rs_Target = target, rs_Blockers = blockers, rs_Excluded = Exclude cfg\<rparr>"

abbreviation fpPinned :: "Config \<Rightarrow> bool" where
  "fpPinned cfg \<equiv> ExpectedActiveSignerFP cfg \<noteq> []"

definition excluded :: "Config \<Rightarrow> string \<Rightarrow> bool" where
  "excluded cfg name = list_ex (\<lambda>ex. ex_EdgeID ex = name) (Exclude cfg)"

definition config_blockers :: "Config \<Rightarrow> Blocker list" where
  "config_blockers cfg =
     map (\<lambda>ex. block ''config'' (ex_EdgeID ex) ''exclude-without-reason'') (filter (\<lambda>ex. ex_Reason ex = []) (Exclude cfg)) @
     (if ExpectedCP cfg \<le> 0 \<or> ExpectedCore cfg \<le> 0 \<or> MinEdges cfg \<le> 0 then [block ''config'' [] ''expected-counts-unset''] else []) @
     (if fpPinned cfg \<and> ExpectedAuthzGen cfg = 0 then [block ''config'' [] ''authz-pin-unset''] else [])"

definition targets :: "CPReplica list \<Rightarrow> string list" where
  "targets cps = remdups (map cp_TargetCAID (filter (\<lambda>c. cp_Up c \<and> cp_TargetCAID c \<noteq> []) cps))"

definition cp_blockers :: "Config \<Rightarrow> string \<Rightarrow> CPReplica \<Rightarrow> Blocker list" where
  "cp_blockers cfg T cp =
     (if \<not> cp_Up cp then [block ''cp'' (cp_Instance cp) ''up-down'']
      else if cp_SignerCAID cp \<noteq> T then [block ''cp'' (cp_Instance cp) ''wrong-ca_id'']
      else
        (if cp_BundleCerts cp \<noteq> 2 then [block ''cp'' (cp_Instance cp) ''not-overlap''] else []) @
        (if \<not> fpPinned cfg then []
         else
           (if cp_ActiveSignerFP cp \<noteq> ExpectedActiveSignerFP cfg then [block ''cp'' (cp_Instance cp) ''cp-not-new-signer''] else []) @
           (if cp_AuthzGen cp \<noteq> ExpectedAuthzGen cfg then [block ''cp'' (cp_Instance cp) ''authz-not-converged''] else []) @
           (if RevokedEdgeID cfg \<noteq> [] \<and> cp_RevokedIssuedUnderNew cp > 0 then [block ''cp'' (cp_Instance cp) ''revoked-issued-under-new''] else [])))"

definition at_target :: "string \<Rightarrow> CPReplica list \<Rightarrow> CPReplica list" where
  "at_target T cps = filter (\<lambda>c. cp_Up c \<and> cp_SignerCAID c = T) cps"

definition cp_plane_blockers :: "Config \<Rightarrow> string \<Rightarrow> CPReplica list \<Rightarrow> Blocker list" where
  "cp_plane_blockers cfg T cps =
     (let ups = at_target T cps in
      concat (map (cp_blockers cfg T) cps) @
      (if length (remdups (map cp_SignerGen ups)) > 1 then [block ''cp'' [] ''generation-split''] else []) @
      (if length (remdups (map cp_AuthzGen ups)) > 1 then [block ''cp'' [] ''authz-split''] else []) @
      (if fpPinned cfg \<and> length (remdups (map cp_ActiveSignerFP ups)) > 1 then [block ''cp'' [] ''cp-signer-split''] else []) @
      (if int (length ups) \<noteq> ExpectedCP cfg then [block ''cp'' [] ''count-mismatch''] else []))"

definition core_blockers :: "string \<Rightarrow> CoreReplica \<Rightarrow> Blocker list" where
  "core_blockers T c =
     (if \<not> co_Up c then [block ''core'' (co_Instance c) ''up-down'']
      else if co_HeldCAID c \<noteq> T then [block ''core'' (co_Instance c) ''wrong-ca_id'']
      else [])"

definition core_plane_blockers :: "Config \<Rightarrow> string \<Rightarrow> CoreReplica list \<Rightarrow> Blocker list" where
  "core_plane_blockers cfg T cores =
     concat (map (core_blockers T) cores) @
     (if int (length (filter (\<lambda>c. co_Up c \<and> co_HeldCAID c = T) cores)) \<noteq> ExpectedCore cfg then [block ''core'' [] ''count-mismatch''] else [])"

text \<open>\<open>byID\<close>: the last report of an edge wins.\<close>

definition byID :: "EdgeReporter list \<Rightarrow> string \<Rightarrow> EdgeReporter option" where
  "byID edges name = find (\<lambda>e. ed_EdgeID e = name) (rev edges)"

definition expected_edge_blockers :: "Config \<Rightarrow> string \<Rightarrow> EdgeReporter list \<Rightarrow> string \<Rightarrow> Blocker list" where
  "expected_edge_blockers cfg T edges name =
     (if excluded cfg name then []
      else case byID edges name of
        None \<Rightarrow> [block ''edge'' name ''never-scraped'']
      | Some e \<Rightarrow>
          if \<not> ed_Up e then [block ''edge'' name ''up-down'']
          else if ed_LiveCAID e \<noteq> T then [block ''edge'' name ''wrong-ca_id'']
          else if ed_ObservedTarget e \<noteq> T then [block ''edge'' name ''target-not-observed'']
          else if \<not> ed_RefreshedInWindow e then [block ''edge'' name ''refresh-stale'']
          else if ed_FailedRemints e then [block ''edge'' name ''remint-churn'']
          else if fpPinned cfg \<and> ed_LiveSignerFP e = [] then [block ''edge'' name ''edge-signer-unresolved'']
          else if fpPinned cfg \<and> ed_LiveSignerFP e \<noteq> ExpectedActiveSignerFP cfg then [block ''edge'' name ''edge-old-signer'']
          else if fpPinned cfg \<and> ed_ObservedSignerFP e \<noteq> ExpectedActiveSignerFP cfg then [block ''edge'' name ''edge-signer-not-observed'']
          else [])"

definition live_old_blockers :: "Config \<Rightarrow> string \<Rightarrow> EdgeReporter \<Rightarrow> Blocker list" where
  "live_old_blockers cfg T e =
     (if excluded cfg (ed_EdgeID e) \<or> RevokedEdgeID cfg \<noteq> [] \<and> ed_EdgeID e = RevokedEdgeID cfg then []
      else
        (if ed_Up e \<and> ed_LiveCAID e \<noteq> [] \<and> ed_LiveCAID e \<noteq> T then [block ''edge'' (ed_EdgeID e) ''live-old-leaf''] else []) @
        (if fpPinned cfg \<and> ed_Up e \<and> ed_LiveSignerFP e \<noteq> [] \<and> ed_LiveSignerFP e \<noteq> ExpectedActiveSignerFP cfg
         then [block ''edge'' (ed_EdgeID e) ''live-old-signer''] else []))"

definition edge_plane_blockers :: "Config \<Rightarrow> string \<Rightarrow> Observations \<Rightarrow> Blocker list" where
  "edge_plane_blockers cfg T obs =
     (if int (length (ob_ExpectedEdges obs)) < MinEdges cfg then [block ''edge'' [] ''edge-count-below-floor''] else []) @
     concat (map (expected_edge_blockers cfg T (ob_Edges obs)) (ob_ExpectedEdges obs)) @
     concat (map (live_old_blockers cfg T) (ob_Edges obs))"

definition probe_blockers :: "Observations \<Rightarrow> Blocker list" where
  "probe_blockers obs =
     (if \<not> ob_RevokedProbeRan obs then [block ''revoked'' [] ''revoked-unverified'']
      else if ob_RevokedProbeStatus obs \<noteq> 401 \<and> ob_RevokedProbeStatus obs \<noteq> 403 then [block ''revoked'' [] ''revoked-leaf-present'']
      else [])"

definition Evaluate :: "Observations \<Rightarrow> Config \<Rightarrow> Result" where
  "Evaluate obs cfg =
     (let cb = config_blockers cfg in
      if ob_CP obs = [] \<and> ob_Core obs = [] \<and> ob_Edges obs = [] \<and> ob_ExpectedEdges obs = []
      then finalize cfg [] (cb @ [block ''config'' [] ''expected-set-empty''])
      else case targets (ob_CP obs) of
        [] \<Rightarrow> finalize cfg [] (cb @ [block ''cp'' [] ''no-target''])
      | T # others \<Rightarrow>
          if others \<noteq> [] then finalize cfg [] (cb @ [block ''cp'' [] ''cp-target-split''])
          else if ExpectedTargetCAID cfg \<noteq> [] \<and> T \<noteq> ExpectedTargetCAID cfg then finalize cfg T (cb @ [block ''cp'' [] ''target-mismatch''])
          else finalize cfg T (cb @ cp_plane_blockers cfg T (ob_CP obs) @ core_plane_blockers cfg T (ob_Core obs) @
                 edge_plane_blockers cfg T obs @ probe_blockers obs))"

subsection \<open>What a converged verdict means\<close>

text \<open>The condition under which dropping OLD is safe, stated over the whole fleet and independently of the order and the
  early exits of the scan.\<close>

definition config_sane :: "Config \<Rightarrow> bool" where
  "config_sane cfg \<longleftrightarrow> (\<forall>ex \<in> set (Exclude cfg). ex_Reason ex \<noteq> []) \<and> 0 < ExpectedCP cfg \<and> 0 < ExpectedCore cfg \<and> 0 < MinEdges cfg \<and>
     (fpPinned cfg \<longrightarrow> ExpectedAuthzGen cfg \<noteq> 0)"

definition cp_converged :: "Config \<Rightarrow> string \<Rightarrow> CPReplica list \<Rightarrow> bool" where
  "cp_converged cfg T cps \<longleftrightarrow>
     (\<forall>c \<in> set cps. cp_Up c \<and> cp_SignerCAID c = T \<and> cp_TargetCAID c \<in> {[], T} \<and> cp_BundleCerts c = 2 \<and>
        (fpPinned cfg \<longrightarrow> cp_ActiveSignerFP c = ExpectedActiveSignerFP cfg \<and> cp_AuthzGen c = ExpectedAuthzGen cfg \<and>
           (RevokedEdgeID cfg \<noteq> [] \<longrightarrow> cp_RevokedIssuedUnderNew c \<le> 0))) \<and>
     (\<forall>c \<in> set cps. \<forall>d \<in> set cps. cp_SignerGen c = cp_SignerGen d \<and> cp_AuthzGen c = cp_AuthzGen d) \<and>
     (\<exists>c \<in> set cps. cp_TargetCAID c = T) \<and> int (length cps) = ExpectedCP cfg"

definition core_converged :: "Config \<Rightarrow> string \<Rightarrow> CoreReplica list \<Rightarrow> bool" where
  "core_converged cfg T cores \<longleftrightarrow> (\<forall>c \<in> set cores. co_Up c \<and> co_HeldCAID c = T) \<and> int (length cores) = ExpectedCore cfg"

definition edge_ready :: "Config \<Rightarrow> string \<Rightarrow> EdgeReporter \<Rightarrow> bool" where
  "edge_ready cfg T e \<longleftrightarrow> ed_Up e \<and> ed_LiveCAID e = T \<and> ed_ObservedTarget e = T \<and> ed_RefreshedInWindow e \<and> \<not> ed_FailedRemints e \<and>
     (fpPinned cfg \<longrightarrow> ed_LiveSignerFP e = ExpectedActiveSignerFP cfg \<and> ed_ObservedSignerFP e = ExpectedActiveSignerFP cfg)"

definition edges_converged :: "Config \<Rightarrow> string \<Rightarrow> Observations \<Rightarrow> bool" where
  "edges_converged cfg T obs \<longleftrightarrow> MinEdges cfg \<le> int (length (ob_ExpectedEdges obs)) \<and>
     (\<forall>name \<in> set (ob_ExpectedEdges obs). \<not> excluded cfg name \<longrightarrow> (\<exists>e. byID (ob_Edges obs) name = Some e \<and> edge_ready cfg T e)) \<and>
     (\<forall>e \<in> set (ob_Edges obs). ed_Up e \<and> \<not> excluded cfg (ed_EdgeID e) \<and> (RevokedEdgeID cfg = [] \<or> ed_EdgeID e \<noteq> RevokedEdgeID cfg) \<longrightarrow>
        ed_LiveCAID e \<in> {[], T} \<and> (fpPinned cfg \<longrightarrow> ed_LiveSignerFP e \<in> {[], ExpectedActiveSignerFP cfg}))"

definition safe_to_drop :: "Observations \<Rightarrow> Config \<Rightarrow> bool" where
  "safe_to_drop obs cfg \<longleftrightarrow> config_sane cfg \<and>
     (\<exists>T. T \<noteq> [] \<and> (ExpectedTargetCAID cfg = [] \<or> T = ExpectedTargetCAID cfg) \<and>
        cp_converged cfg T (ob_CP obs) \<and> core_converged cfg T (ob_Core obs) \<and> edges_converged cfg T obs) \<and>
     ob_RevokedProbeRan obs \<and> (ob_RevokedProbeStatus obs = 401 \<or> ob_RevokedProbeStatus obs = 403)"

lemma config_blockers_empty: "config_blockers cfg = [] \<longleftrightarrow> config_sane cfg"
  by (auto simp: config_blockers_def config_sane_def filter_empty_conv not_le split: if_splits)

lemma distinct_le_one: "length (remdups xs) > 1 \<longleftrightarrow> (\<exists>x \<in> set xs. \<exists>y \<in> set xs. x \<noteq> y)"
proof -
  have "length (remdups xs) = card (set xs)" by (rule length_remdups_card_conv)
  then show ?thesis
    by (metis (no_types, lifting) One_nat_def card_le_Suc0_iff_eq finite_set not_less)
qed

lemma all_equal_iff: "length (remdups (map f xs)) > 1 \<longleftrightarrow> \<not> (\<forall>x \<in> set xs. \<forall>y \<in> set xs. f x = f y)"
  by (simp add: distinct_le_one del: One_nat_def)

lemma concat_map_empty: "concat (map f xs) = [] \<longleftrightarrow> (\<forall>x \<in> set xs. f x = [])"
  by auto

lemma cp_blockers_empty:
  "cp_blockers cfg T c = [] \<longleftrightarrow> cp_Up c \<and> cp_SignerCAID c = T \<and> cp_BundleCerts c = 2 \<and>
     (fpPinned cfg \<longrightarrow> cp_ActiveSignerFP c = ExpectedActiveSignerFP cfg \<and> cp_AuthzGen c = ExpectedAuthzGen cfg \<and>
        (RevokedEdgeID cfg \<noteq> [] \<longrightarrow> cp_RevokedIssuedUnderNew c \<le> 0))"
  by (auto simp: cp_blockers_def not_less)

lemma targets_single:
  "targets cps = [T] \<longleftrightarrow> T \<noteq> [] \<and> (\<exists>c \<in> set cps. cp_Up c \<and> cp_TargetCAID c = T) \<and>
     (\<forall>c \<in> set cps. cp_Up c \<longrightarrow> cp_TargetCAID c \<in> {[], T})"
proof -
  have "targets cps = [T] \<longleftrightarrow> set (targets cps) = {T}"
  proof
    assume "set (targets cps) = {T}"
    moreover have "distinct (targets cps)" by (simp add: targets_def)
    ultimately have "length (targets cps) = 1" by (metis One_nat_def card.empty card_insert_disjoint distinct_card empty_iff finite.emptyI)
    then obtain x where "targets cps = [x]" by (cases "targets cps") auto
    then show "targets cps = [T]" using \<open>set (targets cps) = {T}\<close> by simp
  qed simp
  also have "set (targets cps) = {T} \<longleftrightarrow> T \<noteq> [] \<and> (\<exists>c \<in> set cps. cp_Up c \<and> cp_TargetCAID c = T) \<and>
      (\<forall>c \<in> set cps. cp_Up c \<longrightarrow> cp_TargetCAID c \<in> {[], T})"
    by (auto simp: targets_def) (metis (mono_tags, lifting) imageE insertI1 mem_Collect_eq)
  finally show ?thesis .
qed

lemma cp_plane_empty:
  assumes "targets cps = [T]"
  shows "cp_plane_blockers cfg T cps = [] \<longleftrightarrow> cp_converged cfg T cps"
proof (cases "\<forall>c \<in> set cps. cp_blockers cfg T c = []")
  case True
  then have up: "\<forall>c \<in> set cps. cp_Up c \<and> cp_SignerCAID c = T" by (simp add: cp_blockers_empty)
  then have ups: "at_target T cps = cps" by (simp add: at_target_def)
  have fps: "fpPinned cfg \<Longrightarrow> \<forall>c \<in> set cps. \<forall>d \<in> set cps. cp_ActiveSignerFP c = cp_ActiveSignerFP d"
    using True by (simp add: cp_blockers_empty)
  from True have none: "concat (map (cp_blockers cfg T) cps) = []" by (simp only: concat_map_empty)
  have split: "cp_plane_blockers cfg T cps = [] \<longleftrightarrow> \<not> length (remdups (map cp_SignerGen cps)) > 1 \<and> \<not> length (remdups (map cp_AuthzGen cps)) > 1 \<and>
      \<not> (fpPinned cfg \<and> length (remdups (map cp_ActiveSignerFP cps)) > 1) \<and> int (length cps) = ExpectedCP cfg"
    unfolding cp_plane_blockers_def Let_def ups none by (simp del: One_nat_def)
  have "cp_plane_blockers cfg T cps = [] \<longleftrightarrow>
      (\<forall>c \<in> set cps. \<forall>d \<in> set cps. cp_SignerGen c = cp_SignerGen d) \<and> (\<forall>c \<in> set cps. \<forall>d \<in> set cps. cp_AuthzGen c = cp_AuthzGen d) \<and>
      int (length cps) = ExpectedCP cfg"
    using fps unfolding split all_equal_iff by blast
  then show ?thesis using True assms up unfolding targets_single cp_converged_def cp_blockers_empty by blast
next
  case False
  then have "cp_plane_blockers cfg T cps \<noteq> []" unfolding cp_plane_blockers_def Let_def by auto
  moreover have "\<not> cp_converged cfg T cps" using False unfolding cp_converged_def cp_blockers_empty by blast
  ultimately show ?thesis by simp
qed


lemma core_plane_empty: "core_plane_blockers cfg T cores = [] \<longleftrightarrow> core_converged cfg T cores"
proof (cases "\<forall>c \<in> set cores. co_Up c \<and> co_HeldCAID c = T")
  case True
  then have "filter (\<lambda>c. co_Up c \<and> co_HeldCAID c = T) cores = cores" by simp
  then show ?thesis using True by (simp add: core_plane_blockers_def core_blockers_def core_converged_def)
next
  case False
  then have "\<exists>c \<in> set cores. core_blockers T c \<noteq> []" by (auto simp: core_blockers_def)
  then show ?thesis using False by (auto simp: core_plane_blockers_def core_converged_def)
qed

lemma expected_edge_empty:
  "expected_edge_blockers cfg T edges name = [] \<longleftrightarrow> (\<not> excluded cfg name \<longrightarrow> (\<exists>e. byID edges name = Some e \<and> edge_ready cfg T e))"
  by (cases "byID edges name") (auto simp: expected_edge_blockers_def edge_ready_def)

lemma live_old_empty:
  "live_old_blockers cfg T e = [] \<longleftrightarrow>
     (ed_Up e \<and> \<not> excluded cfg (ed_EdgeID e) \<and> (RevokedEdgeID cfg = [] \<or> ed_EdgeID e \<noteq> RevokedEdgeID cfg) \<longrightarrow>
        ed_LiveCAID e \<in> {[], T} \<and> (fpPinned cfg \<longrightarrow> ed_LiveSignerFP e \<in> {[], ExpectedActiveSignerFP cfg}))"
  by (auto simp: live_old_blockers_def)

lemma edge_plane_empty: "edge_plane_blockers cfg T obs = [] \<longleftrightarrow> edges_converged cfg T obs"
  unfolding edge_plane_blockers_def edges_converged_def append_is_Nil_conv concat_map_empty expected_edge_empty live_old_empty
  by (simp add: not_less)

lemma probe_empty: "probe_blockers obs = [] \<longleftrightarrow> ob_RevokedProbeRan obs \<and> (ob_RevokedProbeStatus obs = 401 \<or> ob_RevokedProbeStatus obs = 403)"
  by (simp add: probe_blockers_def)

lemma finalize_simps [simp]:
  "rs_Converged (finalize cfg T bs) \<longleftrightarrow> bs = []" "rs_Target (finalize cfg T bs) = T"
  by (simp_all add: finalize_def)

lemma cp_converged_targets: "cp_converged cfg T cps \<Longrightarrow> T \<noteq> [] \<Longrightarrow> targets cps = [T]"
  unfolding targets_single cp_converged_def by blast

lemma Evaluate_converged:
  "rs_Converged (Evaluate obs cfg) \<longleftrightarrow>
     (\<exists>T. targets (ob_CP obs) = [T] \<and> (ExpectedTargetCAID cfg = [] \<or> T = ExpectedTargetCAID cfg) \<and> config_sane cfg \<and>
        cp_converged cfg T (ob_CP obs) \<and> core_converged cfg T (ob_Core obs) \<and> edges_converged cfg T obs \<and> probe_blockers obs = [])"
proof (cases "targets (ob_CP obs)")
  case Nil
  then show ?thesis by (simp add: Evaluate_def Let_def)
next
  case (Cons T others)
  then have ne: "ob_CP obs \<noteq> []" by (auto simp: targets_def)
  show ?thesis
  proof (cases "others = [] \<and> (ExpectedTargetCAID cfg = [] \<or> T = ExpectedTargetCAID cfg)")
    case True
    then have t: "targets (ob_CP obs) = [T]" using Cons by simp
    have "rs_Converged (Evaluate obs cfg) \<longleftrightarrow> config_blockers cfg = [] \<and> cp_plane_blockers cfg T (ob_CP obs) = [] \<and>
        core_plane_blockers cfg T (ob_Core obs) = [] \<and> edge_plane_blockers cfg T obs = [] \<and> probe_blockers obs = []"
      using True ne by (auto simp: Evaluate_def Let_def t)
    then show ?thesis using True t
      by (simp add: config_blockers_empty cp_plane_empty [OF t] core_plane_empty edge_plane_empty)
  next
    case False
    then show ?thesis using Cons ne by (auto simp: Evaluate_def Let_def)
  qed
qed

lemma converged_safe: "rs_Converged (Evaluate obs cfg) \<longleftrightarrow> safe_to_drop obs cfg"
proof
  assume "rs_Converged (Evaluate obs cfg)"
  then obtain T where t: "targets (ob_CP obs) = [T]" "ExpectedTargetCAID cfg = [] \<or> T = ExpectedTargetCAID cfg" "config_sane cfg"
      "cp_converged cfg T (ob_CP obs)" "core_converged cfg T (ob_Core obs)" "edges_converged cfg T obs" "probe_blockers obs = []"
    unfolding Evaluate_converged by blast
  from t(1) have "T \<noteq> []" unfolding targets_single by blast
  then show "safe_to_drop obs cfg" using t unfolding safe_to_drop_def probe_empty by blast
next
  assume "safe_to_drop obs cfg"
  then obtain T where "T \<noteq> []" "ExpectedTargetCAID cfg = [] \<or> T = ExpectedTargetCAID cfg" "config_sane cfg" "cp_converged cfg T (ob_CP obs)"
      "core_converged cfg T (ob_Core obs)" "edges_converged cfg T obs" "probe_blockers obs = []"
    unfolding safe_to_drop_def probe_empty by blast
  then show "rs_Converged (Evaluate obs cfg)" unfolding Evaluate_converged using cp_converged_targets by blast
qed


text \<open>C3. The gate is exactly the safety condition: a verdict is converged if and only if the configuration is sane, every
  control-plane replica, core and expected edge has reached one target with no reporter missing, down, stale or on old material,
  and the probe of the revoked token was rejected. Nothing missing counts as converged.\<close>
theorem Evaluate_iff_safe: 
  "rs_Converged (Evaluate obs cfg) = safe_to_drop obs cfg \<and> (rs_Converged (Evaluate obs cfg) \<longleftrightarrow> rs_Blockers (Evaluate obs cfg) = [])"
  by (simp add: converged_safe [symmetric]) (simp add: Evaluate_def finalize_def Let_def split: list.split)

subsection \<open>The gate and the trim together\<close>

text \<open>C14. The drop severs nobody it should not: when the drop checkpoint converged with the fingerprint of NEW pinned, and the
  trim with that pin writes the Secret, then the only certificate left is the one that signed the live leaf of every
  expected edge that is not waived, and every other edge seen up (not waived, not the revoked one) with a known signer is signed by it too.\<close>
theorem drop_keeps_every_good_edge:
  assumes "pki_ok P" and "ca_ok P s" and "tool_write P (ToolTrim newFP) g now s = Some s'"
    and "rs_Converged (Evaluate obs cfg)" and "ExpectedActiveSignerFP cfg = newFP"
  shows "(\<forall>name \<in> set (ob_ExpectedEdges obs). \<not> excluded cfg name \<longrightarrow>
      (\<exists>e. byID (ob_Edges obs) name = Some e \<and> ed_Up e \<and> certBundleFPs P (tls_crt s') = [ed_LiveSignerFP e])) \<and>
    (\<forall>e \<in> set (ob_Edges obs). ed_Up e \<and> ed_LiveSignerFP e \<noteq> [] \<and> \<not> excluded cfg (ed_EdgeID e) \<and> ed_EdgeID e \<noteq> RevokedEdgeID cfg \<longrightarrow>
      certBundleFPs P (tls_crt s') = [ed_LiveSignerFP e])"
proof -
  have fp: "newFP \<noteq> []" "plan_write (trim_plan P newFP s) = Some s'" using assms(3) by (auto simp: tool_write_def split: if_splits)
  then have kept: "certBundleFPs P (tls_crt s') = [newFP]" using trim_write_change [OF assms(1,2)] by blast
  have pinned: "fpPinned cfg" using fp(1) assms(5) by simp
  from assms(4) obtain T where e: "edges_converged cfg T obs" unfolding Evaluate_converged by blast
  show ?thesis
  proof (intro conjI ballI impI)
    fix name
    assume "name \<in> set (ob_ExpectedEdges obs)" "\<not> excluded cfg name"
    then obtain e where "byID (ob_Edges obs) name = Some e" "edge_ready cfg T e" using e unfolding edges_converged_def by blast
    then show "\<exists>e. byID (ob_Edges obs) name = Some e \<and> ed_Up e \<and> certBundleFPs P (tls_crt s') = [ed_LiveSignerFP e]"
      using pinned assms(5) kept by (simp add: edge_ready_def)
  next
    fix r
    assume r: "r \<in> set (ob_Edges obs)"
      and up: "ed_Up r \<and> ed_LiveSignerFP r \<noteq> [] \<and> \<not> excluded cfg (ed_EdgeID r) \<and> ed_EdgeID r \<noteq> RevokedEdgeID cfg"
    have "ed_LiveSignerFP r \<in> {[], ExpectedActiveSignerFP cfg}" using e r up pinned unfolding edges_converged_def by blast
    then show "certBundleFPs P (tls_crt s') = [ed_LiveSignerFP r]" using up kept assms(5) by simp
  qed
qed

subsection \<open>The revoke tool\<close>

text \<open>\<open>readStable\<close>: one entry per read, \<^const>\<open>None\<close> when the query fails; the probe is already stamped on the observations.\<close>

definition query_failed :: Result where
  "query_failed = \<lparr>rs_Converged = False, rs_Target = [], rs_Blockers = [block ''config'' [] ''prometheus-query-failed''], rs_Excluded = []\<rparr>"

definition no_result :: Result where
  "no_result = \<lparr>rs_Converged = False, rs_Target = [], rs_Blockers = [], rs_Excluded = []\<rparr>"

fun read_loop :: "Config \<Rightarrow> Observations option list \<Rightarrow> Result \<Rightarrow> Result" where
  "read_loop cfg [] res = res"
| "read_loop cfg (None # _) res = query_failed"
| "read_loop cfg (Some obs # rest) res = (let r = Evaluate obs cfg in if \<not> rs_Converged r then r else read_loop cfg rest r)"

definition readStable :: "Config \<Rightarrow> nat \<Rightarrow> (nat \<Rightarrow> Observations option) \<Rightarrow> Result" where
  "readStable cfg stableReads obs_at = read_loop cfg (map obs_at [0..<stableReads]) no_result"

text \<open>\<open>pollUntilConverged\<close> over the passes it makes: what each pass reads and the time since the start when it ends.
  \<^const>\<open>None\<close>: still waiting when the passes run out.\<close>

fun pollUntilConverged :: "Config \<Rightarrow> nat \<Rightarrow> duration \<Rightarrow> ((nat \<Rightarrow> Observations option) \<times> duration) list \<Rightarrow> bool option" where
  "pollUntilConverged cfg stableReads deadline [] = None"
| "pollUntilConverged cfg stableReads deadline ((obs_at, elapsed) # passes) =
     (if rs_Converged (readStable cfg stableReads obs_at) then Some True
      else if elapsed \<ge> deadline then Some False
      else pollUntilConverged cfg stableReads deadline passes)"

definition cadenceWindow :: "duration \<Rightarrow> int \<Rightarrow> duration" where
  "cadenceWindow poll n = poll * (n - 1)"

definition checkCadence :: "duration \<Rightarrow> duration \<Rightarrow> duration \<Rightarrow> bool" where
  "checkCadence window scrape refresh \<longleftrightarrow> \<not> window < 2 * scrape \<and> \<not> window < refresh"

text \<open>The registry as the list of its entries, in the order the map is visited.\<close>

fun idDisabled :: "Entry list \<Rightarrow> string \<Rightarrow> bool" where
  "idDisabled [] edgeID = False"
| "idDisabled (e # es) edgeID = (if to_lower (trim_space (ID e)) = edgeID then Disabled e else idDisabled es edgeID)"

definition registryFingerprint :: "('c, 'k) pki \<Rightarrow> string list \<Rightarrow> rat" where
  "registryFingerprint P lines =
     of_int (foldl (\<lambda>n c. 256 * n + of_char c) (0 :: int) (take 6 (sha256 P (join_by (CHR '';'') (sort lines)))))"

definition AuthzGeneration :: "('c, 'k) pki \<Rightarrow> Entry list \<Rightarrow> rat" where
  "AuthzGeneration P entries =
     registryFingerprint P (map (\<lambda>e. ID e @ '':'' @ (if Disabled e then ''1'' else ''0'')) (filter (\<lambda>e. ID e \<noteq> []) entries))"

text \<open>The run of the tool after its settings were read: \<open>base\<close> are the expectations, the environment gives the outcomes of
  the API calls and of the polls. The result is the exit status (\<^const>\<open>None\<close> while it waits) and the Secrets it wrote.\<close>

record revoke_env =
  re_rotate :: "nat \<Rightarrow> attempt_env"
  re_gateA :: "((nat \<Rightarrow> Observations option) \<times> duration) list"
  re_flip :: "nat \<Rightarrow> attempt_env"
  re_gateB :: "((nat \<Rightarrow> Observations option) \<times> duration) list"
  re_trim :: "nat \<Rightarrow> attempt_env"

definition gateA :: "Config \<Rightarrow> string \<Rightarrow> string \<Rightarrow> Config" where
  "gateA base revokedID targetCAID = base\<lparr>ExpectedTargetCAID := targetCAID, RevokedEdgeID := revokedID\<rparr>"

definition gateB :: "Config \<Rightarrow> string \<Rightarrow> string \<Rightarrow> string \<Rightarrow> rat \<Rightarrow> Config" where
  "gateB base revokedID targetCAID newFP authzGen =
     base\<lparr>ExpectedTargetCAID := targetCAID, ExpectedActiveSignerFP := newFP, ExpectedAuthzGen := authzGen, RevokedEdgeID := revokedID\<rparr>"

definition runRevoke ::
  "('c, 'k) pki \<Rightarrow> Config \<Rightarrow> string \<Rightarrow> Entry list \<Rightarrow> nat \<Rightarrow> duration \<Rightarrow> duration \<Rightarrow> duration \<Rightarrow> duration \<Rightarrow> revoke_env
    \<Rightarrow> int option \<times> CASecret list" where
  "runRevoke P base revokedID tokens stableReads poll scrape refresh deadline env =
     (if revokedID = [] then (Some 1, [])
      else if stableReads < 2 then (Some 1, [])
      else if \<not> checkCadence (cadenceWindow poll (int stableReads)) scrape refresh then (Some 1, [])
      else if \<not> idDisabled tokens revokedID then (Some 1, [])
      else case RotateCA P (re_rotate env) of
        (Inl _, w1) \<Rightarrow> (Some 1, w1)
      | (Inr pem, w1) \<Rightarrow>
          (case lastCertFP P pem of
             None \<Rightarrow> (Some 1, w1)
           | Some newFP \<Rightarrow>
               (case FromPEM P pem of
                  None \<Rightarrow> (Some 1, w1)
                | Some target \<Rightarrow>
                    (case pollUntilConverged (gateA base revokedID target) stableReads deadline (re_gateA env) of
                       None \<Rightarrow> (None, w1)
                     | Some False \<Rightarrow> (Some 1, w1)
                     | Some True \<Rightarrow>
                         (case SetActiveNew P newFP (re_flip env) of
                            (Inl _, w2) \<Rightarrow> (Some 1, w1 @ w2)
                          | (Inr _, w2) \<Rightarrow>
                              (case pollUntilConverged (gateB base revokedID target newFP (AuthzGeneration P tokens)) stableReads deadline (re_gateB env) of
                                 None \<Rightarrow> (None, w1 @ w2)
                               | Some False \<Rightarrow> (Some 1, w1 @ w2)
                               | Some True \<Rightarrow>
                                   (case TrimCA P newFP (re_trim env) of
                                      (Inl _, w3) \<Rightarrow> (Some 1, w1 @ w2 @ w3)
                                    | (Inr _, w3) \<Rightarrow> (Some 0, w1 @ w2 @ w3))))))))"


lemma read_loop_all: "rs_Converged (read_loop cfg obs_list res) \<Longrightarrow> \<forall>x \<in> set obs_list. \<exists>obs. x = Some obs \<and> rs_Converged (Evaluate obs cfg)"
  by (induction cfg obs_list res rule: read_loop.induct) (auto simp: query_failed_def Let_def split: if_splits)

lemma poll_converged:
  "pollUntilConverged cfg n deadline passes = Some True \<Longrightarrow>
   \<exists>obs_at elapsed. (obs_at, elapsed) \<in> set passes \<and> (\<forall>i<n. \<exists>obs. obs_at i = Some obs \<and> rs_Converged (Evaluate obs cfg))"
proof (induction cfg n deadline passes rule: pollUntilConverged.induct)
  case (2 cfg n deadline obs_at elapsed passes)
  show ?case
  proof (cases "rs_Converged (readStable cfg n obs_at)")
    case True
    then have "\<forall>i<n. \<exists>obs. obs_at i = Some obs \<and> rs_Converged (Evaluate obs cfg)"
      using read_loop_all unfolding readStable_def by fastforce
    then show ?thesis by auto
  next
    case False
    then show ?thesis using 2 by (fastforce split: if_splits)
  qed
qed simp

lemma RotateCA_phase: "s' \<in> set (snd (RotateCA P env)) \<Longrightarrow> an_phase s' = caPhaseOverlap"
  unfolding RotateCA_def
  by (drule cas_loop_writes) (auto simp: rotate_plan_def Let_def generated_pem_def split: if_splits option.splits prod.splits)

lemma SetActiveNew_phase: "s' \<in> set (snd (SetActiveNew P fp env)) \<Longrightarrow> an_phase s' = caPhaseOverlap"
  unfolding SetActiveNew_def by (drule cas_loop_writes) (auto simp: flip_plan_def Let_def split: if_splits option.splits)

lemma TrimCA_keeps:
  assumes "pki_ok P" and "s' \<in> set (snd (TrimCA P fp env))"
  shows "certBundleFPs P (tls_crt s') = [fp]"
proof -
  obtain sec r where w: "trim_plan P fp sec = Write s' r"
    using assms(2) cas_loop_writes unfolding TrimCA_def by (fastforce split: if_splits)
  then have l: "last (certBundleFPs P (tls_crt sec)) = fp" "length (ders P (tls_crt sec)) = 2" "tls_crt s' = last (map (cert_pem P) (ders P (tls_crt sec)))"
    unfolding trim_plan_def splitCertBundle_eq by (auto simp: Let_def split: if_splits option.splits)
  then have ne: "ders P (tls_crt sec) \<noteq> []" by auto
  then have "tls_crt s' = cert_pem P (last (ders P (tls_crt sec)))" "cert_fp P (last (ders P (tls_crt sec))) = fp"
    using l by (simp_all add: certBundleFPs_def last_map)
  then show ?thesis by (simp add: certBundleFPs_def ders_one [OF assms(1)])
qed

lemma runRevoke_trim:
  assumes "s' \<in> set (snd (runRevoke P base revokedID tokens n poll scrape refresh deadline env))" and "an_phase s' = caPhaseTrimmed"
  shows "2 \<le> n \<and> idDisabled tokens revokedID \<and> (\<exists>newFP target. s' \<in> set (snd (TrimCA P newFP (re_trim env))) \<and>
    pollUntilConverged (gateA base revokedID target) n deadline (re_gateA env) = Some True \<and>
    pollUntilConverged (gateB base revokedID target newFP (AuthzGeneration P tokens)) n deadline (re_gateB env) = Some True)"
proof -
  have r: "s' \<notin> set (snd (RotateCA P e))" and f: "s' \<notin> set (snd (SetActiveNew P fp e))" for e fp
    using RotateCA_phase SetActiveNew_phase assms(2) by force+
  show ?thesis using assms(1) r [of "re_rotate env"] f [of _ "re_flip env"] unfolding runRevoke_def
    by (auto split: if_splits prod.splits sum.splits option.splits bool.splits) (metis snd_conv)+
qed




subsection \<open>Two weak spots\<close>

text \<open>The generation is not the same on every replica: after a write to the CA Secret that changes neither bundle nor
  signing key (a label, say), a running replica keeps the old resource version as its generation and a restarted one serves the new
  one, for the same signer. A fleet that reports both never converges.\<close>
theorem restarted_replica_splits_generation:
  assumes "signer_candidate P ttl skew s = Some (Inr cand)" and "tls_crt s \<noteq> []" and "v1 < v2" and "v2 < 2 ^ 64"
    and "c \<in> set (ob_CP obs)" and "d \<in> set (ob_CP obs)" and "signer_caID cand \<noteq> []"
    and "running = signer_reload P name ttl skew (Some [(name, nat_digits v2, s)]) (signer_reload P name ttl skew (Some [(name, nat_digits v1, s)]) None)"
    and "restarted = signer_reload P name ttl skew (Some [(name, nat_digits v2, s)]) None"
    and "map_option sg_gen running = Some (cp_SignerGen c)" and "map_option sg_gen restarted = Some (cp_SignerGen d)"
  shows "currentSignerKey running = currentSignerKey restarted \<and> cp_SignerGen c = v1 \<and> cp_SignerGen d = v2 \<and> \<not> rs_Converged (Evaluate obs cfg)"
proof -
  have first: "signer_reload P name ttl skew (Some [(name, nat_digits v, s)]) None = Some \<lparr>sg_signer = cand, sg_gen = v\<rparr>" if "v < 2 ^ 64" for v
    using that assms(1,2,7) by (simp add: signer_reload_def rvToU64_nat_digits SetSigner_def currentSignerKey_def)
  have v1: "v1 < 2 ^ 64" using assms(3,4) by simp
  have again: "running = Some \<lparr>sg_signer = cand, sg_gen = v1\<rparr>"
    unfolding assms(8) first [OF v1] using assms(1,2,4) by (simp add: signer_reload_def rvToU64_nat_digits currentSignerKey_def)
  have fresh: "restarted = Some \<lparr>sg_signer = cand, sg_gen = v2\<rparr>" unfolding assms(9) by (rule first [OF assms(4)])
  have g: "cp_SignerGen c = v1" "cp_SignerGen d = v2" using assms(10,11) by (simp_all add: again fresh)
  then have "\<not> cp_converged cfg T (ob_CP obs)" for T using assms(3,5,6) unfolding cp_converged_def by (metis less_irrefl)
  then have "\<not> rs_Converged (Evaluate obs cfg)" unfolding Evaluate_converged by blast
  then show ?thesis using g by (simp add: again fresh currentSignerKey_def)
qed

text \<open>A repeated revoke run does not stop at the trimmed Secret: on what the trim wrote, the first step of another run
  plans a further rotation instead of finding its work done.\<close>
theorem rerun_after_trim_rotates_again:
  assumes "pki_ok P" and "ca_ok P s" and "tool_write P (ToolTrim fp) g0 now0 s = Some s'"
    and "generates P (cert_blocks (pem_blocks P (tls_crt s'))) (Some g)"
  shows "\<exists>s''. tool_write P ToolRotate (Some g) now s' = Some s'' \<and> certBundleFPs P (tls_crt s'') = [fp, cert_fp P (fst g)]"
proof -
  have "plan_write (trim_plan P fp s) = Some s'" using assms(3) by (auto simp: tool_write_def split: if_splits)
  from trim_write_change [OF assms(1,2) this] have c: "ca_change P s s'" "certBundleFPs P (tls_crt s') = [fp]" by auto
  then obtain d where d: "ders P (tls_crt s') = [d]" "cert_fp P d = fp" by (auto simp: certBundleFPs_def)
  have single: "ca_single P d s'" using ca_change_ok [OF c(1)] d(1)
    by (auto simp: ca_ok_def ca_virgin_def ca_single_def ca_overlap_def pem_blocks_Nil [OF assms(1)])
  obtain x y where p: "ParseCertificate P d = Some x" "ParseCertificate P (fst g) = Some y"
    using single assms(4) key_for_parses unfolding ca_single_def generates_def by fastforce
  have two: "ders P (cert_pem P d @ cert_pem P (fst g)) = [d, fst g]"
    using ders_cert_pem [OF assms(1), of d "cert_pem P (fst g)"] ders_one [OF assms(1), of "fst g"] by simp
  have old: "reencodeCertBundle P (tls_crt s') = Some (cert_pem P d, 1)" by (simp add: reencodeCertBundle_eq d(1) p)
  have new: "reencodeCertBundle P (cert_pem P d @ cert_pem P (fst g)) = Some (cert_pem P d @ cert_pem P (fst g), 2)"
    by (simp add: reencodeCertBundle_eq two p)
  have cid: "\<exists>cid. caBundleID P (cert_pem P d @ cert_pem P (fst g)) = Some cid"
    by (simp add: caBundleID_def FromPEM_def two FromDER_def Let_def)
  have valid: "validCAKeypair P (tls_crt s') (tls_key s')" "an_phase s' \<noteq> caPhaseOverlap" using single by (simp_all add: ca_single_def)
  show ?thesis
    using cid valid by (auto simp: tool_write_def plan_write_def rotate_plan_def generated_pem_def old new certBundleFPs_def two d(2) Let_def)
qed


subsection \<open>Witnesses\<close>

definition demo_tokens :: "Entry list" where
  "demo_tokens = [Entry.make ''bad'' [] True, Entry.make ''e1'' [] False]"

definition demo_base :: Config where
  "demo_base = \<lparr>ExpectedCP = 1, ExpectedCore = 1, MinEdges = 1, Exclude = [], ExpectedTargetCAID = [], ExpectedActiveSignerFP = [],
     ExpectedAuthzGen = 0, RevokedEdgeID = []\<rparr>"

text \<open>A fleet of one replica, one core, a good edge and the revoked one, the latter still on OLD, at the drop checkpoint.\<close>

definition demo_obs :: Observations where
  "demo_obs =
     \<lparr>ob_CP = [\<lparr>cp_Instance = ''c'', cp_Up = True, cp_TargetCAID = ''343100343200'', cp_SignerCAID = ''343100343200'', cp_SignerGen = 4,
        cp_BundleCerts = 2, cp_AuthzGen = AuthzGeneration demo_pki demo_tokens, cp_ActiveSignerFP = ''42'', cp_RevokedIssuedUnderNew = 0\<rparr>],
      ob_Core = [\<lparr>co_Instance = ''k'', co_Up = True, co_HeldCAID = ''343100343200''\<rparr>],
      ob_Edges = [\<lparr>ed_EdgeID = ''e1'', ed_Up = True, ed_LiveCAID = ''343100343200'', ed_ObservedTarget = ''343100343200'', ed_RefreshedInWindow = True,
        ed_FailedRemints = False, ed_LiveSignerFP = ''42'', ed_ObservedSignerFP = ''42''\<rparr>,
       \<lparr>ed_EdgeID = ''bad'', ed_Up = True, ed_LiveCAID = ''343100'', ed_ObservedTarget = [], ed_RefreshedInWindow = False,
        ed_FailedRemints = True, ed_LiveSignerFP = ''41'', ed_ObservedSignerFP = []\<rparr>],
      ob_ExpectedEdges = [''e1''], ob_RevokedProbeRan = True, ob_RevokedProbeStatus = 401\<rparr>"

definition demo_gate :: Config where
  "demo_gate = gateB demo_base ''bad'' ''343100343200'' ''42'' (AuthzGeneration demo_pki demo_tokens)"

definition demo_trimmed :: CASecret where
  "demo_trimmed = \<lparr>tls_crt = ''C,.B;'', tls_key = ''K,.B;'', tls_new_key = [], an_generation = Some ''343200'', an_phase = caPhaseTrimmed,
     an_active = caActiveOld, an_started = []\<rparr>"

lemma demo_authz: "AuthzGeneration demo_pki demo_tokens \<noteq> 0"
  by code_simp

lemma demo_converged: "rs_Converged (Evaluate demo_obs demo_gate)"
  by code_simp

lemma demo_trim: "tool_write demo_pki (ToolTrim ''42'') None 0 (demo_overlap caActiveNew) = Some demo_trimmed"
  by code_simp

lemma demo_overlap_ok: "ca_ok demo_pki (demo_overlap caActiveNew)"
proof -
  have "version_chain demo_pki (versions demo_world)" using ca_reach_inv [OF demo_pki_ok demo_world_reach] by (simp add: world_inv_def)
  then show ?thesis by (rule version_chain_ok [of _ _ 4]) (simp add: demo_versions)
qed

theorem drop_keeps_every_good_edge_witness:
  "certBundleFPs demo_pki (tls_crt demo_trimmed) = [''42''] \<and>
   (\<exists>e. byID (ob_Edges demo_obs) ''e1'' = Some e \<and> ed_Up e \<and> certBundleFPs demo_pki (tls_crt demo_trimmed) = [ed_LiveSignerFP e])"
proof
  have "ExpectedActiveSignerFP demo_gate = ''42''" "''e1'' \<in> set (ob_ExpectedEdges demo_obs)" "\<not> excluded demo_gate ''e1''"
    by (simp_all add: demo_gate_def gateB_def demo_obs_def excluded_def demo_base_def)
  then show "\<exists>e. byID (ob_Edges demo_obs) ''e1'' = Some e \<and> ed_Up e \<and> certBundleFPs demo_pki (tls_crt demo_trimmed) = [ed_LiveSignerFP e]"
    using drop_keeps_every_good_edge [OF demo_pki_ok demo_overlap_ok demo_trim demo_converged] by blast
qed code_simp

definition demo_attempt :: "CASecret \<Rightarrow> CASecret \<Rightarrow> attempt_env" where
  "demo_attempt got after = \<lparr>at_get = GotSecret got, at_gen = Some (''B'', ''B''), at_now = 0, at_update = Updated, at_check = GotSecret after\<rparr>"

text \<open>The first gate sees the same fleet; it pins less.\<close>

definition demo_revoke :: revoke_env where
  "demo_revoke =
     \<lparr>re_rotate = (\<lambda>i. demo_attempt demo_single (demo_overlap caActiveOld)),
      re_gateA = [((\<lambda>i. Some demo_obs), 0)],
      re_flip = (\<lambda>i. demo_attempt (demo_overlap caActiveOld) (demo_overlap caActiveNew)),
      re_gateB = [((\<lambda>i. None), 0), ((\<lambda>i. Some demo_obs), 0)],
      re_trim = (\<lambda>i. demo_attempt (demo_overlap caActiveNew) demo_trimmed)\<rparr>"

lemma demo_revoke_run:
  "runRevoke demo_pki demo_base ''bad'' demo_tokens 2 10 5 10 100 demo_revoke = (Some 0, [demo_overlap caActiveOld, demo_overlap caActiveNew, demo_trimmed])"
  by code_simp


theorem rerun_after_trim_rotates_again_witness:
  "\<exists>s''. tool_write demo_pki ToolRotate (Some (''D'', ''D'')) 0 demo_trimmed = Some s'' \<and> certBundleFPs demo_pki (tls_crt s'') = [''42'', ''44'']"
proof -
  have g: "generates demo_pki (cert_blocks (pem_blocks demo_pki (tls_crt demo_trimmed))) (Some (''D'', ''D''))" by code_simp
  have "cert_fp demo_pki ''D'' = ''44''" by code_simp
  then show ?thesis using rerun_after_trim_rotates_again [OF demo_pki_ok demo_overlap_ok demo_trim g] by simp
qed


definition demo_split :: Observations where
  "demo_split = demo_obs\<lparr>ob_CP := map (\<lambda>g. (hd (ob_CP demo_obs))\<lparr>cp_SignerGen := g\<rparr>) [2, 3]\<rparr>"

theorem restarted_replica_splits_generation_witness:
  "list_all (\<lambda>c. cp_Up c \<and> cp_SignerCAID c = ''343100343200'') (ob_CP demo_split) \<and> \<not> rs_Converged (Evaluate demo_split demo_gate)"
proof
  have cand: "signer_candidate demo_pki 0 0 demo_single = Some (Inr (sg_signer demo_old))" by code_simp
  have g: "map_option sg_gen (signer_reload demo_pki ''ca'' 0 0 (Some [(''ca'', nat_digits 3, demo_single)])
        (signer_reload demo_pki ''ca'' 0 0 (Some [(''ca'', nat_digits 2, demo_single)]) None)) = Some 2"
    "map_option sg_gen (signer_reload demo_pki ''ca'' 0 0 (Some [(''ca'', nat_digits 3, demo_single)]) None) = Some 3"
    "signer_caID (sg_signer demo_old) \<noteq> []" by code_simp+
  show "\<not> rs_Converged (Evaluate demo_split demo_gate)"
    using restarted_replica_splits_generation [OF cand, of 2 3 "ob_CP demo_split ! 0" demo_split "ob_CP demo_split ! 1" _ "''ca''"] g
    by (simp add: demo_split_def demo_single_def)
qed (simp add: demo_split_def demo_obs_def)


end
