(* ===== verification/Edge_Client_Cert.thy ===== *)
theory Edge_Client_Cert
  imports Edge_Issuance Float64
begin

section \<open>The edge's own client certificate\<close>

text \<open>
  The in-memory store of \<^verbatim>\<open>edge/clientcert.go\<close>, one mint of \<^verbatim>\<open>edge/refresh.go\<close> and the coordinator of \<^verbatim>\<open>edge/remint.go\<close> that
  decides when to mint: on a new CA, on a flipped signer, on a rejected certificate, or near expiry.

  A held certificate is its chain of DER blocks, leaf first. \<open>keypair\<close> is \<^verbatim>\<open>tls.X509KeyPair\<close> (the chain, or \<^const>\<open>None\<close>), \<open>leaf_of\<close> the
  fields of a parsed leaf that are used, \<open>skid\<close> the subject key id of a parsed CA and \<open>signed_by\<close> is
  \<^verbatim>\<open>CheckSignatureFrom\<close>. Sleeping (jitter, backoff) changes no state and is reported as a duration.
\<close>

record held_leaf =
  hl_AuthorityKeyId :: string
  hl_NotBefore :: time
  hl_NotAfter :: time

record ('c, 'k) leaf_lib = "('c, 'k) pki" +
  keypair :: "string \<Rightarrow> string \<Rightarrow> string list option"
  leaf_of :: "string \<Rightarrow> held_leaf option"
  skid :: "'c \<Rightarrow> string"
  signed_by :: "string \<Rightarrow> 'c \<Rightarrow> bool"

subsection \<open>The store\<close>

record ClientCertStore =
  cc_chain :: "string list option"
  cc_leaf :: "held_leaf option"
  cc_caid :: string
  cc_signerFP :: string

definition NewClientCertStore :: ClientCertStore where
  "NewClientCertStore = \<lparr>cc_chain = None, cc_leaf = None, cc_caid = [], cc_signerFP = []\<rparr>"

text \<open>\<open>only_match\<close>: the index loops of \<open>deriveIssuerFP\<close>; \<open>Inl\<close> when a second CA matches.\<close>

fun only_match :: "('c \<Rightarrow> bool) \<Rightarrow> 'c list \<Rightarrow> nat \<Rightarrow> nat option \<Rightarrow> unit + nat option" where
  "only_match p [] i found = Inr found"
| "only_match p (c # cs) i found =
     (if p c then (if found \<noteq> None then Inl () else only_match p cs (Suc i) (Some i)) else only_match p cs (Suc i) found)"

definition parse_all :: "('a \<Rightarrow> 'b option) \<Rightarrow> 'a list \<Rightarrow> 'b list option" where
  "parse_all f xs = (if list_all (\<lambda>x. f x \<noteq> None) xs then Some (map (\<lambda>x. the (f x)) xs) else None)"

definition deriveIssuerFP :: "('c, 'k) leaf_lib \<Rightarrow> held_leaf option \<Rightarrow> string list \<Rightarrow> string" where
  "deriveIssuerFP L leaf chain =
     (case leaf of
        None \<Rightarrow> []
      | Some l \<Rightarrow>
          if length chain < 2 then []
          else let caDERs = tl chain in
            (case parse_all (ParseCertificate L) caDERs of
               None \<Rightarrow> []
             | Some cas \<Rightarrow>
                 (case (if hl_AuthorityKeyId l \<noteq> [] then only_match (\<lambda>c. skid L c = hl_AuthorityKeyId l) cas 0 None else Inr None) of
                    Inl _ \<Rightarrow> []
                  | Inr (Some i) \<Rightarrow> hex_encode (sha256 L (caDERs ! i))
                  | Inr None \<Rightarrow>
                      (case only_match (signed_by L (hd chain)) cas 0 None of
                         Inr (Some i) \<Rightarrow> hex_encode (sha256 L (caDERs ! i))
                       | _ \<Rightarrow> []))))"

definition chain_caid :: "('c, 'k) leaf_lib \<Rightarrow> string list \<Rightarrow> string" where
  "chain_caid L chain =
     (if length chain \<ge> 2 then (case FromDER (pki.truncate L) (tl chain) of None \<Rightarrow> [] | Some cid \<Rightarrow> cid) else [])"

definition ClientCertStore_Update ::
  "('c, 'k) leaf_lib \<Rightarrow> string \<Rightarrow> string \<Rightarrow> ClientCertStore \<Rightarrow> bool \<times> ClientCertStore" where
  "ClientCertStore_Update L chainPEM keyPEM s =
     (case keypair L chainPEM keyPEM of
        None \<Rightarrow> (False, s)
      | Some chain \<Rightarrow>
          let leaf = (case chain of [] \<Rightarrow> None | der # _ \<Rightarrow> leaf_of L der)
          in (True, \<lparr>cc_chain = Some chain, cc_leaf = leaf, cc_caid = chain_caid L chain, cc_signerFP = deriveIssuerFP L leaf chain\<rparr>))"

definition Loaded :: "ClientCertStore \<Rightarrow> bool" where
  "Loaded s \<longleftrightarrow> \<not> Option.is_none (cc_chain s)"

definition Validity :: "ClientCertStore \<Rightarrow> (time \<times> time) option" where
  "Validity s = (case cc_leaf s of None \<Rightarrow> None | Some l \<Rightarrow> Some (hl_NotBefore l, hl_NotAfter l))"

subsection \<open>One mint\<close>

text \<open>What happens in one mint: the steps that may fail, in their order, and the chain fetched from the control plane or its
  refusal with the delay it asks for.\<close>

datatype mint_result = MintOk | KeygenFail | CsrFail | FetchFail | MarshalFail | StoreFail

record mint_env =
  me_keygen :: bool
  me_csr :: bool
  me_fetch :: "duration + string"
  me_key :: "string option"

definition RefreshEdgeCertOnce :: "('c, 'k) leaf_lib \<Rightarrow> mint_env \<Rightarrow> ClientCertStore \<Rightarrow> mint_result \<times> duration \<times> ClientCertStore" where
  "RefreshEdgeCertOnce L e s =
     (if \<not> me_keygen e then (KeygenFail, 0, s)
      else if \<not> me_csr e then (CsrFail, 0, s)
      else case me_fetch e of
        Inl retryAfter \<Rightarrow> (FetchFail, retryAfter, s)
      | Inr chainPEM \<Rightarrow>
          (case me_key e of
             None \<Rightarrow> (MarshalFail, 0, s)
           | Some keyPEM \<Rightarrow>
               (case ClientCertStore_Update L chainPEM keyPEM s of
                  (False, s') \<Rightarrow> (StoreFail, 0, s')
                | (True, s') \<Rightarrow> (MintOk, 0, s'))))"

subsection \<open>The coordinator\<close>

record RemintConfig =
  rc_Jitter :: duration
  rc_BackoffBase :: duration
  rc_BackoffMax :: duration
  rc_Cooldown :: duration
  rc_BreakerK :: int
  rc_ProactiveJ :: int
  rc_RenewFraction :: rat

datatype trigger = Proactive | Reactive | Timer

text \<open>A breaker end is \<^const>\<open>None\<close> for the zero time.\<close>

record RemintCoordinator =
  rm_store :: ClientCertStore
  rm_cfg :: RemintConfig
  rm_inFlight :: "trigger option"
  rm_backoff :: duration
  rm_reactiveNoFlip :: int
  rm_reactiveBreakerEnd :: "time option"
  rm_proactiveNoConverge :: int
  rm_proactiveBreakerEnd :: "time option"
  rm_lastTarget :: string
  rm_lastTargetFP :: string

definition NewRemintCoordinator :: "ClientCertStore \<Rightarrow> RemintConfig \<Rightarrow> RemintCoordinator" where
  "NewRemintCoordinator store cfg =
     (let backoffBase = (if rc_BackoffBase cfg \<le> 0 then 2 * second else rc_BackoffBase cfg);
          backoffMax = (if rc_BackoffMax cfg \<le> 0 then 300 * second else rc_BackoffMax cfg);
          cfg' = \<lparr>rc_Jitter = (if rc_Jitter cfg \<le> 0 then 60 * second else rc_Jitter cfg),
                  rc_BackoffBase = backoffBase, rc_BackoffMax = backoffMax,
                  rc_Cooldown = (if rc_Cooldown cfg \<le> 0 then 5 * backoffMax else rc_Cooldown cfg),
                  rc_BreakerK = (if rc_BreakerK cfg \<le> 0 then 3 else rc_BreakerK cfg),
                  rc_ProactiveJ = (if rc_ProactiveJ cfg \<le> 0 then 5 else rc_ProactiveJ cfg),
                  rc_RenewFraction = (if rc_RenewFraction cfg \<le> 0 \<or> rc_RenewFraction cfg \<ge> 1 then fl64 (66 / 100) else rc_RenewFraction cfg)\<rparr>
      in \<lparr>rm_store = store, rm_cfg = cfg', rm_inFlight = None, rm_backoff = backoffBase, rm_reactiveNoFlip = 0,
          rm_reactiveBreakerEnd = None, rm_proactiveNoConverge = 0, rm_proactiveBreakerEnd = None, rm_lastTarget = [], rm_lastTargetFP = []\<rparr>)"

definition before_end :: "time \<Rightarrow> time option \<Rightarrow> bool" where
  "before_end now until = (case until of None \<Rightarrow> False | Some e \<Rightarrow> now < e)"

text \<open>\<open>Trigger\<close> marks the mint as in flight; the goroutine it starts is the later step \<open>fly\<close>.\<close>

definition Trigger :: "trigger \<Rightarrow> time \<Rightarrow> RemintCoordinator \<Rightarrow> RemintCoordinator" where
  "Trigger trig now c =
     (if rm_inFlight c \<noteq> None then c
      else if trig = Reactive \<and> before_end now (rm_reactiveBreakerEnd c) then c
      else if trig = Proactive \<and> before_end now (rm_proactiveBreakerEnd c) then c
      else c\<lparr>rm_inFlight := Some trig\<rparr>)"

definition Observe :: "string \<Rightarrow> string \<Rightarrow> time \<Rightarrow> RemintCoordinator \<Rightarrow> RemintCoordinator" where
  "Observe target targetFP now c =
     (if target = [] then c
      else
        let liveCA = cc_caid (rm_store c); liveFP = cc_signerFP (rm_store c);
            c = c\<lparr>rm_lastTarget := target, rm_lastTargetFP := targetFP\<rparr>;
            caMismatch = (liveCA \<noteq> [] \<and> target \<noteq> liveCA);
            fpMismatch = (targetFP \<noteq> [] \<and> liveFP \<noteq> [] \<and> targetFP \<noteq> liveFP)
        in if \<not> caMismatch \<and> \<not> fpMismatch then c else Trigger Proactive now c)"

definition chooseSleep :: "duration \<Rightarrow> duration \<Rightarrow> duration" where
  "chooseSleep backoff retryAfter = (if retryAfter > backoff then retryAfter else backoff)"

definition score_reactive :: "trigger \<Rightarrow> bool \<Rightarrow> time \<Rightarrow> RemintCoordinator \<Rightarrow> RemintCoordinator" where
  "score_reactive trig flipped now c =
     (if flipped then c\<lparr>rm_reactiveNoFlip := 0, rm_reactiveBreakerEnd := None\<rparr>
      else if trig = Reactive then
        (let n = rm_reactiveNoFlip c + 1 in
         c\<lparr>rm_reactiveNoFlip := n,
           rm_reactiveBreakerEnd := (if n \<ge> rc_BreakerK (rm_cfg c) then Some (now + rc_Cooldown (rm_cfg c)) else rm_reactiveBreakerEnd c)\<rparr>)
      else c)"

definition score_proactive :: "trigger \<Rightarrow> bool \<Rightarrow> time \<Rightarrow> RemintCoordinator \<Rightarrow> RemintCoordinator" where
  "score_proactive trig converged now c =
     (if trig \<noteq> Proactive then c
      else if converged then c\<lparr>rm_proactiveNoConverge := 0, rm_proactiveBreakerEnd := None\<rparr>
      else
        (let n = rm_proactiveNoConverge c + 1 in
         c\<lparr>rm_proactiveNoConverge := n,
           rm_proactiveBreakerEnd := (if n \<ge> rc_ProactiveJ (rm_cfg c) then Some (now + rc_Cooldown (rm_cfg c)) else rm_proactiveBreakerEnd c)\<rparr>))"

text \<open>\<open>runOnce\<close>: the target and the backoff are those read before the mint (\<open>target\<close>, \<open>targetFP\<close>, \<open>backoff\<close>); the result is the
  coordinator and how long the goroutine sleeps before it clears the flight.\<close>

definition runOnce ::
  "('c, 'k) leaf_lib \<Rightarrow> trigger \<Rightarrow> mint_env \<Rightarrow> string \<Rightarrow> string \<Rightarrow> duration \<Rightarrow> time \<Rightarrow> RemintCoordinator \<Rightarrow> RemintCoordinator \<times> duration" where
  "runOnce L trig e target targetFP backoff now c =
     (let beforeCA = cc_caid (rm_store c); beforeFP = cc_signerFP (rm_store c);
          (res, retryAfter, store') = RefreshEdgeCertOnce L e (rm_store c);
          c = c\<lparr>rm_store := store'\<rparr>; afterCA = cc_caid store'; afterFP = cc_signerFP store'
      in if res = MintOk then
           let c = c\<lparr>rm_backoff := rc_BackoffBase (rm_cfg c)\<rparr>;
               c = score_reactive trig (afterCA \<noteq> beforeCA \<or> afterFP \<noteq> beforeFP) now c;
               fpConverged = (targetFP = [] \<or> afterFP = targetFP);
               c = score_proactive trig (target \<noteq> [] \<and> afterCA = target \<and> fpConverged) now c
           in (c, 0)
         else (c\<lparr>rm_backoff := min (backoff * 2) (rc_BackoffMax (rm_cfg c))\<rparr>, chooseSleep backoff retryAfter))"

text \<open>The goroutine of a triggered mint: \<open>runOnce\<close> and then the end of the flight. The target is what \<open>runOnce\<close> read before its
  jitter, which later polls may have replaced; the backoff and the store change in a mint only, so they are still
  what it read.\<close>

definition fly :: "('c, 'k) leaf_lib \<Rightarrow> mint_env \<Rightarrow> string \<Rightarrow> string \<Rightarrow> time \<Rightarrow> RemintCoordinator \<Rightarrow> RemintCoordinator" where
  "fly L e target targetFP now c =
     (case rm_inFlight c of
        None \<Rightarrow> c
      | Some trig \<Rightarrow> (fst (runOnce L trig e target targetFP (rm_backoff c) now c))\<lparr>rm_inFlight := None\<rparr>)"

definition MaybeRenew :: "time \<Rightarrow> RemintCoordinator \<Rightarrow> RemintCoordinator" where
  "MaybeRenew now c =
     (case Validity (rm_store c) of
        None \<Rightarrow> Trigger Timer now c
      | Some (nb, na) \<Rightarrow>
          let lifetime = na - nb in
          if lifetime \<le> 0 then c
          else if na - now \<le> \<lfloor>fl64 (rc_RenewFraction (rm_cfg c) * fl64 (of_int lifetime))\<rfloor> then Trigger Timer now c
          else c)"

subsection \<open>The edge reports the CA that signed its leaf\<close>

text \<open>What is assumed of the library: \<^verbatim>\<open>X509KeyPair\<close> returns the certificate blocks of the chain, and \<^verbatim>\<open>CreateCertificate\<close> copies the
  issuer's subject key id into the leaf. Key ids of different CAs in a bundle differ.\<close>

definition leaf_lib_ok :: "('c, 'k) leaf_lib \<Rightarrow> ('c, 'k) x509 \<Rightarrow> bool" where
  "leaf_lib_ok L X \<longleftrightarrow> pki.truncate L = pki.truncate X \<and>
     (\<forall>chainPEM keyPEM chain. keypair L chainPEM keyPEM = Some chain \<longrightarrow> chain = cert_blocks (pem_blocks X chainPEM)) \<and>
     (\<forall>t parent pub keyPEM der c. create X t parent pub keyPEM = Some der \<and> ParseCertificate X parent = Some c \<longrightarrow>
        skid L c \<noteq> [] \<and> (\<exists>l. leaf_of L der = Some l \<and> hl_AuthorityKeyId l = skid L c))"

definition skids_distinct :: "('c, 'k) leaf_lib \<Rightarrow> string list \<Rightarrow> bool" where
  "skids_distinct L ds \<longleftrightarrow> distinct (map (\<lambda>d. skid L (the (ParseCertificate L d))) ds)"

lemma only_match_none: "\<forall>c \<in> set cs. \<not> p c \<Longrightarrow> only_match p cs i found = Inr found"
  by (induction cs arbitrary: i) auto

lemma only_match_unique:
  "cs = xs @ c # ys \<Longrightarrow> p c \<Longrightarrow> \<forall>x \<in> set xs \<union> set ys. \<not> p x \<Longrightarrow> only_match p cs i None = Inr (Some (i + length xs))"
  by (induction xs arbitrary: cs i) (auto simp: only_match_none)

lemma truncate_fields:
  assumes "pki.truncate L = pki.truncate X"
  shows "ParseCertificate L = ParseCertificate X" "sha256 L = sha256 X" "pem_blocks L = pem_blocks X"
  using assms by (simp_all add: pki.truncate_def)

lemma deriveIssuerFP_signer:
  assumes "all_parse (pki.truncate L) (ds @ d # ds')" and "skids_distinct L (ds @ d # ds')" and "ParseCertificate L d = Some c"
    and "hl_AuthorityKeyId l = skid L c" and "skid L c \<noteq> []"
  shows "deriveIssuerFP L (Some l) (der # ds @ d # ds') = cert_fp (pki.truncate L) d"
proof -
  let ?f = "\<lambda>d. the (ParseCertificate L d)"
  have "list_all (\<lambda>x. ParseCertificate L x \<noteq> None) (ds @ d # ds')" using assms(1) by (simp add: all_parse_def pki.truncate_def)
  then have p: "parse_all (ParseCertificate L) (ds @ d # ds') = Some (map ?f (ds @ d # ds'))" unfolding parse_all_def by (simp only: if_True)
  have "skid L (?f x) \<noteq> skid L c" if "x \<in> set ds \<union> set ds'" for x
    using assms(2,3) that unfolding skids_distinct_def by (auto simp: image_iff dest: sym)
  then have "only_match (\<lambda>c'. skid L c' = hl_AuthorityKeyId l) (map ?f (ds @ d # ds')) 0 None = Inr (Some (length ds))"
    using only_match_unique [of "map ?f (ds @ d # ds')" "map ?f ds" "?f d" "map ?f ds'" "\<lambda>c'. skid L c' = hl_AuthorityKeyId l" 0] assms(3,4)
    by (simp add: ball_Un)
  then show ?thesis using p assms(4,5) by (simp add: deriveIssuerFP_def Let_def nth_append cert_fp_def pki.truncate_def)
qed

lemma minted_chain_tuple:
  assumes "pki_ok (pki.truncate X)" and "digest_ok (pki.truncate X)" and "leaf_lib_ok L X" and "ca_reach (pki.truncate X) w"
    and "replica_reach (pki.truncate X) name ttl skew w (Some cur)" and "Sign X (sg_signer cur) sn now pub edge = Inr out"
    and "skids_distinct L (bundlePool (sg_signer cur))" and "ClientCertStore_Update L (is_chain out) keyPEM s = (True, s')"
  shows "cc_caid s' = signer_caID (sg_signer cur) \<and> cc_signerFP s' = activeFP (sg_signer cur)"
proof -
  let ?P = "pki.truncate X"
  note L = assms(3) [unfolded leaf_lib_ok_def]
  have trunc: "pki.truncate L = ?P" using L by blast
  obtain v where v: "tls_crt v \<noteq> []" "ca_ok ?P v" "signs_as ?P v (sg_signer cur)"
    using replica_serves [OF assms(1,2,4,5)] by blast
  have parses: "all_parse ?P (ders ?P (tls_crt v))" using ca_ok_parses [OF v(2,1)] by blast
  have "ders ?P (tls_crt v) \<noteq> []" using v(1,2) by (auto simp: ca_ok_def ca_virgin_def ca_single_def ca_overlap_def)
  then have mem: "caCert (sg_signer cur) \<in> set (bundlePool (sg_signer cur))" using v(3) by (simp add: signs_as_def active_cert_def)
  then obtain ds ds' where split: "bundlePool (sg_signer cur) = ds @ caCert (sg_signer cur) # ds'" by (meson split_list)
  have pool: "bundlePool (sg_signer cur) = ders ?P (tls_crt v)" using v(3) by (simp add: signs_as_def)
  then obtain c where c: "ParseCertificate L (caCert (sg_signer cur)) = Some c"
    using mem parses by (auto simp: all_parse_def list_all_iff pki.truncate_def truncate_fields(1) [OF trunc])
  obtain san where cr: "create X (sign_template (sg_signer cur) sn now san) (caCert (sg_signer cur)) pub (caKey (sg_signer cur)) = Some (is_leaf out)"
    using Sign_InrD [OF assms(6)] by blast
  then obtain l where l: "leaf_of L (is_leaf out) = Some l" "hl_AuthorityKeyId l = skid L c" "skid L c \<noteq> []"
    using L c unfolding truncate_fields(1) [OF trunc] by metis
  have "is_chain out = cert_pem ?P (is_leaf out) @ BundlePEM (sg_signer cur)"
    using assms(6) by (auto simp: Sign_def cert_pem_def pki.truncate_def split: if_splits option.splits)
  then have "cert_blocks (pem_blocks X (is_chain out)) = is_leaf out # bundlePool (sg_signer cur)"
    using ders_cert_pem [OF assms(1), of "is_leaf out" "BundlePEM (sg_signer cur)"] v(3) by (simp add: signs_as_def pki.truncate_def)
  then have chain: "keypair L (is_chain out) keyPEM = Some (is_leaf out # bundlePool (sg_signer cur))"
    using assms(8) L by (auto simp: ClientCertStore_Update_def split: option.splits)
  have s': "s' = \<lparr>cc_chain = Some (is_leaf out # bundlePool (sg_signer cur)), cc_leaf = Some l,
      cc_caid = chain_caid L (is_leaf out # bundlePool (sg_signer cur)), cc_signerFP = deriveIssuerFP L (Some l) (is_leaf out # bundlePool (sg_signer cur))\<rparr>"
    using assms(8) by (simp add: ClientCertStore_Update_def chain l(1) Let_def)
  have "Some (signer_caID (sg_signer cur)) = FromDER ?P (bundlePool (sg_signer cur))" using v(3) by (simp add: signs_as_def FromPEM_def)
  then have "chain_caid L (is_leaf out # bundlePool (sg_signer cur)) = signer_caID (sg_signer cur)"
    using mem unfolding chain_caid_def trunc by (cases "bundlePool (sg_signer cur)") (auto split: option.splits)
  moreover have "deriveIssuerFP L (Some l) (is_leaf out # bundlePool (sg_signer cur)) = activeFP (sg_signer cur)"
    using deriveIssuerFP_signer [of L ds "caCert (sg_signer cur)" ds' c l "is_leaf out"] parses assms(7) c l(2,3) v(3)
    unfolding split [symmetric] trunc pool [symmetric] by (simp add: signs_as_def)
  ultimately show ?thesis using s' by simp
qed


subsection \<open>A rotation reaches the edge\<close>

lemma fly_ok:
  assumes "rm_inFlight c = Some trig" and "me_keygen e" and "me_csr e" and "me_fetch e = Inr chainPEM" and "me_key e = Some keyPEM"
    and "ClientCertStore_Update L chainPEM keyPEM (rm_store c) = (True, s')"
  shows "rm_store (fly L e target targetFP now c) = s' \<and> rm_inFlight (fly L e target targetFP now c) = None \<and>
    (trig = Proactive \<and> target \<noteq> [] \<and> cc_caid s' = target \<and> (targetFP = [] \<or> cc_signerFP s' = targetFP) \<longrightarrow>
       rm_proactiveBreakerEnd (fly L e target targetFP now c) = None)"
  using assms by (auto simp: fly_def runOnce_def RefreshEdgeCertOnce_def Let_def score_reactive_def score_proactive_def)

lemma Observe_settled:
  "cc_caid (rm_store c) = target \<Longrightarrow> targetFP = [] \<or> cc_signerFP (rm_store c) = targetFP \<Longrightarrow> rm_inFlight (Observe target targetFP now c) = rm_inFlight c"
  by (auto simp: Observe_def Let_def)


subsection \<open>The breakers\<close>

text \<open>All that happens to a coordinator: polls, requests to mint, mints that end, renewals.\<close>

inductive remint_reach :: "('c, 'k) leaf_lib \<Rightarrow> RemintCoordinator \<Rightarrow> bool" for L where
  remint_new: "remint_reach L (NewRemintCoordinator store cfg)"
| remint_observe: "remint_reach L c \<Longrightarrow> remint_reach L (Observe target targetFP now c)"
| remint_trigger: "remint_reach L c \<Longrightarrow> remint_reach L (Trigger trig now c)"
| remint_renew: "remint_reach L c \<Longrightarrow> remint_reach L (MaybeRenew now c)"
| remint_fly: "remint_reach L c \<Longrightarrow> remint_reach L (fly L e target targetFP now c)"

definition breaker_inv :: "RemintCoordinator \<Rightarrow> bool" where
  "breaker_inv c \<longleftrightarrow> 0 < rc_BackoffBase (rm_cfg c) \<and> 0 < rc_BackoffMax (rm_cfg c) \<and> 0 < rc_Cooldown (rm_cfg c) \<and>
     0 < rm_backoff c \<and> rm_backoff c \<le> max (rc_BackoffBase (rm_cfg c)) (rc_BackoffMax (rm_cfg c)) \<and>
     0 \<le> rm_reactiveNoFlip c \<and> 0 \<le> rm_proactiveNoConverge c \<and>
     (rm_reactiveBreakerEnd c = None \<longleftrightarrow> rm_reactiveNoFlip c < rc_BreakerK (rm_cfg c)) \<and>
     (rm_proactiveBreakerEnd c = None \<longleftrightarrow> rm_proactiveNoConverge c < rc_ProactiveJ (rm_cfg c)) \<and>
     0 < rc_BreakerK (rm_cfg c) \<and> 0 < rc_ProactiveJ (rm_cfg c)"

lemma breaker_inv_trigger: "breaker_inv c \<Longrightarrow> breaker_inv (Trigger trig now c)"
  by (simp add: breaker_inv_def Trigger_def)

lemma breaker_inv_score: "breaker_inv c \<Longrightarrow> breaker_inv (score_reactive trig f now c)" "breaker_inv c \<Longrightarrow> breaker_inv (score_proactive trig g now c)"
  by (auto simp: breaker_inv_def score_reactive_def score_proactive_def Let_def)

lemma breaker_inv_fly: "breaker_inv c \<Longrightarrow> breaker_inv (fly L e target targetFP now c)"
proof (cases "rm_inFlight c")
  case (Some trig)
  assume inv: "breaker_inv c"
  obtain res retry s' where r: "RefreshEdgeCertOnce L e (rm_store c) = (res, retry, s')" by (metis prod.exhaust)
  have land: "breaker_inv (c'\<lparr>rm_inFlight := None\<rparr>) = breaker_inv c'" for c' by (simp add: breaker_inv_def)
  have ok: "breaker_inv (c\<lparr>rm_store := s', rm_backoff := rc_BackoffBase (rm_cfg c)\<rparr>)" using inv by (simp add: breaker_inv_def)
  have fail: "breaker_inv (c\<lparr>rm_store := s', rm_backoff := min (rm_backoff c * 2) (rc_BackoffMax (rm_cfg c))\<rparr>)" using inv by (auto simp: breaker_inv_def)
  show ?thesis using ok fail by (simp add: fly_def Some runOnce_def r Let_def land breaker_inv_score)
qed (simp add: fly_def)

text \<open>The breakers bound futile mints: in every reachable state the reactive (proactive) breaker has an end exactly when
  the last runs of futile mints reached its threshold, so fewer futile mints never block a trigger and as many always
  do until the end; and the backoff stays positive and within its bounds.\<close>
theorem remint_breakers_bounded:
  assumes "remint_reach L c"
  shows "(rm_reactiveBreakerEnd c = None \<longleftrightarrow> rm_reactiveNoFlip c < rc_BreakerK (rm_cfg c)) \<and>
    (rm_proactiveBreakerEnd c = None \<longleftrightarrow> rm_proactiveNoConverge c < rc_ProactiveJ (rm_cfg c)) \<and>
    0 < rm_backoff c \<and> rm_backoff c \<le> max (rc_BackoffBase (rm_cfg c)) (rc_BackoffMax (rm_cfg c))"
proof -
  from assms have "breaker_inv c"
  proof (induction rule: remint_reach.induct)
    case (remint_new store cfg)
    show ?case by (simp add: breaker_inv_def NewRemintCoordinator_def Let_def)
  next
    case (remint_observe c target targetFP now)
    have "breaker_inv (c\<lparr>rm_lastTarget := target, rm_lastTargetFP := targetFP\<rparr>)" using remint_observe by (simp add: breaker_inv_def)
    then show ?case using remint_observe.IH by (simp add: Observe_def Let_def breaker_inv_trigger)
  next
    case (remint_renew c now)
    then show ?case by (simp add: MaybeRenew_def Let_def breaker_inv_trigger split: option.split)
  qed (simp_all add: breaker_inv_trigger breaker_inv_fly)
  then show ?thesis unfolding breaker_inv_def by blast
qed


subsection \<open>A concrete rotation\<close>

definition demo_leaf_lib :: "(string, string) leaf_lib" where
  "demo_leaf_lib = pki.extend demo_pki
     \<lparr>keypair = (\<lambda>chainPEM keyPEM. Some (cert_blocks (demo_pem_blocks chainPEM))),
      leaf_of = (\<lambda>der. Some \<lparr>hl_AuthorityKeyId = takeWhile (\<lambda>c. c \<noteq> CHR ''|'') der @ ''k'', hl_NotBefore = 0, hl_NotAfter = 100\<rparr>),
      skid = (\<lambda>c. c @ ''k''), signed_by = (\<lambda>leaf c. False)\<rparr>"

lemma demo_leaf_lib_ok: "leaf_lib_ok demo_leaf_lib demo_x509"
  unfolding leaf_lib_ok_def by (auto simp: demo_leaf_lib_def demo_x509_def pki.defs takeWhile_before split: if_splits)

definition demo_issued_new :: issued where
  "demo_issued_new = (case Sign demo_x509 (sg_signer demo_new) 8 0 Ed25519 ''e1'' of Inr out \<Rightarrow> out | Inl _ \<Rightarrow> undefined)"

definition demo_coordinator :: RemintCoordinator where
  "demo_coordinator = NewRemintCoordinator (snd (ClientCertStore_Update demo_leaf_lib (is_chain demo_issued) ''k'' NewClientCertStore))
     \<lparr>rc_Jitter = 0, rc_BackoffBase = 0, rc_BackoffMax = 0, rc_Cooldown = 0, rc_BreakerK = 0, rc_ProactiveJ = 0, rc_RenewFraction = 0\<rparr>"

definition demo_mint :: mint_env where
  "demo_mint = \<lparr>me_keygen = True, me_csr = True, me_fetch = Inr (is_chain demo_issued_new), me_key = Some ''k''\<rparr>"

definition demo_polled :: RemintCoordinator where
  "demo_polled = Observe (signer_caID (sg_signer demo_new)) (activeFP (sg_signer demo_new)) 5 demo_coordinator"

definition demo_landed :: RemintCoordinator where
  "demo_landed = fly demo_leaf_lib demo_mint (rm_lastTarget demo_polled) (rm_lastTargetFP demo_polled) 6 demo_polled"


theorem remint_breakers_bounded_witness:
  "rm_backoff (fly demo_leaf_lib (demo_mint\<lparr>me_fetch := Inl 1\<rparr>) [] [] 6 (Trigger Reactive 5 demo_coordinator)) = 4 * second \<and>
   (rm_reactiveBreakerEnd (fly demo_leaf_lib (demo_mint\<lparr>me_fetch := Inl 1\<rparr>) [] [] 6 (Trigger Reactive 5 demo_coordinator)) = None) =
   (rm_reactiveNoFlip (fly demo_leaf_lib (demo_mint\<lparr>me_fetch := Inl 1\<rparr>) [] [] 6 (Trigger Reactive 5 demo_coordinator)) < 3)"
proof
  let ?c = "fly demo_leaf_lib (demo_mint\<lparr>me_fetch := Inl 1\<rparr>) [] [] 6 (Trigger Reactive 5 demo_coordinator)"
  have "remint_reach demo_leaf_lib ?c"
    unfolding demo_coordinator_def by (intro remint_fly remint_trigger remint_new)
  note b = remint_breakers_bounded [OF this]
  have ev: "rc_BreakerK (rm_cfg ?c) = 3"
    by (simp add: fly_def Trigger_def demo_coordinator_def NewRemintCoordinator_def Let_def runOnce_def RefreshEdgeCertOnce_def demo_mint_def before_end_def)
  show "(rm_reactiveBreakerEnd ?c = None) = (rm_reactiveNoFlip ?c < 3)" using b unfolding ev by blast
  show "rm_backoff ?c = 4 * second"
    by (simp add: fly_def Trigger_def demo_coordinator_def NewRemintCoordinator_def Let_def runOnce_def RefreshEdgeCertOnce_def demo_mint_def before_end_def)
qed


end
