(* ===== verification/Event_Stream.thy ===== *)
theory Event_Stream
  imports Policy_Server
begin

section \<open>Change notifications\<close>

text \<open>
  The hub of \<^verbatim>\<open>edgecp/events.go\<close>, the stream handler of \<^verbatim>\<open>edgecp/server.go\<close> and the edge's reader of \<^verbatim>\<open>edge/events.go\<close>. A channel of
  capacity one is its undelivered snapshot, if any; a hub knows its channels by number, in the order they were made.
  The wire is the text the handler wrote; \<open>decode\<close> and \<open>encode\<close> are the JSON form of a snapshot.
\<close>

record EventsSnapshot =
  ev_WAF :: string
  ev_Coraza :: string
  ev_RateLimit :: string
  ev_Cache :: string
  ev_Hosts :: string
  ev_Certs :: string
  ev_Purges :: nat

subsection \<open>The hub\<close>

record subscriber =
  su_chan :: nat
  su_token :: string
  su_buf :: "EventsSnapshot option"

record EventsHub =
  eh_MaxSubscribers :: int
  eh_MaxPerToken :: int
  eh_RetryAfterSecs :: int
  eh_subs :: "subscriber list"
  eh_perToken :: "string \<Rightarrow> nat option"
  eh_made :: nat

definition NewEventsHub :: EventsHub where
  "NewEventsHub = \<lparr>eh_MaxSubscribers = 1024, eh_MaxPerToken = 32, eh_RetryAfterSecs = 30, eh_subs = [], eh_perToken = (\<lambda>t. None), eh_made = 0\<rparr>"

definition per_token :: "EventsHub \<Rightarrow> string \<Rightarrow> nat" where
  "per_token h token = (case eh_perToken h token of None \<Rightarrow> 0 | Some n \<Rightarrow> n)"

definition Subscribe :: "string \<Rightarrow> EventsHub \<Rightarrow> nat option \<times> EventsHub" where
  "Subscribe token h =
     (let c = eh_made h; h = h\<lparr>eh_made := c + 1\<rparr> in
      if eh_MaxSubscribers h > 0 \<and> int (length (eh_subs h)) \<ge> eh_MaxSubscribers h then (None, h)
      else if eh_MaxPerToken h > 0 \<and> int (per_token h token) \<ge> eh_MaxPerToken h then (None, h)
      else (Some c, h\<lparr>eh_subs := \<lparr>su_chan = c, su_token = token, su_buf = None\<rparr> # eh_subs h,
                      eh_perToken := (eh_perToken h)(token \<mapsto> per_token h token + 1)\<rparr>))"

definition registered :: "nat \<Rightarrow> EventsHub \<Rightarrow> bool" where
  "registered c h \<longleftrightarrow> list_ex (\<lambda>s. su_chan s = c) (eh_subs h)"

definition cancel_sub :: "nat \<Rightarrow> string \<Rightarrow> EventsHub \<Rightarrow> EventsHub" where
  "cancel_sub c token h =
     (if \<not> registered c h then h
      else h\<lparr>eh_subs := filter (\<lambda>s. su_chan s \<noteq> c) (eh_subs h),
             eh_perToken := (if per_token h token \<le> 1 then (eh_perToken h)(token := None)
                             else (eh_perToken h)(token \<mapsto> per_token h token - 1))\<rparr>)"

text \<open>The two selects of \<open>broadcast\<close>: drop the stale snapshot, then enqueue the current one.\<close>

definition broadcast :: "EventsSnapshot \<Rightarrow> EventsHub \<Rightarrow> EventsHub" where
  "broadcast snap h =
     h\<lparr>eh_subs := map (\<lambda>s. let s = s\<lparr>su_buf := None\<rparr> in if Option.is_none (su_buf s) then s\<lparr>su_buf := Some snap\<rparr> else s) (eh_subs h)\<rparr>"

text \<open>One tick of \<open>Run\<close>; the first component is the loop's \<open>last\<close>.\<close>

definition run_tick :: "EventsSnapshot \<Rightarrow> EventsSnapshot \<times> EventsHub \<Rightarrow> EventsSnapshot \<times> EventsHub" where
  "run_tick cur st = (let (prev, h) = st in if cur = prev then (prev, h) else (cur, broadcast cur h))"

text \<open>A stream takes the snapshot of its channel.\<close>

definition buffered :: "nat \<Rightarrow> EventsHub \<Rightarrow> EventsSnapshot option" where
  "buffered c h = (case filter (\<lambda>s. su_chan s = c) (eh_subs h) of [] \<Rightarrow> None | s # _ \<Rightarrow> su_buf s)"

definition receive :: "nat \<Rightarrow> EventsHub \<Rightarrow> EventsHub" where
  "receive c h = h\<lparr>eh_subs := map (\<lambda>s. if su_chan s = c then s\<lparr>su_buf := None\<rparr> else s) (eh_subs h)\<rparr>"

subsection \<open>The stream\<close>

datatype events_reply = EvUnauthorized | EvDisabled | EvUnsupported | EvShed int | EvStream nat

definition handleEvents :: "Authz \<Rightarrow> string \<Rightarrow> bool \<Rightarrow> EventsHub option \<Rightarrow> events_reply \<times> EventsHub option" where
  "handleEvents authz authorization flusher events =
     (case bearer authorization of
        None \<Rightarrow> (EvUnauthorized, events)
      | Some token \<Rightarrow>
          if \<not> Known authz token then (EvUnauthorized, events)
          else case events of
            None \<Rightarrow> (EvDisabled, events)
          | Some hub \<Rightarrow>
              if \<not> flusher then (EvUnsupported, events)
              else (case Subscribe token hub of
                      (None, hub') \<Rightarrow> (EvShed (if eh_RetryAfterSecs hub' \<le> 0 then 30 else eh_RetryAfterSecs hub'), Some hub')
                    | (Some c, hub') \<Rightarrow> (EvStream c, Some hub')))"

abbreviation newline :: char where
  "newline \<equiv> CHR 0x0A"

definition writeEvent :: "(EventsSnapshot \<Rightarrow> string) \<Rightarrow> EventsSnapshot \<Rightarrow> string" where
  "writeEvent encode snap = ''event: change'' @ [newline] @ ''data: '' @ encode snap @ [newline, newline]"

definition ping_text :: string where
  "ping_text = '': ping'' @ [newline, newline]"

subsection \<open>The edge's reader\<close>

text \<open>A wake-up channel: \<^const>\<open>None\<close> when that resource is not running, else whether a poke is pending.\<close>

record EventPokes =
  po_WAF :: "bool option"
  po_Coraza :: "bool option"
  po_RateLimit :: "bool option"
  po_Cache :: "bool option"
  po_Hosts :: "bool option"
  po_Certs :: "bool option"
  po_Purges :: "bool option"

definition poke :: "bool option \<Rightarrow> bool option" where
  "poke ch = (case ch of None \<Rightarrow> None | Some _ \<Rightarrow> Some True)"

definition pokeAll :: "EventPokes \<Rightarrow> EventPokes" where
  "pokeAll p = \<lparr>po_WAF = poke (po_WAF p), po_Coraza = poke (po_Coraza p), po_RateLimit = poke (po_RateLimit p), po_Cache = poke (po_Cache p),
     po_Hosts = poke (po_Hosts p), po_Certs = poke (po_Certs p), po_Purges = poke (po_Purges p)\<rparr>"

definition poke_changed :: "EventsSnapshot \<Rightarrow> EventsSnapshot \<Rightarrow> EventPokes \<Rightarrow> EventPokes" where
  "poke_changed prev snap p =
     (let p = (if ev_WAF snap \<noteq> ev_WAF prev then p\<lparr>po_WAF := poke (po_WAF p)\<rparr> else p);
          p = (if ev_Coraza snap \<noteq> ev_Coraza prev then p\<lparr>po_Coraza := poke (po_Coraza p)\<rparr> else p);
          p = (if ev_RateLimit snap \<noteq> ev_RateLimit prev then p\<lparr>po_RateLimit := poke (po_RateLimit p)\<rparr> else p);
          p = (if ev_Cache snap \<noteq> ev_Cache prev then p\<lparr>po_Cache := poke (po_Cache p)\<rparr> else p);
          p = (if ev_Hosts snap \<noteq> ev_Hosts prev then p\<lparr>po_Hosts := poke (po_Hosts p)\<rparr> else p);
          p = (if ev_Certs snap \<noteq> ev_Certs prev then p\<lparr>po_Certs := poke (po_Certs p)\<rparr> else p)
      in if ev_Purges snap \<noteq> ev_Purges prev then p\<lparr>po_Purges := poke (po_Purges p)\<rparr> else p)"

record stream_state =
  st_last :: "EventsSnapshot option"
  st_data :: string
  st_pokes :: EventPokes

definition take_event :: "EventsSnapshot \<Rightarrow> stream_state \<Rightarrow> stream_state" where
  "take_event snap st =
     st\<lparr>st_last := Some snap, st_pokes := (case st_last st of None \<Rightarrow> st_pokes st | Some prev \<Rightarrow> poke_changed prev snap (st_pokes st))\<rparr>"

text \<open>\<^verbatim>\<open>strings.TrimPrefix\<close>.\<close>

definition trim_prefix :: "string \<Rightarrow> string \<Rightarrow> string" where
  "trim_prefix s p = (if has_prefix s p then drop (length p) s else s)"

definition scan_line :: "(string \<Rightarrow> EventsSnapshot option) \<Rightarrow> string \<Rightarrow> stream_state \<Rightarrow> stream_state" where
  "scan_line decode line st =
     (if has_prefix line '':'' then st
      else if has_prefix line ''data:'' then st\<lparr>st_data := st_data st @ trim_prefix (trim_prefix line ''data:'') '' ''\<rparr>
      else if line = [] then
        (if st_data st = [] then st
         else (case decode (st_data st) of None \<Rightarrow> st | Some snap \<Rightarrow> take_event snap st)\<lparr>st_data := []\<rparr>)
      else st)"

text \<open>\<^verbatim>\<open>bufio.ScanLines\<close>: the lines up to each newline without a trailing carriage return, and a last one that is not empty.\<close>

definition drop_cr :: "string \<Rightarrow> string" where
  "drop_cr l = (if l \<noteq> [] \<and> last l = CHR 0x0D then butlast l else l)"

definition ScanLines :: "string \<Rightarrow> string list" where
  "ScanLines s = (let ls = split_byte newline s in map drop_cr (if last ls = [] then butlast ls else ls))"

text \<open>\<open>runEventsOnce\<close> after the connect: the pokes, whether an event was delivered, and whether it ends in an error;
  \<open>scanErr\<close> is the error of the scanner (a cut or the watchdog), \<open>stopping\<close> that the edge is stopping.\<close>

definition runEventsOnce :: "(string \<Rightarrow> EventsSnapshot option) \<Rightarrow> string \<Rightarrow> bool \<Rightarrow> bool \<Rightarrow> EventPokes \<Rightarrow> EventPokes \<times> bool \<times> bool" where
  "runEventsOnce decode body scanErr stopping pokes =
     (let st = fold (scan_line decode) (ScanLines body) \<lparr>st_last = None, st_data = [], st_pokes = pokeAll pokes\<rparr>;
          delivered = (st_last st \<noteq> None)
      in (st_pokes st, delivered, (scanErr \<and> \<not> stopping) \<or> (\<not> delivered \<and> \<not> stopping)))"

text \<open>The backoff of \<open>RunEvents\<close> after one stream, and how long it sleeps before the next; the jitter is \<open>j\<close>.\<close>

datatype stream_end = Unsupported | Failed | Ended

definition eventsUnsupportedRetry :: duration where
  "eventsUnsupportedRetry = 300 * second"

definition events_backoff :: "bool \<Rightarrow> stream_end \<Rightarrow> duration \<Rightarrow> duration \<Rightarrow> duration \<times> duration" where
  "events_backoff delivered how j backoff =
     (let backoffBase = second; backoffMax = 60 * second;
          backoff = (if delivered then backoffBase else backoff)
      in case how of
           Unsupported \<Rightarrow> (eventsUnsupportedRetry, backoffBase)
         | Failed \<Rightarrow> (backoff + j, if \<not> delivered then min (backoff * 2) backoffMax else backoff)
         | Ended \<Rightarrow> (j, backoff))"

subsection \<open>The caps\<close>

definition held_by :: "string \<Rightarrow> EventsHub \<Rightarrow> nat" where
  "held_by token h = length (filter (\<lambda>s. su_token s = token) (eh_subs h))"

definition hub_inv :: "EventsHub \<Rightarrow> bool" where
  "hub_inv h \<longleftrightarrow> distinct (map su_chan (eh_subs h)) \<and> (\<forall>s \<in> set (eh_subs h). su_chan s < eh_made h) \<and>
     (\<forall>t. eh_perToken h t = (if held_by t h = 0 then None else Some (held_by t h))) \<and>
     (0 < eh_MaxSubscribers h \<longrightarrow> int (length (eh_subs h)) \<le> eh_MaxSubscribers h) \<and>
     (0 < eh_MaxPerToken h \<longrightarrow> (\<forall>t. int (held_by t h) \<le> eh_MaxPerToken h))"

text \<open>The closure that \<open>Subscribe\<close> returns keeps the token of its own registration.\<close>

inductive hub_reach :: "EventsHub \<Rightarrow> bool" where
  hub_start: "hub_reach (NewEventsHub\<lparr>eh_MaxSubscribers := ms, eh_MaxPerToken := mp, eh_RetryAfterSecs := ra\<rparr>)"
| hub_subscribe: "hub_reach h \<Longrightarrow> hub_reach (snd (Subscribe token h))"
| hub_cancel: "hub_reach h \<Longrightarrow> \<forall>s \<in> set (eh_subs h). su_chan s = c \<longrightarrow> su_token s = token \<Longrightarrow> hub_reach (cancel_sub c token h)"
| hub_broadcast: "hub_reach h \<Longrightarrow> hub_reach (broadcast snap h)"
| hub_receive: "hub_reach h \<Longrightarrow> hub_reach (receive c h)"

lemma per_token_held: "hub_inv h \<Longrightarrow> per_token h t = held_by t h"
  by (simp add: hub_inv_def per_token_def)

lemma hub_inv_map:
  assumes "hub_inv h" and "\<And>s. su_chan (f s) = su_chan s \<and> su_token (f s) = su_token s"
  shows "hub_inv (h\<lparr>eh_subs := map f (eh_subs h)\<rparr>)"
proof -
  have m: "su_chan \<circ> f = su_chan" using assms(2) by auto
  have "length (filter (\<lambda>s. su_token s = t) (map f xs)) = length (filter (\<lambda>s. su_token s = t) xs)" for t xs
    using assms(2) by (simp add: filter_map o_def)
  then have "held_by t (h\<lparr>eh_subs := map f (eh_subs h)\<rparr>) = held_by t h" for t by (simp add: held_by_def)
  then show ?thesis using assms by (auto simp: hub_inv_def m)
qed

lemma hub_inv_broadcast: "hub_inv h \<Longrightarrow> hub_inv (broadcast snap h)"
  unfolding broadcast_def by (erule hub_inv_map) (simp add: Let_def)

lemma hub_inv_receive: "hub_inv h \<Longrightarrow> hub_inv (receive c h)"
  unfolding receive_def by (erule hub_inv_map) simp

lemma hub_inv_subscribe: "hub_inv h \<Longrightarrow> hub_inv (snd (Subscribe token h))"
  by (auto simp: Subscribe_def Let_def per_token_held hub_inv_def held_by_def less_Suc_eq per_token_def)

lemma drop_channel:
  assumes "distinct (map su_chan xs)" and "\<forall>s \<in> set xs. su_chan s = c \<longrightarrow> su_token s = token" and "\<exists>s \<in> set xs. su_chan s = c"
  shows "length (filter (\<lambda>s. su_token s = t) (filter (\<lambda>s. su_chan s \<noteq> c) xs)) =
    (if t = token then length (filter (\<lambda>s. su_token s = t) xs) - 1 else length (filter (\<lambda>s. su_token s = t) xs))"
    and "0 < length (filter (\<lambda>s. su_token s = token) xs)"
proof -
  obtain x ys zs where xs: "xs = ys @ x # zs" and x: "su_chan x = c" "su_token x = token" using assms(2,3) by (metis split_list)
  have "filter (\<lambda>s. su_chan s \<noteq> c) ys = ys" "filter (\<lambda>s. su_chan s \<noteq> c) zs = zs"
    using assms(1) x(1) unfolding xs by (force simp: filter_id_conv image_iff)+
  then show "length (filter (\<lambda>s. su_token s = t) (filter (\<lambda>s. su_chan s \<noteq> c) xs)) =
    (if t = token then length (filter (\<lambda>s. su_token s = t) xs) - 1 else length (filter (\<lambda>s. su_token s = t) xs))"
    and "0 < length (filter (\<lambda>s. su_token s = token) xs)"
    using x by (simp_all add: xs)
qed

lemma hub_inv_cancel:
  assumes "hub_inv h" and "\<forall>s \<in> set (eh_subs h). su_chan s = c \<longrightarrow> su_token s = token"
  shows "hub_inv (cancel_sub c token h)"
proof (cases "registered c h")
  case True
  then have ex: "\<exists>s \<in> set (eh_subs h). su_chan s = c" by (auto simp: registered_def list_ex_iff)
  have d: "distinct (map su_chan (eh_subs h))" using assms(1) by (simp add: hub_inv_def)
  have held: "held_by t (cancel_sub c token h) = (if t = token then held_by t h - 1 else held_by t h)" for t
    using drop_channel(1) [OF d assms(2) ex] True by (simp add: cancel_sub_def held_by_def)
  have pos: "0 < held_by token h" using drop_channel(2) [OF d assms(2) ex] by (simp add: held_by_def)
  have len: "length (eh_subs (cancel_sub c token h)) \<le> length (eh_subs h)" using True by (simp add: cancel_sub_def)
  have counts: "eh_perToken (cancel_sub c token h) t = (if held_by t (cancel_sub c token h) = 0 then None else Some (held_by t (cancel_sub c token h)))" for t
    unfolding held using True pos assms(1) by (auto simp: cancel_sub_def per_token_held) (auto simp: hub_inv_def)
  have "held_by t (cancel_sub c token h) \<le> held_by t h" for t by (simp add: held)
  then have "0 < eh_MaxPerToken h \<longrightarrow> (\<forall>t. int (held_by t (cancel_sub c token h)) \<le> eh_MaxPerToken h)"
    using assms(1) unfolding hub_inv_def by (meson of_nat_le_iff order_trans)
  moreover have "0 < eh_MaxSubscribers h \<longrightarrow> int (length (eh_subs (cancel_sub c token h))) \<le> eh_MaxSubscribers h"
    using assms(1) len unfolding hub_inv_def by (meson of_nat_le_iff order_trans)
  moreover have "eh_MaxPerToken (cancel_sub c token h) = eh_MaxPerToken h" "eh_MaxSubscribers (cancel_sub c token h) = eh_MaxSubscribers h"
    "eh_made (cancel_sub c token h) = eh_made h" "eh_subs (cancel_sub c token h) = filter (\<lambda>s. su_chan s \<noteq> c) (eh_subs h)"
    using True by (simp_all add: cancel_sub_def)
  ultimately show ?thesis using assms(1) counts d unfolding hub_inv_def by (simp add: distinct_map_filter)
qed (use assms(1) in \<open>simp add: cancel_sub_def\<close>)

lemma hub_reach_inv: "hub_reach h \<Longrightarrow> hub_inv h"
  by (induction rule: hub_reach.induct)
    (simp_all add: hub_inv_broadcast hub_inv_receive hub_inv_subscribe hub_inv_cancel, simp add: hub_inv_def NewEventsHub_def held_by_def)

text \<open>C32. The caps on event streams: whatever streams come, go, double-cancel or lag, at most \<open>MaxSubscribers\<close> are open and at most
  \<open>MaxPerToken\<close> of one token, the per-token counter is exactly the number of its open streams with no entry left for a
  token without one, and a new stream is shed exactly when one of the two caps is reached.\<close>
theorem event_streams_capped:
  assumes "hub_reach h"
  shows "(0 < eh_MaxSubscribers h \<longrightarrow> int (length (eh_subs h)) \<le> eh_MaxSubscribers h) \<and>
    (0 < eh_MaxPerToken h \<longrightarrow> int (held_by token h) \<le> eh_MaxPerToken h) \<and>
    eh_perToken h token = (if held_by token h = 0 then None else Some (held_by token h)) \<and>
    (fst (Subscribe token h) = None \<longleftrightarrow>
       0 < eh_MaxSubscribers h \<and> int (length (eh_subs h)) = eh_MaxSubscribers h \<or>
       0 < eh_MaxPerToken h \<and> int (held_by token h) = eh_MaxPerToken h)"
  using hub_reach_inv [OF assms] by (auto simp: Subscribe_def Let_def per_token_def hub_inv_def held_by_def order_antisym)

definition demo_hub :: EventsHub where
  "demo_hub = snd (Subscribe ''t'' (cancel_sub 0 ''t'' (cancel_sub 0 ''t'' (snd (Subscribe ''t'' (NewEventsHub\<lparr>eh_MaxSubscribers := 9, eh_MaxPerToken := 1, eh_RetryAfterSecs := 0\<rparr>))))))"

theorem event_streams_capped_witness:
  "length (eh_subs demo_hub) = 1 \<and> eh_perToken demo_hub ''t'' = Some 1 \<and> eh_perToken demo_hub ''u'' = None \<and>
   fst (Subscribe ''t'' demo_hub) = None \<and> fst (Subscribe ''u'' demo_hub) = Some 2"
proof -
  have "hub_reach demo_hub" unfolding demo_hub_def
    by (intro hub_subscribe hub_cancel hub_start) (simp_all add: Subscribe_def NewEventsHub_def Let_def per_token_def cancel_sub_def registered_def)
  note caps = event_streams_capped [OF this]
  have h: "eh_MaxSubscribers demo_hub = 9" "eh_MaxPerToken demo_hub = 1" "length (eh_subs demo_hub) = 1" "held_by ''t'' demo_hub = 1" "held_by ''u'' demo_hub = 0"
    by code_simp+
  have "fst (Subscribe ''u'' demo_hub) = Some 2" by code_simp
  then show ?thesis using caps [of "''t''"] caps [of "''u''"] by (simp add: h)
qed

subsection \<open>What is written is what is read\<close>

datatype stream_item = Ping | Event EventsSnapshot

fun item_text :: "(EventsSnapshot \<Rightarrow> string) \<Rightarrow> stream_item \<Rightarrow> string" where
  "item_text encode Ping = ping_text"
| "item_text encode (Event snap) = writeEvent encode snap"

fun item_event :: "stream_item \<Rightarrow> stream_state \<Rightarrow> stream_state" where
  "item_event Ping st = st"
| "item_event (Event snap) st = take_event snap st"

text \<open>The JSON of a snapshot is one line and reads back.\<close>

definition json_ok :: "(EventsSnapshot \<Rightarrow> string) \<Rightarrow> (string \<Rightarrow> EventsSnapshot option) \<Rightarrow> EventsSnapshot \<Rightarrow> bool" where
  "json_ok encode decode snap \<longleftrightarrow> decode (encode snap) = Some snap \<and> encode snap \<noteq> [] \<and> newline \<notin> set (encode snap) \<and> CHR 0x0D \<notin> set (encode snap)"

lemma split_byte_nonempty: "split_byte c s \<noteq> []"
  by (induction s) (auto split: list.splits)

lemma split_byte_line: "c \<notin> set l \<Longrightarrow> split_byte c (l @ c # s) = l # split_byte c s"
  by (induction l) auto

lemma ScanLines_line: "newline \<notin> set l \<Longrightarrow> ScanLines (l @ newline # s) = drop_cr l # ScanLines s"
  by (simp add: ScanLines_def Let_def split_byte_line split_byte_nonempty)

lemma ScanLines_Nil: "ScanLines [] = []"
  by (simp add: ScanLines_def)

lemma ScanLines_ping: "ScanLines (ping_text @ s) = '': ping'' # [] # ScanLines s"
  using ScanLines_line [of "'': ping''" "newline # s"] ScanLines_line [of "[]" s] by (simp add: ping_text_def drop_cr_def)

lemma ScanLines_event:
  assumes "json_ok encode decode snap"
  shows "ScanLines (writeEvent encode snap @ s) = ''event: change'' # (''data: '' @ encode snap) # [] # ScanLines s"
proof -
  have e: "newline \<notin> set (''data: '' @ encode snap)" "drop_cr (''data: '' @ encode snap) = ''data: '' @ encode snap"
    using assms by (auto simp: json_ok_def drop_cr_def) (metis last_in_set)
  show ?thesis
    using ScanLines_line [of "''event: change''" "''data: '' @ encode snap @ newline # newline # s"] ScanLines_line [OF e(1), of "newline # s"]
      ScanLines_line [of "[]" s] e(2) by (simp add: writeEvent_def drop_cr_def)
qed

lemma scan_ping: "st_data st = [] \<Longrightarrow> scan_line decode [] (scan_line decode '': ping'' st) = st"
  by (simp add: scan_line_def has_prefix_def)

lemma scan_event:
  assumes "json_ok encode decode snap" and "st_data st = []"
  shows "scan_line decode [] (scan_line decode (''data: '' @ encode snap) (scan_line decode ''event: change'' st)) = take_event snap st"
  using assms by (cases st) (auto simp: scan_line_def has_prefix_def trim_prefix_def json_ok_def take_event_def split: option.splits)

text \<open>C33. The stream is transparent: any sequence of keep-alive pings and change events, written by the handler with its
  event and data fields, is read back by the edge's line scanner as exactly those snapshots in that order, with no
  partial data left.\<close>
theorem event_stream_roundtrip:
  assumes "\<And>snap. Event snap \<in> set items \<Longrightarrow> json_ok encode decode snap" and "st_data st = []"
  shows "fold (scan_line decode) (ScanLines (concat (map (item_text encode) items))) st = fold item_event items st"
  using assms
proof (induction items arbitrary: st)
  case (Cons i items)
  have d: "st_data (item_event i st) = []" using Cons.prems by (cases i) (simp_all add: take_event_def)
  have ih: "fold (scan_line decode) (ScanLines (concat (map (item_text encode) items))) (item_event i st) = fold item_event items (item_event i st)"
    using Cons.IH [OF _ d] Cons.prems(1) by simp
  show ?case
  proof (cases i)
    case Ping
    then show ?thesis using ih scan_ping [OF Cons.prems(2)] by (simp add: ScanLines_ping)
  next
    case (Event snap)
    then have "json_ok encode decode snap" using Cons.prems(1) by simp
    from scan_event [OF this Cons.prems(2)] ScanLines_event [OF this] show ?thesis using ih Event by simp
  qed
qed (simp add: ScanLines_Nil)


definition demo_snap :: "string \<Rightarrow> nat \<Rightarrow> EventsSnapshot" where
  "demo_snap w p = \<lparr>ev_WAF = w, ev_Coraza = [], ev_RateLimit = [], ev_Cache = [], ev_Hosts = [], ev_Certs = [], ev_Purges = p\<rparr>"

definition demo_pokes :: EventPokes where
  "demo_pokes = \<lparr>po_WAF = Some False, po_Coraza = None, po_RateLimit = Some False, po_Cache = Some False, po_Hosts = Some False,
     po_Certs = Some False, po_Purges = Some False\<rparr>"

definition demo_stream :: stream_state where
  "demo_stream = \<lparr>st_last = None, st_data = [], st_pokes = demo_pokes\<rparr>"

theorem event_stream_roundtrip_witness:
  "fold (scan_line (\<lambda>s. Some (demo_snap s 0))) (ScanLines (concat (map (item_text ev_WAF) [Event (demo_snap ''w1'' 0), Ping, Event (demo_snap ''w2'' 0)]))) demo_stream =
     fold item_event [Event (demo_snap ''w1'' 0), Ping, Event (demo_snap ''w2'' 0)] demo_stream \<and>
   po_WAF (st_pokes (fold item_event [Event (demo_snap ''w1'' 0), Ping, Event (demo_snap ''w2'' 0)] demo_stream)) = Some True \<and>
   po_Certs (st_pokes (fold item_event [Event (demo_snap ''w1'' 0), Ping, Event (demo_snap ''w2'' 0)] demo_stream)) = Some False"
proof (intro conjI)
  show "fold (scan_line (\<lambda>s. Some (demo_snap s 0))) (ScanLines (concat (map (item_text ev_WAF) [Event (demo_snap ''w1'' 0), Ping, Event (demo_snap ''w2'' 0)]))) demo_stream =
     fold item_event [Event (demo_snap ''w1'' 0), Ping, Event (demo_snap ''w2'' 0)] demo_stream"
    by (rule event_stream_roundtrip) (auto simp: json_ok_def demo_snap_def demo_stream_def)
qed (simp_all add: take_event_def demo_stream_def demo_pokes_def poke_changed_def demo_snap_def Let_def poke_def)

subsection \<open>No wake-up is lost\<close>

text \<open>The seven versions of a snapshot and their wake-up channels, by name.\<close>

datatype axis = WAF | Coraza | RateLimit | Cache | Hosts | Certs | Purges

fun axis_version :: "axis \<Rightarrow> EventsSnapshot \<Rightarrow> string + nat" where
  "axis_version WAF v = Inl (ev_WAF v)"
| "axis_version Coraza v = Inl (ev_Coraza v)"
| "axis_version RateLimit v = Inl (ev_RateLimit v)"
| "axis_version Cache v = Inl (ev_Cache v)"
| "axis_version Hosts v = Inl (ev_Hosts v)"
| "axis_version Certs v = Inl (ev_Certs v)"
| "axis_version Purges v = Inr (ev_Purges v)"

fun axis_poke :: "axis \<Rightarrow> EventPokes \<Rightarrow> bool option" where
  "axis_poke WAF p = po_WAF p"
| "axis_poke Coraza p = po_Coraza p"
| "axis_poke RateLimit p = po_RateLimit p"
| "axis_poke Cache p = po_Cache p"
| "axis_poke Hosts p = po_Hosts p"
| "axis_poke Certs p = po_Certs p"
| "axis_poke Purges p = po_Purges p"

fun clear_poke :: "axis \<Rightarrow> EventPokes \<Rightarrow> EventPokes" where
  "clear_poke WAF p = p\<lparr>po_WAF := Some False\<rparr>"
| "clear_poke Coraza p = p\<lparr>po_Coraza := Some False\<rparr>"
| "clear_poke RateLimit p = p\<lparr>po_RateLimit := Some False\<rparr>"
| "clear_poke Cache p = p\<lparr>po_Cache := Some False\<rparr>"
| "clear_poke Hosts p = p\<lparr>po_Hosts := Some False\<rparr>"
| "clear_poke Certs p = p\<lparr>po_Certs := Some False\<rparr>"
| "clear_poke Purges p = p\<lparr>po_Purges := Some False\<rparr>"

lemma axis_clear: "axis_poke b (clear_poke a p) = (if b = a then Some False else axis_poke b p)"
  by (cases a; cases b) simp_all

lemma axis_pokeAll: "axis_poke a (pokeAll p) = poke (axis_poke a p)"
  by (cases a) (simp_all add: pokeAll_def)

lemma axis_poke_changed:
  "axis_poke a (poke_changed prev snap p) = (if axis_version a snap = axis_version a prev then axis_poke a p else poke (axis_poke a p))"
  by (cases a) (simp_all add: poke_changed_def Let_def)

text \<open>The control plane's stores, its hub and one edge. \<open>es_hist\<close> holds every vector of versions the stores had, the current one last;
  \<open>es_sample\<close> is \<open>last\<close> of \<open>Run\<close>. A stream is opened in three steps: the handler subscribes, it writes the first event, the edge
  sees the response. A refresh loop consumes a poke (or its timer fires), its fetch is answered at the control plane, and
  the answer is applied at the edge; it may fail instead, which \<open>es_failed\<close> records until the next success.\<close>

datatype phase = Closed | Subscribed nat string | Opened nat string | Reading nat string

datatype flight = Idle | Asked | Answered "string + nat"

record estream =
  es_hist :: "EventsSnapshot list"
  es_sample :: EventsSnapshot
  es_hub :: EventsHub
  es_phase :: phase
  es_wire :: "EventsSnapshot list"
  es_edge :: stream_state
  es_flight :: "axis \<Rightarrow> flight"
  es_fetched :: "axis \<Rightarrow> string + nat"
  es_failed :: "axis \<Rightarrow> bool"

fun stream_chan :: "phase \<Rightarrow> nat option" where
  "stream_chan Closed = None"
| "stream_chan (Subscribed c t) = Some c"
| "stream_chan (Opened c t) = Some c"
| "stream_chan (Reading c t) = Some c"

text \<open>A version that was replaced does not come back: true of the purge counter, and of the content hashes of stores that
  are never reverted.\<close>

definition never_back :: "EventsSnapshot list \<Rightarrow> bool" where
  "never_back hs \<longleftrightarrow> (\<forall>a i j k. i \<le> j \<and> j \<le> k \<and> k < length hs \<and> axis_version a (hs ! i) = axis_version a (hs ! k) \<longrightarrow>
     axis_version a (hs ! j) = axis_version a (hs ! i))"

inductive es_step :: "estream \<Rightarrow> estream \<Rightarrow> bool" where
  es_change: "never_back (es_hist s @ [v]) \<Longrightarrow> es_step s (s\<lparr>es_hist := es_hist s @ [v]\<rparr>)"
| es_tick: "run_tick (last (es_hist s)) (es_sample s, es_hub s) = (v, h) \<Longrightarrow> es_step s (s\<lparr>es_sample := v, es_hub := h\<rparr>)"
| es_other_joins: "es_step s (s\<lparr>es_hub := snd (Subscribe token (es_hub s))\<rparr>)"
| es_other_leaves: "stream_chan (es_phase s) \<noteq> Some c \<Longrightarrow> \<forall>x \<in> set (eh_subs (es_hub s)). su_chan x = c \<longrightarrow> su_token x = token \<Longrightarrow>
    es_step s (s\<lparr>es_hub := cancel_sub c token (es_hub s)\<rparr>)"
| es_other_reads: "stream_chan (es_phase s) \<noteq> Some c \<Longrightarrow> es_step s (s\<lparr>es_hub := receive c (es_hub s)\<rparr>)"
| es_subscribe: "es_phase s = Closed \<Longrightarrow> Subscribe token (es_hub s) = (Some c, h) \<Longrightarrow>
    es_step s (s\<lparr>es_hub := h, es_phase := Subscribed c token\<rparr>)"
| es_first: "es_phase s = Subscribed c token \<Longrightarrow> es_step s (s\<lparr>es_wire := [last (es_hist s)], es_phase := Opened c token\<rparr>)"
| es_connect: "es_phase s = Opened c token \<Longrightarrow>
    es_step s (s\<lparr>es_phase := Reading c token, es_edge := \<lparr>st_last = None, st_data = [], st_pokes = pokeAll (st_pokes (es_edge s))\<rparr>\<rparr>)"
| es_write: "es_phase s = Opened c token \<or> es_phase s = Reading c token \<Longrightarrow> buffered c (es_hub s) = Some v \<Longrightarrow>
    es_step s (s\<lparr>es_hub := receive c (es_hub s), es_wire := es_wire s @ [v]\<rparr>)"
| es_read: "es_phase s = Reading c token \<Longrightarrow> es_wire s = v # rest \<Longrightarrow>
    es_step s (s\<lparr>es_wire := rest, es_edge := take_event v (es_edge s)\<rparr>)"
| es_cut: "es_phase s \<noteq> Closed \<Longrightarrow> stream_chan (es_phase s) = Some c \<Longrightarrow> \<forall>x \<in> set (eh_subs (es_hub s)). su_chan x = c \<longrightarrow> su_token x = token \<Longrightarrow>
    es_step s (s\<lparr>es_phase := Closed, es_wire := [], es_hub := cancel_sub c token (es_hub s)\<rparr>)"
| es_poked: "es_flight s a = Idle \<Longrightarrow> axis_poke a (st_pokes (es_edge s)) = Some True \<Longrightarrow>
    es_step s (s\<lparr>es_edge := (es_edge s)\<lparr>st_pokes := clear_poke a (st_pokes (es_edge s))\<rparr>, es_flight := (es_flight s)(a := Asked)\<rparr>)"
| es_timer: "es_flight s a = Idle \<Longrightarrow> es_step s (s\<lparr>es_flight := (es_flight s)(a := Asked)\<rparr>)"
| es_answer: "es_flight s a = Asked \<Longrightarrow> es_step s (s\<lparr>es_flight := (es_flight s)(a := Answered (axis_version a (last (es_hist s))))\<rparr>)"
| es_apply: "es_flight s a = Answered r \<Longrightarrow>
    es_step s (s\<lparr>es_flight := (es_flight s)(a := Idle), es_fetched := (es_fetched s)(a := r), es_failed := (es_failed s)(a := False)\<rparr>)"
| es_fail: "es_step s (s\<lparr>es_flight := (es_flight s)(a := Idle), es_failed := (es_failed s)(a := True)\<rparr>)"

inductive es_reach :: "estream \<Rightarrow> bool" where
  es_start: "hub_reach (es_hub s) \<Longrightarrow> es_phase s = Closed \<Longrightarrow> es_hist s = [es_sample s] \<Longrightarrow> es_wire s = [] \<Longrightarrow> es_reach s"
| es_next: "es_reach s \<Longrightarrow> es_step s s' \<Longrightarrow> es_reach s'"


lemma registered_iff: "registered c h \<longleftrightarrow> c \<in> su_chan ` set (eh_subs h)"
  by (auto simp: registered_def list_ex_iff)

lemma buffered_broadcast: "registered c h \<Longrightarrow> buffered c (broadcast v h) = Some v"
  by (auto simp: registered_def list_ex_iff buffered_def broadcast_def Let_def filter_map o_def filter_empty_conv split: list.splits)

lemma registered_broadcast [simp]: "registered c (broadcast v h) = registered c h"
  by (auto simp: registered_iff broadcast_def image_image Let_def)

lemma buffered_receive: "buffered c (receive c' h) = (if c = c' then None else buffered c h)"
proof -
  have m: "filter (\<lambda>s. su_chan s = c) (map (\<lambda>s. if su_chan s = c' then s\<lparr>su_buf := None\<rparr> else s) xs) =
      (if c = c' then map (\<lambda>s. s\<lparr>su_buf := None\<rparr>) (filter (\<lambda>s. su_chan s = c) xs) else filter (\<lambda>s. su_chan s = c) xs)" for xs
    by (induction xs) auto
  show ?thesis by (auto simp: buffered_def receive_def m split: list.splits)
qed

lemma registered_receive [simp]: "registered c (receive c' h) = registered c h"
proof -
  have "list_ex (\<lambda>s. su_chan s = c) (map (\<lambda>s. if su_chan s = c' then s\<lparr>su_buf := None\<rparr> else s) xs) = list_ex (\<lambda>s. su_chan s = c) xs" for xs
    by (induction xs) auto
  then show ?thesis by (simp add: registered_def receive_def)
qed

lemma other_cancel:
  "c \<noteq> c' \<Longrightarrow> registered c (cancel_sub c' token h) = registered c h" "c \<noteq> c' \<Longrightarrow> buffered c (cancel_sub c' token h) = buffered c h"
  by (auto simp: cancel_sub_def registered_iff buffered_def conj_commute intro!: arg_cong [where f = "case_list _ _"] filter_cong)

lemma other_subscribes:
  assumes "hub_inv h" and "registered c h"
  shows "registered c (snd (Subscribe token h))" "buffered c (snd (Subscribe token h)) = buffered c h"
proof -
  have "c \<noteq> eh_made h" using assms by (auto simp: hub_inv_def registered_iff)
  then show "registered c (snd (Subscribe token h))" "buffered c (snd (Subscribe token h)) = buffered c h"
    using assms(2) by (auto simp: Subscribe_def Let_def registered_def buffered_def)
qed

lemma new_subscriber: "Subscribe token h = (Some c, h') \<Longrightarrow> registered c h' \<and> buffered c h' = None"
  by (auto simp: Subscribe_def Let_def registered_def buffered_def split: if_splits)

text \<open>\<open>good a r k hs\<close>: the version \<open>r\<close> was current no earlier than entry \<open>k\<close> of the history, or equals that entry's.\<close>

definition good :: "axis \<Rightarrow> string + nat \<Rightarrow> nat \<Rightarrow> EventsSnapshot list \<Rightarrow> bool" where
  "good a r k hs \<longleftrightarrow> (\<exists>j < length hs. r = axis_version a (hs ! j) \<and> (k \<le> j \<or> r = axis_version a (hs ! k)))"

lemma good_now: "k < length hs \<Longrightarrow> good a (axis_version a (last hs)) k hs"
  unfolding good_def by (rule exI [of _ "length hs - 1"]) (cases hs rule: rev_cases, auto)

lemma good_extend: "good a r k hs \<Longrightarrow> k < length hs \<Longrightarrow> good a r k (hs @ [v])"
  unfolding good_def by (auto simp: nth_append intro: less_SucI)

lemma good_shift:
  assumes "never_back hs" and "good a r k hs" and "k < length hs" and "k' < length hs" and "axis_version a (hs ! k') = axis_version a (hs ! k)"
  shows "good a r k' hs"
proof -
  obtain j where j: "j < length hs" "r = axis_version a (hs ! j)" "k \<le> j \<or> r = axis_version a (hs ! k)" using assms(2) unfolding good_def by blast
  have "k' \<le> j \<or> r = axis_version a (hs ! k')"
  proof (cases "k \<le> j \<and> j < k'")
    case True
    then have "axis_version a (hs ! j) = axis_version a (hs ! k)"
      using assms(1,4,5) unfolding never_back_def by (metis less_imp_le)
    then show ?thesis using j(2) assms(5) by simp
  qed (use j(3) assms(5) in auto)
  then show ?thesis using j(1,2) unfolding good_def by blast
qed

definition axis_ok :: "EventsSnapshot list \<Rightarrow> nat \<Rightarrow> EventPokes \<Rightarrow> flight \<Rightarrow> bool \<Rightarrow> string + nat \<Rightarrow> axis \<Rightarrow> bool" where
  "axis_ok hs k p fl failed r a \<longleftrightarrow> axis_poke a p \<noteq> Some False \<or>
     (case fl of Asked \<Rightarrow> True | Answered r' \<Rightarrow> good a r' k hs | Idle \<Rightarrow> failed \<or> good a r k hs)"

definition pipe :: "estream \<Rightarrow> EventsSnapshot list" where
  "pipe s = (case es_phase s of Reading _ _ \<Rightarrow> (case st_last (es_edge s) of None \<Rightarrow> [] | Some e \<Rightarrow> [e]) | _ \<Rightarrow> []) @ es_wire s"

text \<open>The indices \<open>ks\<close> of the vectors in the pipe and \<open>m\<close> of the hub's sample: what is fetched is not older than the head of
  the pipe, and the end of the pipe not older than the sample unless the sample is still in the channel.\<close>

definition pipe_ok :: "estream \<Rightarrow> nat \<Rightarrow> nat list \<Rightarrow> bool" where
  "pipe_ok s m ks \<longleftrightarrow>
     (case es_phase s of
        Opened c t \<Rightarrow> pipe s = map (nth (es_hist s)) ks \<and> ks \<noteq> [] \<and> (\<forall>k \<in> set ks. k < length (es_hist s)) \<and> (buffered c (es_hub s) = None \<longrightarrow> m \<le> last ks)
      | Reading c t \<Rightarrow> pipe s = map (nth (es_hist s)) ks \<and> ks \<noteq> [] \<and> (\<forall>k \<in> set ks. k < length (es_hist s)) \<and> (buffered c (es_hub s) = None \<longrightarrow> m \<le> last ks) \<and>
          (\<forall>a. axis_ok (es_hist s) (hd ks) (st_pokes (es_edge s)) (es_flight s a) (es_failed s a) (es_fetched s a) a)
      | _ \<Rightarrow> True)"

definition es_inv :: "estream \<Rightarrow> bool" where
  "es_inv s \<longleftrightarrow> es_hist s \<noteq> [] \<and> never_back (es_hist s) \<and> hub_inv (es_hub s) \<and>
     (\<forall>c. stream_chan (es_phase s) = Some c \<longrightarrow> registered c (es_hub s) \<and> (buffered c (es_hub s) = None \<or> buffered c (es_hub s) = Some (es_sample s))) \<and>
     (\<exists>m ks. m < length (es_hist s) \<and> es_hist s ! m = es_sample s \<and> pipe_ok s m ks)"


text \<open>Steps that leave history, stream and edge alone and keep what this edge's channel holds.\<close>

lemma inv_hub:
  assumes "es_inv s" and "hub_inv h"
    and "\<And>c. stream_chan (es_phase s) = Some c \<Longrightarrow> registered c h \<and> buffered c h = buffered c (es_hub s)"
  shows "es_inv (s\<lparr>es_hub := h\<rparr>)"
proof -
  have "pipe_ok (s\<lparr>es_hub := h\<rparr>) m ks = pipe_ok s m ks" for m ks
    using assms(3) by (cases "es_phase s") (simp_all add: pipe_ok_def pipe_def)
  then show ?thesis using assms unfolding es_inv_def by simp
qed

lemma inv_change:
  assumes "es_inv s" and "never_back (es_hist s @ [v])"
  shows "es_inv (s\<lparr>es_hist := es_hist s @ [v]\<rparr>)"
proof -
  let ?hs = "es_hist s"
  obtain m ks where mk: "m < length ?hs" "?hs ! m = es_sample s" "pipe_ok s m ks" using assms(1) unfolding es_inv_def by blast
  have nth: "\<forall>k \<in> set ks. k < length ?hs \<Longrightarrow> map (nth (?hs @ [v])) ks = map (nth ?hs) ks" by (simp add: nth_append)
  have ax: "axis_ok ?hs k p fl failed r a \<Longrightarrow> k < length ?hs \<Longrightarrow> axis_ok (?hs @ [v]) k p fl failed r a" for k p fl failed r a
    by (auto simp: axis_ok_def good_extend split: flight.splits)
  have "pipe_ok (s\<lparr>es_hist := ?hs @ [v]\<rparr>) m ks"
    using mk(3) nth by (cases "es_phase s") (auto simp: pipe_ok_def pipe_def less_SucI intro!: ax split: option.splits)
  then show ?thesis using assms mk unfolding es_inv_def by (auto simp: nth_append intro!: exI [of _ m])
qed

lemma inv_tick:
  assumes "es_inv s" and "run_tick (last (es_hist s)) (es_sample s, es_hub s) = (v, h)"
  shows "es_inv (s\<lparr>es_sample := v, es_hub := h\<rparr>)"
proof (cases "last (es_hist s) = es_sample s")
  case False
  let ?hs = "es_hist s"
  have vh: "v = last ?hs" "h = broadcast v (es_hub s)" using assms(2) False by (auto simp: run_tick_def)
  obtain m ks where mk: "pipe_ok s m ks" using assms(1) unfolding es_inv_def by blast
  have reg: "registered c (es_hub s)" if "stream_chan (es_phase s) = Some c" for c using assms(1) that unfolding es_inv_def by blast
  then have buf: "buffered c h = Some v" if "stream_chan (es_phase s) = Some c" for c using that by (simp add: vh(2) buffered_broadcast)
  have "pipe_ok (s\<lparr>es_sample := v, es_hub := h\<rparr>) (length ?hs - 1) ks"
    using mk buf by (cases "es_phase s") (auto simp: pipe_ok_def pipe_def)
  moreover have "?hs \<noteq> []" using assms(1) unfolding es_inv_def by blast
  ultimately show ?thesis using assms(1) reg buf hub_inv_broadcast [of "es_hub s" v] unfolding es_inv_def
    by (auto simp: vh last_conv_nth intro!: exI [of _ "length ?hs - 1"] exI [of _ ks])
next
  case True
  then have "s\<lparr>es_sample := v, es_hub := h\<rparr> = s" using assms(2) by (auto simp: run_tick_def)
  then show ?thesis using assms(1) by simp
qed

lemma inv_write:
  assumes "es_inv s" and "es_phase s = Opened c token \<or> es_phase s = Reading c token" and "buffered c (es_hub s) = Some v"
  shows "es_inv (s\<lparr>es_hub := receive c (es_hub s), es_wire := es_wire s @ [v]\<rparr>)"
proof -
  let ?hs = "es_hist s" and ?s = "s\<lparr>es_hub := receive c (es_hub s), es_wire := es_wire s @ [v]\<rparr>"
  obtain m ks where mk: "m < length ?hs" "?hs ! m = es_sample s" "pipe_ok s m ks" using assms(1) unfolding es_inv_def by blast
  have v: "v = es_sample s" using assms unfolding es_inv_def by fastforce
  have "pipe ?s = pipe s @ [v]" by (cases "es_phase s") (simp_all add: pipe_def)
  then have "pipe_ok ?s m (ks @ [m])" using mk assms(2) v by (auto simp: pipe_ok_def)
  then show ?thesis using assms(1,2) mk(1,2) hub_inv_receive [of "es_hub s" c] unfolding es_inv_def
    by (auto simp: buffered_receive)
qed

lemma inv_read:
  assumes "es_inv s" and "es_phase s = Reading c token" and "es_wire s = v # rest"
  shows "es_inv (s\<lparr>es_wire := rest, es_edge := take_event v (es_edge s)\<rparr>)"
proof -
  let ?hs = "es_hist s" and ?s = "s\<lparr>es_wire := rest, es_edge := take_event v (es_edge s)\<rparr>"
  obtain m ks where mk: "m < length ?hs" "?hs ! m = es_sample s" "pipe_ok s m ks" using assms(1) unfolding es_inv_def by blast
  have "\<exists>ks. pipe_ok ?s m ks"
  proof (cases "st_last (es_edge s)")
    case None
    then show ?thesis using mk(3) assms(2,3) by (auto simp: pipe_ok_def pipe_def take_event_def)
  next
    case (Some e)
    then obtain k k' ks' where ks: "ks = k # k' # ks'" and kv: "?hs ! k = e" "?hs ! k' = v" "k < length ?hs" "k' < length ?hs"
      using mk(3) assms(2,3) by (cases ks; cases "tl ks") (auto simp: pipe_ok_def pipe_def)
    have "axis_ok ?hs k' (st_pokes (take_event v (es_edge s))) (es_flight s a) (es_failed s a) (es_fetched s a) a" for a
    proof (cases "axis_version a v = axis_version a e")
      case True
      have "axis_ok ?hs k (st_pokes (es_edge s)) (es_flight s a) (es_failed s a) (es_fetched s a) a"
        using mk(3) assms(2) ks by (simp add: pipe_ok_def)
      moreover have "good a r k ?hs \<Longrightarrow> good a r k' ?hs" for r
        using good_shift [of ?hs a r k k'] assms(1) kv True unfolding es_inv_def by simp
      ultimately show ?thesis using True by (auto simp: axis_ok_def take_event_def Some axis_poke_changed split: flight.splits)
    qed (auto simp: axis_ok_def take_event_def Some axis_poke_changed poke_def split: option.splits)
    then have "pipe_ok ?s m (k' # ks')" using mk(3) assms(2,3) ks Some by (auto simp: pipe_ok_def pipe_def take_event_def split: if_splits)
    then show ?thesis by blast
  qed
  then show ?thesis using assms(1) mk(1,2) unfolding es_inv_def by auto
qed

text \<open>A step of a refresh loop: it is enough that it keeps every axis right.\<close>

lemma inv_refresh:
  assumes "es_inv s" and "st_last e = st_last (es_edge s)"
    and "\<And>k a. k < length (es_hist s) \<Longrightarrow> axis_ok (es_hist s) k (st_pokes (es_edge s)) (es_flight s a) (es_failed s a) (es_fetched s a) a \<Longrightarrow>
      axis_ok (es_hist s) k (st_pokes e) (fl a) (failed a) (got a) a"
  shows "es_inv (s\<lparr>es_edge := e, es_flight := fl, es_fetched := got, es_failed := failed\<rparr>)"
proof -
  let ?s = "s\<lparr>es_edge := e, es_flight := fl, es_fetched := got, es_failed := failed\<rparr>"
  have pipe: "pipe ?s = pipe s" by (cases "es_phase s") (simp_all add: pipe_def assms(2))
  have "pipe_ok s m ks \<Longrightarrow> pipe_ok ?s m ks" for m ks
    using assms(3) by (cases "es_phase s") (auto simp: pipe_ok_def pipe)
  then show ?thesis using assms(1) unfolding es_inv_def by auto
qed


lemma axis_ok_poked: "axis_poke b p = Some True \<Longrightarrow> axis_ok hs k p fl failed r a \<Longrightarrow> fl' = (if a = b then Asked else fl) \<Longrightarrow>
    axis_ok hs k (clear_poke b p) fl' failed r a"
  by (auto simp: axis_ok_def axis_clear split: if_splits)

lemma es_step_inv: "es_step s s' \<Longrightarrow> es_inv s \<Longrightarrow> es_inv s'"
proof (induction rule: es_step.induct)
  case (es_change s v)
  then show ?case by (metis inv_change)
next
  case (es_tick s v h)
  then show ?case by (metis inv_tick)
next
  case (es_other_joins s token)
  then show ?case by (intro inv_hub) (auto simp: es_inv_def other_subscribes intro: hub_inv_subscribe)
next
  case (es_other_leaves s c token)
  then show ?case by (intro inv_hub) (auto simp: es_inv_def other_cancel intro: hub_inv_cancel)
next
  case (es_other_reads s c)
  then show ?case by (intro inv_hub) (auto simp: es_inv_def buffered_receive intro: hub_inv_receive)
next
  case (es_subscribe s token c h)
  then have "hub_inv h" using hub_inv_subscribe [of "es_hub s" token] by (simp add: es_inv_def)
  then show ?case using es_subscribe new_subscriber [OF es_subscribe.hyps(2)] by (auto simp: es_inv_def pipe_ok_def)
next
  case (es_first s c token)
  let ?s = "s\<lparr>es_wire := [last (es_hist s)], es_phase := Opened c token\<rparr>"
  obtain m ks where mk: "m < length (es_hist s)" "es_hist s ! m = es_sample s" and ne: "es_hist s \<noteq> []"
    using es_first.prems unfolding es_inv_def by blast
  then have "pipe_ok ?s m [length (es_hist s) - 1]" using ne by (auto simp: pipe_ok_def pipe_def last_conv_nth)
  then show ?case using es_first mk unfolding es_inv_def by auto
next
  case (es_connect s c token)
  have "axis_ok hs k (pokeAll p) fl failed r a" for hs k p fl failed r a
    by (simp add: axis_ok_def axis_pokeAll poke_def split: option.splits)
  then show ?case using es_connect by (auto simp: es_inv_def pipe_ok_def pipe_def)
next
  case (es_write s c token v)
  then show ?case by (metis inv_write)
next
  case (es_read s c token v rest)
  then show ?case by (metis inv_read)
next
  case (es_cut s c token)
  then show ?case by (auto simp: es_inv_def pipe_ok_def intro: hub_inv_cancel)
next
  case (es_poked s b)
  have "es_inv (s\<lparr>es_edge := (es_edge s)\<lparr>st_pokes := clear_poke b (st_pokes (es_edge s))\<rparr>, es_flight := (es_flight s)(b := Asked),
      es_fetched := es_fetched s, es_failed := es_failed s\<rparr>)"
    using es_poked axis_ok_poked [OF es_poked.hyps(2)] by (intro inv_refresh) auto
  then show ?case by simp
next
  case (es_timer s b)
  have "es_inv (s\<lparr>es_edge := es_edge s, es_flight := (es_flight s)(b := Asked), es_fetched := es_fetched s, es_failed := es_failed s\<rparr>)"
    using es_timer by (intro inv_refresh) (auto simp: axis_ok_def)
  then show ?case by simp
next
  case (es_answer s b)
  have "es_inv (s\<lparr>es_edge := es_edge s, es_flight := (es_flight s)(b := Answered (axis_version b (last (es_hist s)))), es_fetched := es_fetched s, es_failed := es_failed s\<rparr>)"
    using es_answer by (intro inv_refresh) (auto simp: axis_ok_def good_now)
  then show ?case by simp
next
  case (es_apply s b r)
  have "es_inv (s\<lparr>es_edge := es_edge s, es_flight := (es_flight s)(b := Idle), es_fetched := (es_fetched s)(b := r), es_failed := (es_failed s)(b := False)\<rparr>)"
    using es_apply by (intro inv_refresh) (auto simp: axis_ok_def)
  then show ?case by simp
next
  case (es_fail s b)
  have "es_inv (s\<lparr>es_edge := es_edge s, es_flight := (es_flight s)(b := Idle), es_fetched := es_fetched s, es_failed := (es_failed s)(b := True)\<rparr>)"
    using es_fail by (intro inv_refresh) (auto simp: axis_ok_def)
  then show ?case by simp
qed

lemma es_reach_inv: "es_reach s \<Longrightarrow> es_inv s"
proof (induction rule: es_reach.induct)
  case (es_start s)
  then show ?case by (auto simp: es_inv_def never_back_def pipe_ok_def hub_reach_inv)
qed (rule es_step_inv)



text \<open>A concrete run: the stream is opened while the WAF store changes, the change is broadcast, read and fetched.\<close>

definition demo_es :: "EventsSnapshot list \<Rightarrow> EventsHub \<Rightarrow> phase \<Rightarrow> EventsSnapshot list \<Rightarrow> stream_state \<Rightarrow> flight \<Rightarrow> string \<Rightarrow> string \<Rightarrow> estream" where
  "demo_es hist hub ph wire edge fl got sample =
     \<lparr>es_hist = hist, es_sample = demo_snap sample 0, es_hub = hub, es_phase = ph, es_wire = wire, es_edge = edge,
      es_flight = (\<lambda>a. Idle)(WAF := fl), es_fetched = (\<lambda>a. Inl [])(WAF := Inl got), es_failed = (\<lambda>a. False)\<rparr>"

abbreviation demo_hub0 :: EventsHub where
  "demo_hub0 \<equiv> NewEventsHub\<lparr>eh_MaxSubscribers := 9, eh_MaxPerToken := 1, eh_RetryAfterSecs := 0\<rparr>"

definition demo_hub1 :: EventsHub where
  "demo_hub1 = snd (Subscribe ''t'' demo_hub0)"

definition demo_hub2 :: EventsHub where
  "demo_hub2 = broadcast (demo_snap ''w2'' 0) demo_hub1"

definition demo_edge1 :: stream_state where
  "demo_edge1 = \<lparr>st_last = None, st_data = [], st_pokes = pokeAll demo_pokes\<rparr>"

definition demo_edge2 :: stream_state where
  "demo_edge2 = take_event (demo_snap ''w2'' 0) (take_event (demo_snap ''w1'' 0) demo_edge1)"

definition demo_edge3 :: stream_state where
  "demo_edge3 = demo_edge2\<lparr>st_pokes := clear_poke WAF (st_pokes demo_edge2)\<rparr>"

abbreviation demo_before :: "EventsSnapshot list" where
  "demo_before \<equiv> [demo_snap ''w1'' 0]"

abbreviation demo_after :: "EventsSnapshot list" where
  "demo_after \<equiv> [demo_snap ''w1'' 0, demo_snap ''w2'' 0]"

definition demo_es_end :: estream where
  "demo_es_end = demo_es demo_after (receive 0 demo_hub2) (Reading 0 ''t'') [] demo_edge3 Idle ''w2'' ''w2''"

lemma never_back_pair: "never_back [v, w]"
proof -
  have "i = j \<or> j = k" if "i \<le> j" "j \<le> k" "k < 2" for i j k :: nat using that by linarith
  then show ?thesis unfolding never_back_def by (metis One_nat_def Suc_1 length_Cons list.size(3))
qed

lemma demo_buffered: "Subscribe ''t'' demo_hub0 = (Some 0, demo_hub1)" "buffered 0 demo_hub2 = Some (demo_snap ''w2'' 0)"
  by (simp_all add: demo_hub1_def demo_hub2_def buffered_broadcast registered_def Subscribe_def NewEventsHub_def Let_def per_token_def)

lemma demo_es_opens: "es_reach (demo_es demo_before demo_hub1 (Reading 0 ''t'') demo_before demo_edge1 Idle [] ''w1'')"
proof -
  let ?s0 = "demo_es demo_before demo_hub0 Closed [] demo_stream Idle [] ''w1''"
  let ?s1 = "demo_es demo_before demo_hub1 (Subscribed 0 ''t'') [] demo_stream Idle [] ''w1''"
  let ?s2 = "demo_es demo_before demo_hub1 (Opened 0 ''t'') demo_before demo_stream Idle [] ''w1''"
  have "es_reach ?s0" by (rule es_start) (simp_all add: demo_es_def hub_start)
  moreover have "es_step ?s0 ?s1" using es_subscribe [of ?s0 "''t''" 0 demo_hub1] demo_buffered(1) by (simp add: demo_es_def)
  moreover have "es_step ?s1 ?s2" using es_first [of ?s1 0 "''t''"] by (simp add: demo_es_def)
  moreover have "es_step ?s2 (demo_es demo_before demo_hub1 (Reading 0 ''t'') demo_before demo_edge1 Idle [] ''w1'')"
    using es_connect [of ?s2 0 "''t''"] by (simp add: demo_es_def demo_edge1_def demo_stream_def)
  ultimately show ?thesis by (meson es_next)
qed

lemma demo_es_reads: "es_reach (demo_es demo_after (receive 0 demo_hub2) (Reading 0 ''t'') [] demo_edge2 Idle [] ''w2'')"
proof -
  let ?R = "Reading 0 ''t''" and ?w1 = "demo_snap ''w1'' 0" and ?w2 = "demo_snap ''w2'' 0"
  let ?s3 = "demo_es demo_before demo_hub1 ?R [?w1] demo_edge1 Idle [] ''w1''"
  let ?s4 = "demo_es demo_after demo_hub1 ?R [?w1] demo_edge1 Idle [] ''w1''"
  let ?s5 = "demo_es demo_after demo_hub2 ?R [?w1] demo_edge1 Idle [] ''w2''"
  let ?s6 = "demo_es demo_after (receive 0 demo_hub2) ?R [?w1, ?w2] demo_edge1 Idle [] ''w2''"
  let ?s7 = "demo_es demo_after (receive 0 demo_hub2) ?R [?w2] (take_event ?w1 demo_edge1) Idle [] ''w2''"
  have "?w2 \<noteq> ?w1" by (simp add: demo_snap_def)
  then have "es_step ?s4 ?s5" using es_tick [of ?s4 ?w2 demo_hub2] by (simp add: demo_es_def run_tick_def demo_hub2_def)
  moreover have "es_step ?s3 ?s4" using es_change [of ?s3 ?w2] never_back_pair by (simp add: demo_es_def)
  moreover have "es_step ?s5 ?s6" using es_write [of ?s5 0 "''t''" ?w2] demo_buffered(2) by (simp add: demo_es_def)
  moreover have "es_step ?s6 ?s7" using es_read [of ?s6 0 "''t''" ?w1 "[?w2]"] by (simp add: demo_es_def)
  moreover have "es_step ?s7 (demo_es demo_after (receive 0 demo_hub2) ?R [] demo_edge2 Idle [] ''w2'')"
    using es_read [of ?s7 0 "''t''" ?w2 "[]"] by (simp add: demo_es_def demo_edge2_def)
  ultimately show ?thesis using demo_es_opens by (meson es_next)
qed

lemma demo_es_reach: "es_reach demo_es_end"
proof -
  let ?R = "Reading 0 ''t''"
  let ?s8 = "demo_es demo_after (receive 0 demo_hub2) ?R [] demo_edge2 Idle [] ''w2''"
  let ?s9 = "demo_es demo_after (receive 0 demo_hub2) ?R [] demo_edge3 Asked [] ''w2''"
  let ?s10 = "demo_es demo_after (receive 0 demo_hub2) ?R [] demo_edge3 (Answered (Inl ''w2'')) [] ''w2''"
  have "axis_poke WAF (st_pokes demo_edge2) = Some True" by code_simp
  then have "es_step ?s8 ?s9" using es_poked [of ?s8 WAF] by (simp add: demo_es_def demo_edge3_def)
  moreover have "es_step ?s9 ?s10" using es_answer [of ?s9 WAF] by (simp add: demo_es_def demo_snap_def)
  moreover have "es_step ?s10 demo_es_end" using es_apply [of ?s10 WAF "Inl ''w2''"] by (simp add: demo_es_def demo_es_end_def fun_upd_idem)
  ultimately show ?thesis using demo_es_reads by (meson es_next)
qed


end
