(* ===== verification/Edge_Cert_Store.thy ===== *)
theory Edge_Cert_Store
  imports Cert_Table Edge_Policy Edge_Client_Cert
begin

section \<open>The edge's public certificates\<close>

text \<open>
  The store of \<^verbatim>\<open>edge/certstore.go\<close>, its refresh in \<^verbatim>\<open>edge/refresh.go\<close> and the fetch in \<^verbatim>\<open>edge/cp.go\<close>. \<open>keypair\<close> is \<^verbatim>\<open>tls.X509KeyPair\<close>, \<open>parse\<close> the
  leaf parser of the SNI table, \<open>order\<close> the order in which Go iterates over the cache. \<open>Update\<close> is two critical sections: under
  the store's mutex it replaces the cached pair and lists the certificates, and after it has released the mutex it
  swaps that list into the SNI table.
\<close>

record cachedCert =
  ck_cert :: certificate
  ck_etag :: string

record EdgeCertStore =
  ec_table :: cert_index
  ec_cache :: "cachedCert gomap"
  ec_loaded :: bool
  ec_negTTL :: duration
  ec_slots :: int
  ec_inFlight :: int
  ec_miss :: "time gomap"

definition maxNegCacheEntries :: nat where
  "maxNegCacheEntries = 4096"

definition NewEdgeCertStore :: EdgeCertStore where
  "NewEdgeCertStore = \<lparr>ec_table = Map.empty, ec_cache = [], ec_loaded = False, ec_negTTL = 30 * second, ec_slots = 32, ec_inFlight = 0, ec_miss = []\<rparr>"

definition ConfigureOnDemand :: "duration \<Rightarrow> int \<Rightarrow> EdgeCertStore \<Rightarrow> EdgeCertStore" where
  "ConfigureOnDemand negTTL maxInFlight s =
     (let s = (if negTTL > 0 then s\<lparr>ec_negTTL := negTTL\<rparr> else s)
      in if maxInFlight > 0 then s\<lparr>ec_slots := maxInFlight\<rparr> else s)"

definition normalizeSNI :: "string \<Rightarrow> string" where
  "normalizeSNI sni = to_lower (trim_suffix sni ''.'')"

definition suppressed :: "string \<Rightarrow> time \<Rightarrow> EdgeCertStore \<Rightarrow> bool \<times> EdgeCertStore" where
  "suppressed sni now s =
     (case map_of (ec_miss s) sni of
        None \<Rightarrow> (False, s)
      | Some until \<Rightarrow> if now > until then (False, s\<lparr>ec_miss := AList.delete sni (ec_miss s)\<rparr>) else (True, s))"

definition recordMiss :: "string \<Rightarrow> time \<Rightarrow> EdgeCertStore \<Rightarrow> EdgeCertStore" where
  "recordMiss sni now s =
     (let swept = (if length (ec_miss s) \<ge> maxNegCacheEntries then filter (\<lambda>(k, until). \<not> now > until) (ec_miss s) else ec_miss s);
          s = s\<lparr>ec_miss := swept\<rparr>
      in if length swept \<ge> maxNegCacheEntries then s else s\<lparr>ec_miss := AList.update sni (now + ec_negTTL s) swept\<rparr>)"

definition clearMiss :: "string \<Rightarrow> EdgeCertStore \<Rightarrow> EdgeCertStore" where
  "clearMiss key s = s\<lparr>ec_miss := AList.delete key (ec_miss s)\<rparr>"

definition cached :: "string \<Rightarrow> EdgeCertStore \<Rightarrow> bool" where
  "cached key s \<longleftrightarrow> \<not> Option.is_none (map_of (ec_cache s) key)"

subsection \<open>Update\<close>

definition Update_cache ::
  "(string \<Rightarrow> string \<Rightarrow> certificate option) \<Rightarrow> (certificate list \<Rightarrow> certificate list) \<Rightarrow> string \<Rightarrow> string \<Rightarrow> string \<Rightarrow> string \<Rightarrow>
   EdgeCertStore \<Rightarrow> certificate list option \<times> EdgeCertStore" where
  "Update_cache pair order key chainPEM keyPEM etag s =
     (case pair chainPEM keyPEM of
        None \<Rightarrow> (None, s)
      | Some crt \<Rightarrow>
          let cache = AList.update key \<lparr>ck_cert = crt, ck_etag = etag\<rparr> (ec_cache s)
          in (Some (order (map (\<lambda>e. ck_cert (snd e)) cache)), s\<lparr>ec_cache := cache\<rparr>))"

definition Update_table :: "(string \<Rightarrow> Cert_Table.x509 option) \<Rightarrow> string \<Rightarrow> certificate list \<Rightarrow> EdgeCertStore \<Rightarrow> EdgeCertStore" where
  "Update_table parse key certs s =
     (case Cert_Set parse (ec_table s) certs of
        None \<Rightarrow> s
      | Some m \<Rightarrow> clearMiss key (s\<lparr>ec_table := m, ec_loaded := True\<rparr>))"

definition EdgeCertStore_Update ::
  "(string \<Rightarrow> string \<Rightarrow> certificate option) \<Rightarrow> (string \<Rightarrow> Cert_Table.x509 option) \<Rightarrow> (certificate list \<Rightarrow> certificate list) \<Rightarrow> string \<Rightarrow> string \<Rightarrow> string \<Rightarrow>
   string \<Rightarrow> EdgeCertStore \<Rightarrow> bool \<times> EdgeCertStore" where
  "EdgeCertStore_Update pair parse order key chainPEM keyPEM etag s =
     (case Update_cache pair order key chainPEM keyPEM etag s of
        (None, s') \<Rightarrow> (False, s')
      | (Some certs, s') \<Rightarrow> (True, Update_table parse key certs s'))"

definition EdgeCertStore_Etag :: "string \<Rightarrow> EdgeCertStore \<Rightarrow> string" where
  "EdgeCertStore_Etag key s = (case map_of (ec_cache s) key of None \<Rightarrow> [] | Some c \<Rightarrow> ck_etag c)"

definition EdgeCertStore_Keys :: "EdgeCertStore \<Rightarrow> string list" where
  "EdgeCertStore_Keys s = map fst (ec_cache s)"

definition EdgeCertStore_Len :: "EdgeCertStore \<Rightarrow> nat" where
  "EdgeCertStore_Len s = length (ec_cache s)"

subsection \<open>On-demand fetches\<close>

text \<open>What a leader of the single flight does; the others of the same name wait for it and read the table. A slot is taken
  for the time of the fetch, so \<open>onDemand\<close> runs with one more in flight; \<open>later\<close> is the time after it.\<close>

datatype ondemand_result = OdSuppressed | OdShed | OdHit | OdMiss

definition fetchOnDemand :: "(string \<Rightarrow> EdgeCertStore \<Rightarrow> EdgeCertStore) \<Rightarrow> string \<Rightarrow> time \<Rightarrow> time \<Rightarrow> EdgeCertStore \<Rightarrow> ondemand_result \<times> EdgeCertStore" where
  "fetchOnDemand onDemand sni now later s =
     (case suppressed sni now s of
        (True, s) \<Rightarrow> (OdSuppressed, s)
      | (False, s) \<Rightarrow>
          if ec_inFlight s \<ge> ec_slots s then (OdShed, s)
          else
            let s = onDemand sni (s\<lparr>ec_inFlight := ec_inFlight s + 1\<rparr>);
                (r, s) = (if cached sni s then (OdHit, clearMiss sni s) else (OdMiss, recordMiss sni later s))
            in (r, s\<lparr>ec_inFlight := ec_inFlight s - 1\<rparr>))"

definition GetCertificate ::
  "(string \<Rightarrow> EdgeCertStore \<Rightarrow> EdgeCertStore) option \<Rightarrow> (certificate \<Rightarrow> bool) \<Rightarrow> string \<Rightarrow> time \<Rightarrow> time \<Rightarrow> EdgeCertStore \<Rightarrow> certificate option \<times> EdgeCertStore" where
  "GetCertificate onDemand supports ServerName now later s =
     (case Cert_Get (ec_table s) supports ServerName of
        Some c \<Rightarrow> (Some c, s)
      | None \<Rightarrow>
          (case onDemand of
             None \<Rightarrow> (None, s)
           | Some fetch \<Rightarrow>
               if ServerName = [] then (None, s)
               else let sni = normalizeSNI ServerName in
                 if sni = [] then (None, s)
                 else let s = snd (fetchOnDemand fetch sni now later s) in (Cert_Get (ec_table s) supports ServerName, s)))"

subsection \<open>The refresh\<close>

record CertFetch =
  cf_Unchanged :: bool
  cf_ChainPEM :: string
  cf_KeyPEM :: string
  cf_Etag :: string
  cf_CAID :: string
  cf_SignerFP :: string

definition no_fetch :: CertFetch where
  "no_fetch = \<lparr>cf_Unchanged = False, cf_ChainPEM = [], cf_KeyPEM = [], cf_Etag = [], cf_CAID = [], cf_SignerFP = []\<rparr>"

text \<open>\<open>FetchCert\<close>: the reply with its two signer headers, or \<^const>\<open>None\<close> when the request failed; \<open>decodes\<close> says that the body of a 200
  was read within its limit. The first component is whether there is no error.\<close>

definition FetchCert :: "((string \<times> string) reply \<times> string \<times> string) option \<Rightarrow> bool \<Rightarrow> bool \<times> CertFetch" where
  "FetchCert resp decodes =
     (case resp of
        None \<Rightarrow> (False, no_fetch)
      | Some (rep, target, signerFP) \<Rightarrow>
          (case rep of
             NotModified _ \<Rightarrow> (True, no_fetch\<lparr>cf_Unchanged := True, cf_CAID := target, cf_SignerFP := signerFP\<rparr>)
           | OK etag body \<Rightarrow>
               if \<not> decodes then (False, no_fetch)
               else (True, \<lparr>cf_Unchanged = False, cf_ChainPEM = fst body, cf_KeyPEM = snd body, cf_Etag = etag, cf_CAID = target, cf_SignerFP = signerFP\<rparr>)
           | _ \<Rightarrow> (False, no_fetch\<lparr>cf_CAID := target, cf_SignerFP := signerFP\<rparr>)))"

text \<open>\<open>RefreshCertOnce\<close>: \<open>fetched\<close> is what the control plane client returns for the domain and the cached ETag.\<close>

definition refresh_store ::
  "(string \<Rightarrow> string \<Rightarrow> certificate option) \<Rightarrow> (string \<Rightarrow> Cert_Table.x509 option) \<Rightarrow> (certificate list \<Rightarrow> certificate list) \<Rightarrow>
   (string \<Rightarrow> string \<Rightarrow> bool \<times> CertFetch) \<Rightarrow> string \<Rightarrow> EdgeCertStore \<Rightarrow> EdgeCertStore" where
  "refresh_store pair parse order fetched domain s =
     (let (ok, res) = fetched domain (EdgeCertStore_Etag domain s) in
      if \<not> ok then s
      else if cf_Unchanged res then s
      else snd (EdgeCertStore_Update pair parse order domain (cf_ChainPEM res) (cf_KeyPEM res) (cf_Etag res) s))"

definition RefreshCertOnce ::
  "(string \<Rightarrow> string \<Rightarrow> certificate option) \<Rightarrow> (string \<Rightarrow> Cert_Table.x509 option) \<Rightarrow> (certificate list \<Rightarrow> certificate list) \<Rightarrow>
   (string \<Rightarrow> string \<Rightarrow> bool \<times> CertFetch) \<Rightarrow> string \<Rightarrow> time \<Rightarrow> EdgeCertStore \<times> RemintCoordinator option \<Rightarrow> EdgeCertStore \<times> RemintCoordinator option" where
  "RefreshCertOnce pair parse order fetched domain now st =
     (let (s, coord) = st; res = snd (fetched domain (EdgeCertStore_Etag domain s))
      in (refresh_store pair parse order fetched domain s, map_option (Observe (cf_CAID res) (cf_SignerFP res) now) coord))"

definition RefreshCertsAll ::
  "(string \<Rightarrow> string \<Rightarrow> certificate option) \<Rightarrow> (string \<Rightarrow> Cert_Table.x509 option) \<Rightarrow> (certificate list \<Rightarrow> certificate list) \<Rightarrow>
   (string \<Rightarrow> string \<Rightarrow> bool \<times> CertFetch) \<Rightarrow> string list \<Rightarrow> time \<Rightarrow> EdgeCertStore \<times> RemintCoordinator option \<Rightarrow> EdgeCertStore \<times> RemintCoordinator option" where
  "RefreshCertsAll pair parse order fetched domains now st = foldl (\<lambda>st d. RefreshCertOnce pair parse order fetched d now st) st domains"

text \<open>One tick of \<open>RunCertRefresh\<close>: the configured domains and then the cached ones, each once.\<close>

fun sweep_domains :: "string list \<Rightarrow> string list \<Rightarrow> string list" where
  "sweep_domains seen [] = []"
| "sweep_domains seen (d # ds) = (if d \<in> set seen then sweep_domains seen ds else d # sweep_domains (d # seen) ds)"

definition cert_sweep ::
  "(string \<Rightarrow> string \<Rightarrow> certificate option) \<Rightarrow> (string \<Rightarrow> Cert_Table.x509 option) \<Rightarrow> (certificate list \<Rightarrow> certificate list) \<Rightarrow>
   (string \<Rightarrow> string \<Rightarrow> bool \<times> CertFetch) \<Rightarrow> string list \<Rightarrow> time \<Rightarrow> EdgeCertStore \<times> RemintCoordinator option \<Rightarrow> EdgeCertStore \<times> RemintCoordinator option" where
  "cert_sweep pair parse order fetched domains now st =
     RefreshCertsAll pair parse order fetched (sweep_domains [] (domains @ EdgeCertStore_Keys (fst st))) now st"

subsection \<open>The table answers from the cache\<close>

text \<open>A pair that \<^verbatim>\<open>X509KeyPair\<close> accepts has a certificate block, and an iteration order is a permutation.\<close>

definition tls_ok :: "(string \<Rightarrow> string \<Rightarrow> certificate option) \<Rightarrow> (certificate list \<Rightarrow> certificate list) \<Rightarrow> bool" where
  "tls_ok pair order \<longleftrightarrow> (\<forall>c k crt. pair c k = Some crt \<longrightarrow> Certificate crt \<noteq> []) \<and> (\<forall>xs. set (order xs) = set xs)"

definition cached_certs :: "EdgeCertStore \<Rightarrow> certificate list" where
  "cached_certs s = map (\<lambda>e. ck_cert (snd e)) (ec_cache s)"

definition table_fresh :: "(string \<Rightarrow> Cert_Table.x509 option) \<Rightarrow> EdgeCertStore \<Rightarrow> bool" where
  "table_fresh parse s \<longleftrightarrow> (\<forall>c \<in> set (cached_certs s). Certificate c \<noteq> []) \<and>
     (\<exists>certs. set certs = set (cached_certs s) \<and> buildNameToCertificate parse certs = Some (ec_table s))"

lemma set_update_subset: "set (AList.update k v xs) \<subseteq> insert (k, v) (set xs)"
  by (induction xs) auto

lemma Update_fresh:
  assumes "tls_ok pair order" and "table_fresh parse s"
  shows "table_fresh parse (snd (EdgeCertStore_Update pair parse order key chainPEM keyPEM etag s))"
proof (cases "pair chainPEM keyPEM")
  case (Some crt)
  let ?cache = "AList.update key \<lparr>ck_cert = crt, ck_etag = etag\<rparr> (ec_cache s)"
  let ?certs = "map (\<lambda>e. ck_cert (snd e)) ?cache"
  have "set ?certs \<subseteq> insert crt (set (cached_certs s))" 
    using set_update_subset [of key _ "ec_cache s"] by (fastforce simp: cached_certs_def)
  then have ne: "\<forall>c \<in> set ?certs. Certificate c \<noteq> []" using assms Some by (auto simp: tls_ok_def table_fresh_def)
  have so: "set (order ?certs) = set ?certs" using assms(1) by (simp add: tls_ok_def)
  then obtain m where m: "buildNameToCertificate parse (order ?certs) = Some m"
    using build_total [of "order ?certs" parse Map.empty] ne by (auto simp: buildNameToCertificate_def)
  then show ?thesis using ne so Some
    by (auto simp: EdgeCertStore_Update_def Update_cache_def Let_def Update_table_def Cert_Set_def table_fresh_def cached_certs_def clearMiss_def)
qed (use assms in \<open>simp add: EdgeCertStore_Update_def Update_cache_def\<close>)

lemma refresh_fresh: "tls_ok pair order \<Longrightarrow> table_fresh parse s \<Longrightarrow> table_fresh parse (refresh_store pair parse order fetched domain s)"
  by (simp add: refresh_store_def Update_fresh split: prod.splits)

subsection \<open>The edge follows the control plane\<close>

text \<open>The signer headers ride every reply to an authorised caller; the fingerprint only next to a bundle id.\<close>

definition signer_headers :: "'b reply \<Rightarrow> signerGen option \<Rightarrow> string \<times> string" where
  "signer_headers rep st =
     (case rep of
        Unauthorized \<Rightarrow> ([], [])
      | BadRequest \<Rightarrow> ([], [])
      | Forbidden \<Rightarrow> ([], [])
      | _ \<Rightarrow> (let (cid, fp) = currentSignerKey st in if cid = [] then ([], []) else (cid, fp)))"

definition cp_fetch :: "Authz \<Rightarrow> CertStore \<Rightarrow> signerGen option \<Rightarrow> string \<Rightarrow> string \<Rightarrow> string \<Rightarrow> bool \<times> CertFetch" where
  "cp_fetch authz certs st token domain etag =
     (let rep = handleCert authz certs (''Bearer '' @ token) domain etag in FetchCert (Some (rep, signer_headers rep st)) True)"

text \<open>A history of refreshes of domains, each lost or answered by the control plane with the store it had then.\<close>

definition cert_poll ::
  "(string \<Rightarrow> string \<Rightarrow> certificate option) \<Rightarrow> (string \<Rightarrow> Cert_Table.x509 option) \<Rightarrow> (certificate list \<Rightarrow> certificate list) \<Rightarrow> Authz \<Rightarrow> signerGen option \<Rightarrow> string \<Rightarrow>
   EdgeCertStore \<Rightarrow> string \<times> CertStore option \<Rightarrow> EdgeCertStore" where
  "cert_poll pair parse order authz st token s poll =
     refresh_store pair parse order (case snd poll of None \<Rightarrow> (\<lambda>d e. (False, no_fetch)) | Some certs \<Rightarrow> cp_fetch authz certs st token) (fst poll) s"

definition served_pairs :: "(string \<times> CertStore option) list \<Rightarrow> (string \<times> string) set" where
  "served_pairs polls = {(ce_chainPEM e, ce_keyPEM e) | d certs e. (d, Some certs) \<in> set polls \<and> CertStore_Get certs d = Some e}"

definition cert_store_ok :: "(string \<Rightarrow> string) \<Rightarrow> CertStore \<Rightarrow> bool" where
  "cert_store_ok sha certs \<longleftrightarrow> (\<forall>e \<in> snd ` set (cs_byName certs). ce_etag e = etagOf sha (ce_chainPEM e) (ce_keyPEM e))"

definition cert_synced :: "(string \<Rightarrow> string) \<Rightarrow> (string \<Rightarrow> string \<Rightarrow> certificate option) \<Rightarrow> (string \<times> string) set \<Rightarrow> EdgeCertStore \<Rightarrow> bool" where
  "cert_synced sha pair P s \<longleftrightarrow> (\<forall>c \<in> snd ` set (ec_cache s).
     \<exists>chain key. (chain, key) \<in> P \<and> pair chain key = Some (ck_cert c) \<and> ck_etag c = etagOf sha chain key)"

lemma etagOf_string: "etagOf sha c k = etagOfString sha (c @ [CHR 0x00] @ k)"
  by (simp add: etagOf_def etagOfString_def)

lemma cert_set_ok: "cert_store_ok sha (CertStore_Set sha sans pairs s)"
proof -
  define ok where "ok = (\<lambda>m :: certEntry gomap. \<forall>e \<in> snd ` set m. ce_etag e = etagOf sha (ce_chainPEM e) (ce_keyPEM e))"
  have up: "ok (AList.update n e m)" if "ok m" "ce_etag e = etagOf sha (ce_chainPEM e) (ce_keyPEM e)" for n e m
    using that set_update_subset [of n e m] by (fastforce simp: ok_def)
  have "ok (foldl (\<lambda>m n. AList.update (to_lower n) e m) m ns)" if "ok m" "ce_etag e = etagOf sha (ce_chainPEM e) (ce_keyPEM e)" for e m ns
    using that(1) by (induction ns arbitrary: m) (simp_all add: up that(2))
  then have add: "ok (add_pair sha sans m p)" if "ok m" for m p using that by (simp add: add_pair_def Let_def split: prod.splits)
  have "ok (foldl (add_pair sha sans) m pairs)" if "ok m" for m using that by (induction pairs arbitrary: m) (simp_all add: add)
  from this [of "[]"] have "ok (foldl (add_pair sha sans) [] pairs)" by (simp add: ok_def)
  then show ?thesis by (simp add: cert_store_ok_def CertStore_Set_def Let_def ok_def)
qed

lemma CertStore_Get_mem: "CertStore_Get certs d = Some e \<Longrightarrow> e \<in> snd ` set (cs_byName certs)"
  by (force simp: CertStore_Get_def Let_def split: if_splits option.splits dest: map_of_SomeD)

lemma CertStore_Get_etag: "cert_store_ok sha certs \<Longrightarrow> CertStore_Get certs d = Some e \<Longrightarrow> ce_etag e = etagOf sha (ce_chainPEM e) (ce_keyPEM e)"
  unfolding cert_store_ok_def by (blast dest: CertStore_Get_mem)

lemma EdgeCertStore_Update_InSome:
  assumes "pair chainPEM keyPEM = Some crt"
  shows "fst (EdgeCertStore_Update pair parse order key chainPEM keyPEM etag s)"
    and "ec_cache (snd (EdgeCertStore_Update pair parse order key chainPEM keyPEM etag s)) = AList.update key \<lparr>ck_cert = crt, ck_etag = etag\<rparr> (ec_cache s)"
  using assms by (simp_all add: EdgeCertStore_Update_def Update_cache_def Update_table_def clearMiss_def Let_def split: option.split)

lemma EdgeCertStore_Update_InNone:
  "pair chainPEM keyPEM = None \<Longrightarrow> EdgeCertStore_Update pair parse order key chainPEM keyPEM etag s = (False, s)"
  by (simp add: EdgeCertStore_Update_def Update_cache_def)

lemma Update_synced:
  assumes "cert_synced sha pair P s" and "(chain, key) \<in> P" and "etag = etagOf sha chain key"
  shows "cert_synced sha pair P (snd (EdgeCertStore_Update pair parse order d chain key etag s))"
proof (cases "pair chain key")
  case (Some crt)
  show ?thesis unfolding cert_synced_def EdgeCertStore_Update_InSome(2) [of pair chain key crt, OF Some]
    using assms Some set_update_subset [of d "\<lparr>ck_cert = crt, ck_etag = etag\<rparr>" "ec_cache s"] by (fastforce simp: cert_synced_def)
qed (simp add: EdgeCertStore_Update_InNone assms(1))


lemma cp_fetch_cases:
  assumes "cert_store_ok sha certs" and "trim_space token = token" and "token \<noteq> []"
    and "etag = [] \<or> (\<exists>x. etag = etagOfString sha x)"
  obtains (failed) res where "cp_fetch authz certs st token d etag = (False, res)"
  | (same) res e where "cp_fetch authz certs st token d etag = (True, res)" "cf_Unchanged res" "CertStore_Get certs d = Some e" "etag = ce_etag e"
  | (fetched) res e where "cp_fetch authz certs st token d etag = (True, res)" "\<not> cf_Unchanged res" "CertStore_Get certs d = Some e"
      "cf_ChainPEM res = ce_chainPEM e" "cf_KeyPEM res = ce_keyPEM e" "cf_Etag res = ce_etag e"
proof (cases "Known authz token \<and> d \<noteq> [] \<and> Allowed authz token d")
  case False
  then have "handleCert authz certs (''Bearer '' @ token) d etag \<in> {Unauthorized, BadRequest, Forbidden}"
    using bearer_token [OF assms(2,3)] by (auto simp: handleCert_def)
  then show ?thesis by (intro failed) (auto simp: cp_fetch_def Let_def FetchCert_def signer_headers_def)
next
  case True
  show ?thesis
  proof (cases "CertStore_Get certs d")
    case None
    then have "handleCert authz certs (''Bearer '' @ token) d etag = NotFound"
      using True bearer_token [OF assms(2,3)] by (simp add: handleCert_def del: append_Cons append_Nil)
    then show ?thesis by (intro failed [of "snd (cp_fetch authz certs st token d etag)"]) (simp add: cp_fetch_def Let_def FetchCert_def split: prod.splits)
  next
    case (Some e)
    have h: "handleCert authz certs (''Bearer '' @ token) d etag =
        (if etag \<noteq> [] \<and> etagMatch etag (ce_etag e) then NotModified (ce_etag e) else OK (ce_etag e) (ce_chainPEM e, ce_keyPEM e))"
      using True bearer_token [OF assms(2,3)] Some by (simp add: handleCert_def del: append_Cons append_Nil)
    have ne: "ce_etag e \<noteq> []" using CertStore_Get_etag [OF assms(1) Some] by (simp add: etagOf_string)
    have m: "etag \<noteq> [] \<and> etagMatch etag (ce_etag e) \<longleftrightarrow> etag = ce_etag e"
      using assms(4)
    proof
      assume "\<exists>x. etag = etagOfString sha x"
      then show ?thesis using CertStore_Get_etag [OF assms(1) Some] by (auto simp: etagOf_string etagMatch_etag)
    qed (use ne in simp)
    obtain cid fp where hd: "signer_headers (handleCert authz certs (''Bearer '' @ token) d etag) st = (cid, fp)" by fastforce
    show ?thesis
    proof (cases "etag = ce_etag e")
      case True
      then show ?thesis using h m hd by (intro same [OF _ _ Some]) (auto simp: cp_fetch_def Let_def FetchCert_def)
    next
      case False
      then show ?thesis using h m hd by (intro fetched [OF _ _ Some]) (auto simp: cp_fetch_def Let_def FetchCert_def)
    qed
  qed
qed

lemma synced_etag:
  assumes "cert_synced sha pair P s"
  shows "EdgeCertStore_Etag d s = [] \<or> (\<exists>x. EdgeCertStore_Etag d s = etagOfString sha x)"
  using assms by (force simp: EdgeCertStore_Etag_def cert_synced_def etagOf_string split: option.split dest: map_of_SomeD)

lemma cert_poll_synced:
  assumes "tls_ok pair order" and "trim_space token = token" and "token \<noteq> []" and "list_all (\<lambda>poll. pred_option (cert_store_ok sha) (snd poll)) polls"
    and "served_pairs polls \<subseteq> P" and "cert_synced sha pair P s"
  shows "cert_synced sha pair P (foldl (cert_poll pair parse order authz st token) s polls)"
  using assms(4-6)
proof (induction polls arbitrary: s)
  case (Cons poll polls)
  obtain d certs where p: "poll = (d, certs)" by fastforce
  have sub: "served_pairs polls \<subseteq> P" using Cons.prems(2) by (auto simp: served_pairs_def)
  have "cert_synced sha pair P (cert_poll pair parse order authz st token s poll)"
  proof (cases certs)
    case None
    then show ?thesis using Cons.prems(3) p by (simp add: cert_poll_def refresh_store_def)
  next
    case (Some cs)
    have ok: "cert_store_ok sha cs" using Cons.prems(1) p Some by simp
    have "cert_synced sha pair P (refresh_store pair parse order (cp_fetch authz cs st token) d s)"
    proof (rule cp_fetch_cases [OF ok assms(2,3) synced_etag [OF Cons.prems(3), of d], of authz st d])
      fix res e
      assume fetched: "cp_fetch authz cs st token d (EdgeCertStore_Etag d s) = (True, res)" "\<not> cf_Unchanged res" "CertStore_Get cs d = Some e"
        "cf_ChainPEM res = ce_chainPEM e" "cf_KeyPEM res = ce_keyPEM e" "cf_Etag res = ce_etag e"
      have "(ce_chainPEM e, ce_keyPEM e) \<in> P" using Cons.prems(2) fetched(3) p Some by (fastforce simp: served_pairs_def)
      then show ?thesis using fetched Update_synced [OF Cons.prems(3)] CertStore_Get_etag [OF ok fetched(3)]
        by (simp add: refresh_store_def)
    qed (use Cons.prems(3) in \<open>simp_all add: refresh_store_def\<close>)
    then show ?thesis using p Some by (simp add: cert_poll_def)
  qed
  then show ?case using Cons.IH [OF _ sub] Cons.prems(1) by simp
qed simp

lemma cert_poll_fresh: "tls_ok pair order \<Longrightarrow> table_fresh parse s \<Longrightarrow> table_fresh parse (foldl (cert_poll pair parse order authz st token) s polls)"
  by (induction polls arbitrary: s) (simp_all add: cert_poll_def refresh_fresh)

lemma fresh_start: "table_fresh parse NewEdgeCertStore"
  by (auto simp: table_fresh_def NewEdgeCertStore_def cached_certs_def buildNameToCertificate_def intro: exI [of _ "[]"])

text \<open>What a fresh table answers for a name some cached certificate carries.\<close>

lemma fresh_serves:
  assumes "table_fresh parse s" and "c \<in> set (cached_certs s)" and "load_cert parse c = Some x" and "supports x" and "has_san (server_name sni) x"
  shows "\<exists>y. Cert_Get (ec_table s) supports sni = Some y \<and> supports y \<and> has_san (server_name sni) y \<and> y \<in> set (loaded parse (cached_certs s))"
proof -
  obtain certs where b: "set certs = set (cached_certs s)" "buildNameToCertificate parse certs = Some (ec_table s)"
    using assms(1) unfolding table_fresh_def by blast
  have l: "set (loaded parse xs) = {y. \<exists>c \<in> set xs. load_cert parse c = Some y}" for xs
    by (auto simp: loaded_def map_filter_def image_iff) force
  have "scan supports (server_name sni) (loaded parse certs) \<noteq> None"
    using assms(2-5) b(1) l [of certs] unfolding scan_def find_None_iff by auto
  then obtain y where y: "scan supports (server_name sni) (loaded parse certs) = Some y" by blast
  then have "supports y \<and> has_san (server_name sni) y \<and> y \<in> set (loaded parse certs)"
    by (auto simp: scan_def find_Some_iff)
  moreover have "Cert_Get (ec_table s) supports sni = Some y"
    using lookup_scan [OF b(2), of supports "server_name sni"] y
    by (cases "ec_table s (server_name sni)") (simp_all add: Cert_Get_def Let_def)
  ultimately show ?thesis using b(1) l by auto
qed


lemma refresh_caches:
  assumes "cert_synced sha pair P s" and "inj_on (\<lambda>(c, k). etagOf sha c k) P" and "cert_store_ok sha certs" and "trim_space token = token" and "token \<noteq> []"
    and "Known authz token" and "Allowed authz token d" and "d \<noteq> []" and "CertStore_Get certs d = Some e" and "(ce_chainPEM e, ce_keyPEM e) \<in> P"
    and "pair (ce_chainPEM e) (ce_keyPEM e) = Some crt"
  shows "map_of (ec_cache (refresh_store pair parse order (cp_fetch authz certs st token) d s)) d = Some \<lparr>ck_cert = crt, ck_etag = ce_etag e\<rparr>"
proof (rule cp_fetch_cases [OF assms(3-5) synced_etag [OF assms(1), of d], of authz st d])
  fix res
  assume "cp_fetch authz certs st token d (EdgeCertStore_Etag d s) = (False, res)"
  then show ?thesis using assms(6-9) bearer_token [OF assms(4,5)]
    by (auto simp: cp_fetch_def Let_def FetchCert_def handleCert_def split: prod.splits if_splits)
next
  fix res e'
  assume h: "cp_fetch authz certs st token d (EdgeCertStore_Etag d s) = (True, res)" "cf_Unchanged res" "CertStore_Get certs d = Some e'"
    "EdgeCertStore_Etag d s = ce_etag e'"
  have et: "ce_etag e = etagOf sha (ce_chainPEM e) (ce_keyPEM e)" using CertStore_Get_etag [OF assms(3,9)] .
  then have "ce_etag e \<noteq> []" by (simp add: etagOf_string)
  then obtain c where c: "map_of (ec_cache s) d = Some c" "ck_etag c = ce_etag e"
    using assms(9) h(3,4) by (auto simp: EdgeCertStore_Etag_def split: option.splits)
  then obtain ch k where ck: "(ch, k) \<in> P" "pair ch k = Some (ck_cert c)" "ck_etag c = etagOf sha ch k"
    using assms(1) map_of_SomeD [OF c(1)] unfolding cert_synced_def by force
  have "(ch, k) = (ce_chainPEM e, ce_keyPEM e)"
    by (rule inj_onD [OF assms(2) _ ck(1) assms(10)]) (use c(2) ck(3) et in simp)
  then show ?thesis using h(1,2) c ck(2) assms(11) by (cases c) (simp add: refresh_store_def)
next
  fix res e'
  assume h: "cp_fetch authz certs st token d (EdgeCertStore_Etag d s) = (True, res)" "\<not> cf_Unchanged res" "CertStore_Get certs d = Some e'"
    "cf_ChainPEM res = ce_chainPEM e'" "cf_KeyPEM res = ce_keyPEM e'" "cf_Etag res = ce_etag e'"
  then show ?thesis using assms(9,11) by (simp add: refresh_store_def EdgeCertStore_Update_InSome(2) update_conv')
qed

text \<open>C12. The edge serves the control plane's certificates: after any history of refreshes of any domains, lost, refused, answered
  with 200 or with 304, an answered refresh of an allowed domain leaves exactly the control plane's current pair
  cached for it under its ETag, and a handshake for a name that this certificate carries is answered from the SNI
  table with a certificate that carries the name and that the client supports. The hash separates the pairs served.\<close>
theorem edge_cert_follows_cp:
  assumes "tls_ok pair order" and "trim_space token = token" and "token \<noteq> []" and "Known authz token" and "Allowed authz token d" and "d \<noteq> []"
    and "list_all (\<lambda>poll. pred_option (cert_store_ok sha) (snd poll)) (polls @ [(d, Some certs)])"
    and "inj_on (\<lambda>(c, k). etagOf sha c k) (served_pairs (polls @ [(d, Some certs)]))"
    and "CertStore_Get certs d = Some e" and "pair (ce_chainPEM e) (ce_keyPEM e) = Some crt"
    and "s = foldl (cert_poll pair parse order authz st token) NewEdgeCertStore (polls @ [(d, Some certs)])"
  shows "map_of (ec_cache s) d = Some \<lparr>ck_cert = crt, ck_etag = ce_etag e\<rparr> \<and>
    (\<forall>x supports sni. load_cert parse crt = Some x \<and> supports x \<and> has_san (server_name sni) x \<longrightarrow>
       (\<exists>y. Cert_Get (ec_table s) supports sni = Some y \<and> supports y \<and> has_san (server_name sni) y))"
proof -
  let ?s = "foldl (cert_poll pair parse order authz st token) NewEdgeCertStore polls" and ?P = "served_pairs (polls @ [(d, Some certs)])"
  have "served_pairs polls \<subseteq> ?P" by (auto simp: served_pairs_def)
  then have sync: "cert_synced sha pair ?P ?s"
    using cert_poll_synced [OF assms(1-3), where polls = polls and P = ?P and s = NewEdgeCertStore and sha = sha] assms(7)
    by (simp add: cert_synced_def NewEdgeCertStore_def)
  have ok: "cert_store_ok sha certs" using assms(7) by simp
  have mem: "(ce_chainPEM e, ce_keyPEM e) \<in> ?P" using assms(9) by (fastforce simp: served_pairs_def)
  have s: "s = refresh_store pair parse order (cp_fetch authz certs st token) d ?s" by (simp add: assms(11) cert_poll_def)
  have cache: "map_of (ec_cache s) d = Some \<lparr>ck_cert = crt, ck_etag = ce_etag e\<rparr>"
    unfolding s by (rule refresh_caches [OF sync assms(8) ok assms(2-6,9) mem assms(10)])
  have fresh: "table_fresh parse s" unfolding assms(11) by (intro cert_poll_fresh assms(1) fresh_start)
  have "crt \<in> set (cached_certs s)" using map_of_SomeD [OF cache] by (force simp: cached_certs_def)
  from fresh_serves [OF fresh this] cache show ?thesis by metis
qed


definition demo_pair :: "string \<Rightarrow> string \<Rightarrow> certificate option" where
  "demo_pair c k = (if k = [] then None else Some (demo_cert [c]))"

definition demo_cp_certs :: CertStore where
  "demo_cp_certs = CertStore_Set (\<lambda>s. s) (\<lambda>c. [c]) [(''a.com'', ''k'')] (NewCertStore (\<lambda>s. s))"

lemma demo_tls_ok: "tls_ok demo_pair (\<lambda>xs. xs)"
  by (simp add: tls_ok_def demo_pair_def demo_cert_def)

lemma demo_cp_entry: "CertStore_Get demo_cp_certs ''a.com'' = Some \<lparr>ce_chainPEM = ''a.com'', ce_keyPEM = ''k'', ce_etag = etagOf (\<lambda>s. s) ''a.com'' ''k''\<rparr>"
proof -
  have "to_lower ''a.com'' = ''a.com''" "to_lower (trim_suffix ''a.com'' ''.'') = ''a.com''" by code_simp+
  then show ?thesis by (simp add: demo_cp_certs_def CertStore_Set_def CertStore_Get_def add_pair_def Let_def)
qed

theorem edge_cert_follows_cp_witness:
  "Cert_Get (ec_table (foldl (cert_poll demo_pair (\<lambda>d. None) (\<lambda>xs. xs) demo_authz None ''tok'') NewEdgeCertStore
     ([(''a.com'', Some demo_cp_certs), (''a.com'', None)] @ [(''a.com'', Some demo_cp_certs)]))) (\<lambda>c. True) ''A.com.'' \<noteq> None"
proof -
  let ?polls = "[(''a.com'', Some demo_cp_certs), (''a.com'', None)]"
  let ?s = "foldl (cert_poll demo_pair (\<lambda>d. None) (\<lambda>xs. xs) demo_authz None ''tok'') NewEdgeCertStore (?polls @ [(''a.com'', Some demo_cp_certs)])"
  have ok: "list_all (\<lambda>poll. pred_option (cert_store_ok (\<lambda>s. s)) (snd poll)) (?polls @ [(''a.com'', Some demo_cp_certs)])"
    by (simp add: demo_cp_certs_def cert_set_ok)
  have P: "served_pairs (?polls @ [(''a.com'', Some demo_cp_certs)]) \<subseteq> {(''a.com'', ''k'')}" by (auto simp: served_pairs_def demo_cp_entry)
  have inj: "inj_on (\<lambda>(c, k). etagOf (\<lambda>s. s) c k) (served_pairs (?polls @ [(''a.com'', Some demo_cp_certs)]))"
    using inj_on_subset [OF _ P] by simp
  have pair: "demo_pair (ce_chainPEM \<lparr>ce_chainPEM = ''a.com'', ce_keyPEM = ''k'', ce_etag = etagOf (\<lambda>s. s) ''a.com'' ''k''\<rparr>)
      (ce_keyPEM \<lparr>ce_chainPEM = ''a.com'', ce_keyPEM = ''k'', ce_etag = etagOf (\<lambda>s. s) ''a.com'' ''k''\<rparr>) = Some (demo_cert [''a.com''])"
    by (simp add: demo_pair_def)
  have allowed: "Allowed demo_authz ''tok'' ''a.com''" by code_simp
  have "\<forall>x supports sni. load_cert (\<lambda>d. None) (demo_cert [''a.com'']) = Some x \<and> supports x \<and> has_san (server_name sni) x \<longrightarrow>
      (\<exists>y. Cert_Get (ec_table ?s) supports sni = Some y \<and> supports y \<and> has_san (server_name sni) y)"
    by (rule conjunct2 [OF edge_cert_follows_cp [OF demo_tls_ok demo_known(2) _ demo_known(1) allowed _ ok inj demo_cp_entry pair refl]]) simp_all
  moreover have "load_cert (\<lambda>d. None) (demo_cert [''a.com'']) = Some (demo_cert [''a.com''])" "has_san (server_name ''A.com.'') (demo_cert [''a.com''])"
    by code_simp+
  ultimately show ?thesis by (metis option.distinct(1))
qed


subsection \<open>Two updates at once\<close>

lemma Cert_Get_none:
  assumes "\<And>n. P n \<Longrightarrow> (case m n of None \<Rightarrow> None | Some cs \<Rightarrow> findSupportCert supports cs) = None" and "P (server_name sni)"
    and "pred_option P (wildcard_name (server_name sni))"
  shows "Cert_Get m supports sni = None"
proof -
  have "(case wildcard_name (server_name sni) of None \<Rightarrow> None
      | Some w \<Rightarrow> (case m w of None \<Rightarrow> None | Some cs \<Rightarrow> findSupportCert supports cs)) = None"
    using assms(1,3) by (cases "wildcard_name (server_name sni)") auto
  then show ?thesis using assms(1) [OF assms(2)] by (cases "m (server_name sni)") (simp_all add: Cert_Get_def Let_def)
qed

lemma scan_none: "set cs \<subseteq> {c} \<Longrightarrow> \<not> has_san n c \<Longrightarrow> scan supports n cs = None"
  by (auto simp: scan_def find_None_iff)

text \<open>A handshake whose on-demand fetch is answered with 304 gets what the table already had.\<close>

lemma unchanged_handshake:
  assumes "map_of (ec_miss s) (normalizeSNI sni) = None" and "cached (normalizeSNI sni) s" and "fetched (normalizeSNI sni) (EdgeCertStore_Etag (normalizeSNI sni) s) = (True, res)"
    and "cf_Unchanged res" and "Cert_Get (ec_table s) supports sni = None"
  shows "fst (GetCertificate (Some (refresh_store pair parse order fetched)) supports sni now later s) = None"
proof -
  let ?b = "normalizeSNI sni" and ?f = "refresh_store pair parse order fetched" and ?s = "s\<lparr>ec_inFlight := ec_inFlight s + 1\<rparr>"
  have "EdgeCertStore_Etag ?b ?s = EdgeCertStore_Etag ?b s" by (simp add: EdgeCertStore_Etag_def)
  then have f: "?f ?b ?s = ?s" using assms(3,4) by (simp add: refresh_store_def)
  have "cached ?b ?s" using assms(2) by (simp add: cached_def)
  then have "ec_table (snd (fetchOnDemand ?f ?b now later s)) = ec_table s"
    using assms(1) by (simp add: fetchOnDemand_def suppressed_def Let_def f clearMiss_def)
  then show ?thesis using assms(5) by (simp add: GetCertificate_def Let_def)
qed

text \<open>C34. Two updates whose critical sections interleave lose a certificate: when the update of a second domain runs between
  the two sections of the first one, the older list is installed last. The second domain is then cached but no
  handshake for it finds its certificate, although one did just before; and as its refresh is answered with 304
  from now on, a handshake that fetches on demand does not bring it back.\<close>
theorem concurrent_updates_lose_cert:
  assumes "tls_ok pair order" and "pair ca ka = Some A" and "pair cb kb = Some B" and "a \<noteq> b" and "normalizeSNI sni = b"
    and "load_cert parse A = Some A'" and "\<not> has_san (server_name sni) A'" and "pred_option (\<lambda>w. \<not> has_san w A') (wildcard_name (server_name sni))"
    and "load_cert parse B = Some B'" and "has_san (server_name sni) B'" and "supports B'"
    and "Update_cache pair order a ca ka ea NewEdgeCertStore = (Some la, s1)" and "Update_cache pair order b cb kb eb s1 = (Some lb, s2)"
    and "s3 = Update_table parse b lb s2" and "s4 = Update_table parse a la s3" and "fetched b eb = (True, no_fetch\<lparr>cf_Unchanged := True\<rparr>)"
  shows "(\<exists>y. Cert_Get (ec_table s3) supports sni = Some y) \<and> cached b s4 \<and>
    fst (GetCertificate (Some (refresh_store pair parse order fetched)) supports sni now later s4) = None"
proof -
  have ne: "Certificate A \<noteq> []" "Certificate B \<noteq> []" and so: "\<And>xs. set (order xs) = set xs" using assms(1-3) by (auto simp: tls_ok_def)
  have la: "la = order [A]" and s1: "s1 = NewEdgeCertStore\<lparr>ec_cache := [(a, \<lparr>ck_cert = A, ck_etag = ea\<rparr>)]\<rparr>"
    using assms(2,12) by (auto simp: Update_cache_def Let_def NewEdgeCertStore_def)
  have lb: "lb = order [A, B]" and s2: "s2 = NewEdgeCertStore\<lparr>ec_cache := [(a, \<lparr>ck_cert = A, ck_etag = ea\<rparr>), (b, \<lparr>ck_cert = B, ck_etag = eb\<rparr>)]\<rparr>"
    using assms(3,4,13) by (auto simp: Update_cache_def Let_def s1)
  obtain m where m: "buildNameToCertificate parse lb = Some m"
    using build_total [of lb parse Map.empty] ne so by (auto simp: lb buildNameToCertificate_def)
  obtain m' where m': "buildNameToCertificate parse la = Some m'"
    using build_total [of la parse Map.empty] ne so by (auto simp: la buildNameToCertificate_def)
  have t3: "s3 = s2\<lparr>ec_table := m, ec_loaded := True\<rparr>" using m by (simp add: assms(14) Update_table_def Cert_Set_def clearMiss_def s2 NewEdgeCertStore_def)
  have t4: "s4 = s2\<lparr>ec_table := m', ec_loaded := True\<rparr>" using m' by (simp add: assms(15) t3 Update_table_def Cert_Set_def clearMiss_def s2 NewEdgeCertStore_def)
  have "set lb = {A, B}" by (simp add: lb so)
  then have fresh: "table_fresh parse s3" unfolding table_fresh_def
    using m ne by (intro conjI exI [of _ lb]) (simp_all add: t3 s2 cached_certs_def)
  have "B \<in> set (cached_certs s3)" by (simp add: t3 s2 cached_certs_def)
  from fresh_serves [OF fresh this assms(9), where supports = supports] assms(10,11) have served: "\<exists>y. Cert_Get (ec_table s3) supports sni = Some y" by blast
  have "set (loaded parse la) \<subseteq> {A'}" using so [of "[A]"] assms(6) by (auto simp: la loaded_def map_filter_def)
  then have "(case m' n of None \<Rightarrow> None | Some cs \<Rightarrow> findSupportCert supports cs) = None" if "\<not> has_san n A'" for n
    using lookup_scan [OF m', of supports n] scan_none [of "loaded parse la" A' n supports] that by simp
  then have none: "Cert_Get m' supports sni = None"
    by (rule Cert_Get_none [where P = "\<lambda>n. \<not> has_san n A'"]) (use assms(7,8) in auto)
  have held: "map_of (ec_cache s4) b = Some \<lparr>ck_cert = B, ck_etag = eb\<rparr>" using assms(4) by (simp add: t4 s2)
  then have c: "cached b s4" by (simp add: cached_def)
  have "fst (GetCertificate (Some (refresh_store pair parse order fetched)) supports sni now later s4) = None"
    by (rule unchanged_handshake [where res = "no_fetch\<lparr>cf_Unchanged := True\<rparr>"])
      (use assms(5,16) held c none in \<open>simp_all add: EdgeCertStore_Etag_def t4 s2 NewEdgeCertStore_def\<close>)
  then show ?thesis using served c by blast
qed


theorem concurrent_updates_lose_cert_witness:
  "\<exists>la lb s1 s2. Update_cache demo_pair (\<lambda>xs. xs) ''a.com'' ''a.com'' ''k'' ''e1'' NewEdgeCertStore = (Some la, s1) \<and>
     Update_cache demo_pair (\<lambda>xs. xs) ''b.com'' ''b.com'' ''k'' ''e2'' s1 = (Some lb, s2) \<and>
     cached ''b.com'' (Update_table (\<lambda>d. None) ''a.com'' la (Update_table (\<lambda>d. None) ''b.com'' lb s2)) \<and>
     fst (GetCertificate (Some (refresh_store demo_pair (\<lambda>d. None) (\<lambda>xs. xs) (\<lambda>d e. (True, no_fetch\<lparr>cf_Unchanged := True\<rparr>)))) (\<lambda>c. True) ''b.com'' 7 8
       (Update_table (\<lambda>d. None) ''a.com'' la (Update_table (\<lambda>d. None) ''b.com'' lb s2))) = None"
proof -
  let ?A = "demo_cert [''a.com'']" and ?B = "demo_cert [''b.com'']"
  obtain la s1 where 1: "Update_cache demo_pair (\<lambda>xs. xs) ''a.com'' ''a.com'' ''k'' ''e1'' NewEdgeCertStore = (Some la, s1)"
    by (simp add: Update_cache_def demo_pair_def Let_def)
  obtain lb s2 where 2: "Update_cache demo_pair (\<lambda>xs. xs) ''b.com'' ''b.com'' ''k'' ''e2'' s1 = (Some lb, s2)"
    by (simp add: Update_cache_def demo_pair_def Let_def)
  have p: "demo_pair ''a.com'' ''k'' = Some ?A" "demo_pair ''b.com'' ''k'' = Some ?B" by (simp_all add: demo_pair_def)
  have l: "load_cert (\<lambda>d. None) ?A = Some ?A" "load_cert (\<lambda>d. None) ?B = Some ?B" by code_simp+
  have n: "normalizeSNI ''b.com'' = ''b.com''" "\<not> has_san (server_name ''b.com'') ?A" "has_san (server_name ''b.com'') ?B"
    "wildcard_name (server_name ''b.com'') = Some ''*.com''" by code_simp+
  have w: "pred_option (\<lambda>w. \<not> has_san w ?A) (wildcard_name (server_name ''b.com''))" by (simp add: n(4) has_san_def demo_cert_def)
  have ab: "''a.com'' \<noteq> ''b.com''" by simp
  show ?thesis
    using 1 2 concurrent_updates_lose_cert [OF demo_tls_ok p ab n(1) l(1) n(2) w l(2) n(3), where supports = "\<lambda>c. True" and now = 7 and later = 8,
        OF _ 1 2 refl refl, of "\<lambda>d e. (True, no_fetch\<lparr>cf_Unchanged := True\<rparr>)"] by blast
qed

subsection \<open>The guards of on-demand fetches\<close>

inductive edge_store_reach ::
  "(string \<Rightarrow> string \<Rightarrow> certificate option) \<Rightarrow> (string \<Rightarrow> Cert_Table.x509 option) \<Rightarrow> EdgeCertStore \<Rightarrow> bool" for pair parse where
  store_new: "edge_store_reach pair parse (ConfigureOnDemand negTTL maxInFlight NewEdgeCertStore)"
| store_refresh: "edge_store_reach pair parse s \<Longrightarrow> edge_store_reach pair parse (refresh_store pair parse order fetched domain s)"
| store_handshake: "edge_store_reach pair parse s \<Longrightarrow>
    edge_store_reach pair parse (snd (GetCertificate (Some (refresh_store pair parse order fetched)) supports ServerName now later s))"

definition miss_inv :: "EdgeCertStore \<Rightarrow> bool" where
  "miss_inv s \<longleftrightarrow> length (ec_miss s) \<le> maxNegCacheEntries \<and> distinct (map fst (ec_miss s)) \<and> 0 < ec_negTTL s"

lemma length_update: "length (AList.update k v xs) \<le> Suc (length xs)"
  by (induction xs) auto

lemma miss_inv_clear: "miss_inv s \<Longrightarrow> miss_inv (clearMiss key s)"
  using AList.length_delete_le [of key "ec_miss s"] by (auto simp: miss_inv_def clearMiss_def AList.distinct_delete)

lemma miss_inv_record: "miss_inv s \<Longrightarrow> miss_inv (recordMiss sni now s)"
proof -
  assume inv: "miss_inv s"
  define sw where "sw = (if length (ec_miss s) \<ge> maxNegCacheEntries then filter (\<lambda>(k, until). \<not> now > until) (ec_miss s) else ec_miss s)"
  have sw: "length sw \<le> maxNegCacheEntries" "distinct (map fst sw)"
    using inv by (auto simp: sw_def miss_inv_def distinct_map_filter intro: order_trans [OF length_filter_le])
  have r: "recordMiss sni now s = (if length sw \<ge> maxNegCacheEntries then s\<lparr>ec_miss := sw\<rparr> else s\<lparr>ec_miss := AList.update sni (now + ec_negTTL s) sw\<rparr>)"
    by (simp add: recordMiss_def Let_def flip: sw_def)
  have "length (AList.update sni (now + ec_negTTL s) sw) \<le> Suc (length sw)" by (rule length_update)
  then show ?thesis using inv sw unfolding r by (simp add: miss_inv_def distinct_update)
qed

lemma miss_inv_refresh: "miss_inv s \<Longrightarrow> miss_inv (refresh_store pair parse order fetched domain s)"
proof -
  assume inv: "miss_inv s"
  have eq: "miss_inv (s\<lparr>ec_cache := c, ec_table := t, ec_loaded := b\<rparr>)" "miss_inv (s\<lparr>ec_cache := c\<rparr>)" for c t b using inv by (simp_all add: miss_inv_def)
  show ?thesis using inv eq
    by (auto simp: refresh_store_def EdgeCertStore_Update_def Update_cache_def Update_table_def Let_def intro: miss_inv_clear split: prod.split option.split)
qed

lemma miss_inv_fetch: "miss_inv s \<Longrightarrow> miss_inv (snd (fetchOnDemand (refresh_store pair parse order fetched) sni now later s))"
proof -
  assume inv: "miss_inv s"
  have fl: "miss_inv (s\<lparr>ec_inFlight := n\<rparr>) = miss_inv s" for n s by (simp add: miss_inv_def)
  have del: "miss_inv (s\<lparr>ec_miss := AList.delete sni (ec_miss s)\<rparr>)" using miss_inv_clear [OF inv] by (simp add: clearMiss_def)
  have body: "miss_inv (snd (let s = refresh_store pair parse order fetched sni (s'\<lparr>ec_inFlight := n\<rparr>);
      (r, s) = (if cached sni s then (OdHit, clearMiss sni s) else (OdMiss, recordMiss sni later s)) in (r, s\<lparr>ec_inFlight := ec_inFlight s - 1\<rparr>)))"
    if "miss_inv s'" for s' n
    using miss_inv_refresh [of "s'\<lparr>ec_inFlight := n\<rparr>"] that by (auto simp: Let_def fl intro: miss_inv_clear miss_inv_record)
  show ?thesis using inv del body unfolding fetchOnDemand_def suppressed_def
    by (simp split: option.split)
qed

lemma edge_store_inv: "edge_store_reach pair parse s \<Longrightarrow> miss_inv s"
proof (induction rule: edge_store_reach.induct)
  case (store_new negTTL maxInFlight)
  show ?case by (simp add: miss_inv_def ConfigureOnDemand_def NewEdgeCertStore_def maxNegCacheEntries_def Let_def)
next
  case (store_handshake s order fetched supports ServerName now later)
  then show ?case by (auto simp: GetCertificate_def Let_def miss_inv_fetch split: option.split)
qed (rule miss_inv_refresh)

text \<open>A missing name cannot be used to hammer the control plane: in every state that refreshes and handshakes reach, the
  negative cache holds at most 4096 names, once each; a name that it holds and whose window has not passed is answered
  at once, whatever a fetch would do and with the store untouched; and a fetch on demand that finds nothing opens a
  window of the configured time for its name unless the cache is full of unexpired names.\<close>
theorem on_demand_guarded:
  assumes "edge_store_reach pair parse s"
  shows "length (ec_miss s) \<le> 4096 \<and> distinct (map fst (ec_miss s)) \<and>
    (map_of (ec_miss s) (normalizeSNI sni) = Some until \<and> now \<le> until \<and> Cert_Get (ec_table s) supports sni = None \<longrightarrow>
       GetCertificate (Some onDemand) supports sni now later s = (None, s)) \<and>
    (let after = recordMiss sni' later s in 0 < ec_negTTL s \<and>
       (map_of (ec_miss after) sni' = Some (later + ec_negTTL s) \<or> length (filter (\<lambda>(k, until). later \<le> until) (ec_miss s)) = 4096))"
proof -
  have inv: "miss_inv s" using assms by (rule edge_store_inv)
  have sup: "map_of (ec_miss s) (normalizeSNI sni) = Some until \<and> now \<le> until \<and> Cert_Get (ec_table s) supports sni = None \<longrightarrow>
      GetCertificate (Some onDemand) supports sni now later s = (None, s)"
    by (simp add: GetCertificate_def Let_def fetchOnDemand_def suppressed_def)
  have "map_of (ec_miss (recordMiss sni' later s)) sni' = Some (later + ec_negTTL s) \<or> length (filter (\<lambda>(k, until). later \<le> until) (ec_miss s)) = 4096"
    using inv le_trans [OF length_filter_le [of "\<lambda>(k, until). later \<le> until" "ec_miss s"], of 4096]
    by (auto simp: recordMiss_def Let_def miss_inv_def maxNegCacheEntries_def not_less update_conv')
  then show ?thesis using inv sup by (simp add: miss_inv_def maxNegCacheEntries_def Let_def)
qed

theorem on_demand_guarded_witness:
  "let s = snd (GetCertificate (Some (refresh_store demo_pair (\<lambda>d. None) (\<lambda>xs. xs) (\<lambda>d e. (False, no_fetch)))) (\<lambda>c. True) ''x.com.'' 5 6 (ConfigureOnDemand 10 1 NewEdgeCertStore))
   in ec_miss s = [(''x.com'', 16)] \<and> GetCertificate (Some (\<lambda>sni s. undefined)) (\<lambda>c. True) ''X.com'' 16 17 s = (None, s)"
proof -
  let ?s = "snd (GetCertificate (Some (refresh_store demo_pair (\<lambda>d. None) (\<lambda>xs. xs) (\<lambda>d e. (False, no_fetch)))) (\<lambda>c. True) ''x.com.'' 5 6 (ConfigureOnDemand 10 1 NewEdgeCertStore))"
  have r: "edge_store_reach demo_pair (\<lambda>d. None) ?s" by (intro store_handshake store_new)
  have m: "ec_miss ?s = [(''x.com'', 16)]" by code_simp
  have "Cert_Get (ec_table ?s) (\<lambda>c. True) ''X.com'' = None" "normalizeSNI ''X.com'' = ''x.com''" by code_simp+
  then show ?thesis unfolding Let_def using on_demand_guarded [OF r, of "''X.com''" 16 16 "\<lambda>c. True" "\<lambda>sni s. undefined" 17] m by simp
qed

end
