(* ===== verification/Cache_Rules.thy ===== *)
theory Cache_Rules
  imports Edge_Policy
begin

section \<open>Cache overrides\<close>

text \<open>
  The override sets of \<^verbatim>\<open>cacherule/ruleset.go\<close> and the two hooks of \<^verbatim>\<open>edge/cache_override.go\<close> that the response cache consults: whether a
  request may use the cache at all, and which caching policy is forced on a fill.

  \<open>parseDur\<close> is \<^verbatim>\<open>time.ParseDuration\<close>, \<open>newPredicate\<close> compiles a filter under the set's options and \<open>eval\<close> evaluates it on the request;
  \<^const>\<open>None\<close> is an evaluation error. Decisions return what they observed for the metrics next to their result.
\<close>

record Override =
  ov_ID :: string
  ov_Action :: string
  ov_Filter :: string
  ov_TTL :: string
  ov_Policy :: string
  ov_StaleWhileRevalidate :: string
  ov_StaleIfError :: string
  ov_Status :: "int list"
  ov_Mode :: string
  ov_Priority :: int

datatype cache_action = ActionCache | ActionBypass

datatype cache_mode = Enforce | Shadow

datatype OverrideMode = OverrideBalanced | OverrideConservative | OverrideAggressive

datatype cache_result = ResultApplied | ResultShadow | ResultError

datatype cache_error =
    CacheIDRequired
  | CacheIDTooLong
  | CacheIDChar char
  | UnknownAction string
  | UnknownMode string
  | NotForBypass
  | BadFilter
  | TTLRequired
  | BadTTL
  | TTLTooShort
  | UnknownPolicy string
  | BadStale string
  | NegativeStale string
  | BadStatus int
  | AtIndex nat "cache_error list"
  | Duplicate nat

record forced =
  fo_TTL :: duration
  fo_StaleWhileRevalidate :: duration
  fo_StaleIfError :: duration
  fo_Mode :: OverrideMode

record 'p compiledOverride =
  co_id :: string
  co_action :: cache_action
  co_filter :: "'p option"
  co_mode :: cache_mode
  co_priority :: int
  co_observe :: "(string \<times> string) option"
  co_force :: forced
  co_status :: "int list option"

record 'p ruleset =
  rs_bypass :: "'p compiledOverride list"
  rs_force :: "'p compiledOverride list"
  rs_source :: "Override list"
  rs_needsFilter :: bool

record 'p Ruleset =
  ru_set :: "'p ruleset option"
  ru_NamePrefix :: string
  ru_observed :: bool
  ru_FilterCostLimit :: nat
  ru_FilterDisableMacros :: bool

record ('p, 'r) cache_lib =
  parseDur :: "string \<Rightarrow> duration option"
  newPredicate :: "string \<Rightarrow> nat option \<Rightarrow> bool \<Rightarrow> 'p option"
  eval :: "'p \<Rightarrow> 'r \<Rightarrow> bool option"

subsection \<open>Compilation\<close>

definition minTTL :: duration where
  "minTTL = second"

definition defaultPriority :: int where
  "defaultPriority = 100"

definition cache_validateID :: "string \<Rightarrow> cache_error list" where
  "cache_validateID i =
     (if i = [] then [CacheIDRequired]
      else if length i > maxIDLen then [CacheIDTooLong]
      else case find (\<lambda>c. \<not> id_char c) i of None \<Rightarrow> [] | Some c \<Rightarrow> [CacheIDChar c])"

definition parseStaleWindow :: "('p, 'r) cache_lib \<Rightarrow> string \<Rightarrow> string \<Rightarrow> cache_error list \<times> duration" where
  "parseStaleWindow lib field raw =
     (if trim_space raw = [] then ([], 0)
      else case parseDur lib raw of
        None \<Rightarrow> ([BadStale field], 0)
      | Some d \<Rightarrow> if d < 0 then ([NegativeStale field], 0) else ([], d))"

definition force_ttl :: "('p, 'r) cache_lib \<Rightarrow> string \<Rightarrow> cache_error list \<times> duration" where
  "force_ttl lib raw =
     (if trim_space raw = [] then ([TTLRequired], 0)
      else case parseDur lib raw of
        None \<Rightarrow> ([BadTTL], 0)
      | Some d \<Rightarrow> if d < minTTL then ([TTLTooShort], 0) else ([], d))"

definition force_policy :: "string \<Rightarrow> cache_error list \<times> OverrideMode" where
  "force_policy policy =
     (if policy = [] \<or> policy = ''balanced'' then ([], OverrideBalanced)
      else if policy = ''conservative'' then ([], OverrideConservative)
      else if policy = ''aggressive'' then ([], OverrideAggressive)
      else ([UnknownPolicy policy], OverrideBalanced))"

definition valid_status :: "int \<Rightarrow> bool" where
  "valid_status st \<longleftrightarrow> \<not> (st < 100 \<or> st > 599)"

definition compileForce :: "('p, 'r) cache_lib \<Rightarrow> Override \<Rightarrow> cache_error list \<times> forced \<times> int list option" where
  "compileForce lib ov =
     (let (e1, ttl) = force_ttl lib (ov_TTL ov);
          (e2, omode) = force_policy (ov_Policy ov);
          (e3, swr) = parseStaleWindow lib ''stale_while_revalidate'' (ov_StaleWhileRevalidate ov);
          (e4, sie) = parseStaleWindow lib ''stale_if_error'' (ov_StaleIfError ov);
          e5 = map BadStatus (filter (\<lambda>st. \<not> valid_status st) (ov_Status ov));
          statuses = (if ov_Status ov = [] then None else Some (filter valid_status (ov_Status ov)))
      in (e1 @ e2 @ e3 @ e4 @ e5, \<lparr>fo_TTL = ttl, fo_StaleWhileRevalidate = swr, fo_StaleIfError = sie, fo_Mode = omode\<rparr>, statuses))"

definition no_force :: forced where
  "no_force = \<lparr>fo_TTL = 0, fo_StaleWhileRevalidate = 0, fo_StaleIfError = 0, fo_Mode = OverrideBalanced\<rparr>"

definition filterOptions_cost :: "'p Ruleset \<Rightarrow> nat option" where
  "filterOptions_cost rs = (if ru_FilterCostLimit rs > 0 then Some (ru_FilterCostLimit rs) else None)"

definition override_action :: "string \<Rightarrow> cache_error list \<times> cache_action \<times> string" where
  "override_action a =
     (if a = [] \<or> a = ''cache'' then ([], ActionCache, ''cache'')
      else if a = ''bypass'' then ([], ActionBypass, a)
      else ([UnknownAction a], ActionCache, a))"

definition override_mode :: "string \<Rightarrow> cache_error list \<times> cache_mode \<times> string" where
  "override_mode m =
     (if m = [] \<or> m = ''enforce'' then ([], Enforce, ''enforce'')
      else if m = ''shadow'' then ([], Shadow, m)
      else ([UnknownMode m], Enforce, m))"

definition compile_override ::
  "('p, 'r) cache_lib \<Rightarrow> 'p Ruleset \<Rightarrow> Override \<Rightarrow> cache_error list + 'p compiledOverride \<times> Override" where
  "compile_override lib rs ov =
     (let e0 = cache_validateID (ov_ID ov);
          (e1, act, action) = override_action (ov_Action ov);
          (e2, m, modeName) = override_mode (ov_Mode ov);
          ov = ov\<lparr>ov_Action := action, ov_Mode := modeName, ov_Priority := (if ov_Priority ov = 0 then defaultPriority else ov_Priority ov)\<rparr>;
          (e3, fo, statuses) =
            (if act = ActionCache then compileForce lib ov
             else (if trim_space (ov_TTL ov) \<noteq> [] \<or> trim_space (ov_Policy ov) \<noteq> [] \<or> trim_space (ov_StaleWhileRevalidate ov) \<noteq> [] \<or>
                      trim_space (ov_StaleIfError ov) \<noteq> [] \<or> ov_Status ov \<noteq> [] then [NotForBypass] else [], no_force, None));
          ov = ov\<lparr>ov_Filter := trim_space (ov_Filter ov)\<rparr>;
          pred = (if ov_Filter ov = [] then None else newPredicate lib (ov_Filter ov) (filterOptions_cost rs) (ru_FilterDisableMacros rs));
          e4 = (if ov_Filter ov \<noteq> [] \<and> Option.is_none pred then [BadFilter] else []);
          errs = e0 @ e1 @ e2 @ e3 @ e4
      in if errs \<noteq> [] then Inl errs
         else Inr (\<lparr>co_id = ov_ID ov, co_action = act, co_filter = pred, co_mode = m, co_priority = ov_Priority ov,
                    co_observe = (if ru_observed rs then Some (ru_NamePrefix rs @ '':'' @ ov_ID ov, ov_Action ov) else None),
                    co_force = fo, co_status = statuses\<rparr>, ov))"

text \<open>The loop of \<open>SetOverrides\<close>: errors, compiled overrides in order, their normalised sources.\<close>

fun compile_overrides ::
  "('p, 'r) cache_lib \<Rightarrow> 'p Ruleset \<Rightarrow> nat \<Rightarrow> string list \<Rightarrow> Override list \<Rightarrow> cache_error list \<times> ('p compiledOverride \<times> Override) list" where
  "compile_overrides lib rs i seen [] = ([], [])"
| "compile_overrides lib rs i seen (ov # ovs) =
     (case compile_override lib rs ov of
        Inl es \<Rightarrow> (let (errs, out) = compile_overrides lib rs (Suc i) seen ovs in (AtIndex i es # errs, out))
      | Inr (c, nov) \<Rightarrow>
          if co_id c \<in> set seen then (let (errs, out) = compile_overrides lib rs (Suc i) seen ovs in (Duplicate i # errs, out))
          else (let (errs, out) = compile_overrides lib rs (Suc i) (co_id c # seen) ovs in (errs, (c, nov) # out)))"

definition build_ruleset :: "('p compiledOverride \<times> Override) list \<Rightarrow> 'p ruleset" where
  "build_ruleset out =
     (let cs = map fst out in
      \<lparr>rs_bypass = filter (\<lambda>c. co_action c = ActionBypass) cs,
       rs_force = sort_key co_priority (filter (\<lambda>c. co_action c \<noteq> ActionBypass) cs),
       rs_source = map snd out, rs_needsFilter = list_ex (\<lambda>c. \<not> Option.is_none (co_filter c)) cs\<rparr>)"

definition SetOverrides :: "('p, 'r) cache_lib \<Rightarrow> Override list \<Rightarrow> 'p Ruleset \<Rightarrow> cache_error list \<times> 'p Ruleset" where
  "SetOverrides lib ovs rs =
     (let (errs, out) = compile_overrides lib rs 0 [] ovs in
      if errs \<noteq> [] then (errs, rs) else ([], rs\<lparr>ru_set := Some (build_ruleset out)\<rparr>))"

definition Overrides :: "'p Ruleset \<Rightarrow> Override list" where
  "Overrides rs = (case ru_set rs of None \<Rightarrow> [] | Some st \<Rightarrow> rs_source st)"

definition NeedsFilter :: "'p Ruleset \<Rightarrow> bool" where
  "NeedsFilter rs = (case ru_set rs of None \<Rightarrow> False | Some st \<Rightarrow> rs_needsFilter st)"

subsection \<open>Decisions\<close>

type_synonym observation = "(string \<times> string) \<times> cache_result"

definition observed :: "'p compiledOverride \<Rightarrow> cache_result \<Rightarrow> observation list" where
  "observed c res = (case co_observe c of None \<Rightarrow> [] | Some h \<Rightarrow> [(h, res)])"

definition filter_value :: "('p, 'r) cache_lib \<Rightarrow> 'p compiledOverride \<Rightarrow> 'r \<Rightarrow> bool option" where
  "filter_value lib c r = (case co_filter c of None \<Rightarrow> Some True | Some p \<Rightarrow> eval lib p r)"

fun bypass_loop :: "('p, 'r) cache_lib \<Rightarrow> 'r \<Rightarrow> 'p compiledOverride list \<Rightarrow> bool \<times> observation list" where
  "bypass_loop lib r [] = (False, [])"
| "bypass_loop lib r (b # bs) =
     (let (matched, errored) = (case filter_value lib b r of None \<Rightarrow> (True, True) | Some ok \<Rightarrow> (ok, False)) in
      if \<not> matched then bypass_loop lib r bs
      else if co_mode b = Shadow then (let (res, obs) = bypass_loop lib r bs in (res, observed b ResultShadow @ obs))
      else (True, observed b (if errored then ResultError else ResultApplied)))"

definition MatchBypass :: "('p, 'r) cache_lib \<Rightarrow> 'r \<Rightarrow> 'p Ruleset \<Rightarrow> bool \<times> observation list" where
  "MatchBypass lib r rs = (case ru_set rs of None \<Rightarrow> (False, []) | Some st \<Rightarrow> bypass_loop lib r (rs_bypass st))"

fun force_loop :: "('p, 'r) cache_lib \<Rightarrow> 'r \<Rightarrow> int \<Rightarrow> 'p compiledOverride list \<Rightarrow> forced option \<times> observation list" where
  "force_loop lib r st [] = (None, [])"
| "force_loop lib r st (f # fs) =
     (if (case co_status f of None \<Rightarrow> False | Some sts \<Rightarrow> st \<notin> set sts) then force_loop lib r st fs
      else case filter_value lib f r of
        None \<Rightarrow> (let (res, obs) = force_loop lib r st fs in (res, observed f ResultError @ obs))
      | Some False \<Rightarrow> force_loop lib r st fs
      | Some True \<Rightarrow>
          if co_mode f = Shadow then (let (res, obs) = force_loop lib r st fs in (res, observed f ResultShadow @ obs))
          else (Some (co_force f), observed f ResultApplied))"

definition Force :: "('p, 'r) cache_lib \<Rightarrow> 'r \<Rightarrow> int \<Rightarrow> 'p Ruleset \<Rightarrow> forced option \<times> observation list" where
  "Force lib r st rs = (case ru_set rs of None \<Rightarrow> (None, []) | Some s \<Rightarrow> force_loop lib r st (rs_force s))"

text \<open>The hooks of the edge; \<open>mux\<close> resolves the zone of a request.\<close>

definition Cacheable ::
  "('p, 'r) cache_lib \<Rightarrow> (string gomap \<Rightarrow> 'r \<Rightarrow> string option) \<Rightarrow> 'r \<Rightarrow> 'p Ruleset edge_policy \<Rightarrow> bool" where
  "Cacheable lib mux r e =
     (if fst (MatchBypass lib r (ep_global e)) then False
      else case edge_zone mux e r of None \<Rightarrow> True | Some z \<Rightarrow> \<not> fst (MatchBypass lib r z))"

definition cache_Override ::
  "('p, 'r) cache_lib \<Rightarrow> (string gomap \<Rightarrow> 'r \<Rightarrow> string option) \<Rightarrow> 'r \<Rightarrow> int \<Rightarrow> 'p Ruleset edge_policy \<Rightarrow> forced option" where
  "cache_Override lib mux r st e =
     (case fst (Force lib r st (ep_global e)) of
        Some f \<Rightarrow> Some f
      | None \<Rightarrow> (case edge_zone mux e r of None \<Rightarrow> None | Some z \<Rightarrow> fst (Force lib r st z)))"

subsection \<open>From declarations to compiled rules\<close>

text \<open>What a declared override says, read off its fields.\<close>

definition declared_priority :: "Override \<Rightarrow> int" where
  "declared_priority ov = (if ov_Priority ov = 0 then 100 else ov_Priority ov)"

definition declared_filter :: "('p, 'r) cache_lib \<Rightarrow> 'p Ruleset \<Rightarrow> Override \<Rightarrow> 'r \<Rightarrow> bool option" where
  "declared_filter lib rs ov r =
     (if trim_space (ov_Filter ov) = [] then Some True
      else case newPredicate lib (trim_space (ov_Filter ov)) (filterOptions_cost rs) (ru_FilterDisableMacros rs) of
        None \<Rightarrow> Some True
      | Some p \<Rightarrow> eval lib p r)"

definition bypasses :: "('p, 'r) cache_lib \<Rightarrow> 'p Ruleset \<Rightarrow> 'r \<Rightarrow> Override \<Rightarrow> bool" where
  "bypasses lib rs r ov \<longleftrightarrow> ov_Action ov = ''bypass'' \<and> ov_Mode ov \<noteq> ''shadow'' \<and> declared_filter lib rs ov r \<noteq> Some False"

definition forces :: "('p, 'r) cache_lib \<Rightarrow> 'p Ruleset \<Rightarrow> 'r \<Rightarrow> int \<Rightarrow> Override \<Rightarrow> bool" where
  "forces lib rs r st ov \<longleftrightarrow> ov_Action ov \<noteq> ''bypass'' \<and> ov_Mode ov \<noteq> ''shadow'' \<and> (ov_Status ov = [] \<or> st \<in> set (ov_Status ov)) \<and>
     declared_filter lib rs ov r = Some True"

definition forced_policy :: "('p, 'r) cache_lib \<Rightarrow> Override \<Rightarrow> forced" where
  "forced_policy lib ov = fst (snd (compileForce lib ov))"

lemma compileForce_update [simp]:
  "compileForce lib (ov\<lparr>ov_Action := a, ov_Mode := m, ov_Priority := p\<rparr>) = compileForce lib ov"
  by (simp add: compileForce_def)

lemma compile_override_Inr:
  assumes "compile_override lib rs ov = Inr (c, nov)"
  shows "fst (override_action (ov_Action ov)) = []" and "fst (override_mode (ov_Mode ov)) = []"
    and "fst (snd (override_action (ov_Action ov))) = ActionCache \<Longrightarrow> fst (compileForce lib ov) = []"
    and "trim_space (ov_Filter ov) \<noteq> [] \<Longrightarrow>
      \<not> Option.is_none (newPredicate lib (trim_space (ov_Filter ov)) (filterOptions_cost rs) (ru_FilterDisableMacros rs))"
    and "c = \<lparr>co_id = ov_ID ov, co_action = fst (snd (override_action (ov_Action ov))),
      co_filter = (if trim_space (ov_Filter ov) = [] then None else newPredicate lib (trim_space (ov_Filter ov)) (filterOptions_cost rs) (ru_FilterDisableMacros rs)),
      co_mode = fst (snd (override_mode (ov_Mode ov))), co_priority = (if ov_Priority ov = 0 then defaultPriority else ov_Priority ov),
      co_observe = (if ru_observed rs then Some (ru_NamePrefix rs @ '':'' @ ov_ID ov, snd (snd (override_action (ov_Action ov)))) else None),
      co_force = (if fst (snd (override_action (ov_Action ov))) = ActionCache then fst (snd (compileForce lib ov)) else no_force),
      co_status = (if fst (snd (override_action (ov_Action ov))) = ActionCache then snd (snd (compileForce lib ov)) else None)\<rparr>"
  using assms unfolding compile_override_def Let_def split_def
  by (auto split: if_splits)

lemma compile_overrideD:
  assumes "compile_override lib rs ov = Inr (c, nov)"
  shows "co_id c = ov_ID ov" "co_priority c = declared_priority ov" "co_action c = ActionBypass \<longleftrightarrow> ov_Action ov = ''bypass''"
    and "co_mode c = Shadow \<longleftrightarrow> ov_Mode ov = ''shadow''" and "filter_value lib c r = declared_filter lib rs ov r"
    and "ov_Action ov \<noteq> ''bypass'' \<Longrightarrow> co_force c = forced_policy lib ov"
    and "ov_Action ov \<noteq> ''bypass'' \<Longrightarrow> (case co_status c of None \<Rightarrow> True | Some sts \<Rightarrow> st \<in> set sts) \<longleftrightarrow> ov_Status ov = [] \<or> st \<in> set (ov_Status ov)"
proof -
  note i = compile_override_Inr [OF assms]
  have a: "ov_Action ov \<in> {[], ''cache'', ''bypass''}" and m: "ov_Mode ov \<in> {[], ''enforce'', ''shadow''}"
    using i(1,2) by (auto simp: override_action_def override_mode_def split: if_splits)
  show "co_id c = ov_ID ov" "co_priority c = declared_priority ov" by (simp_all add: i(5) declared_priority_def defaultPriority_def)
  show act: "co_action c = ActionBypass \<longleftrightarrow> ov_Action ov = ''bypass''" using a by (auto simp: i(5) override_action_def)
  show "co_mode c = Shadow \<longleftrightarrow> ov_Mode ov = ''shadow''" using m by (auto simp: i(5) override_mode_def)
  show "filter_value lib c r = declared_filter lib rs ov r"
    using i(4) by (auto simp: filter_value_def declared_filter_def i(5) split: option.split)
  assume nb: "ov_Action ov \<noteq> ''bypass''"
  then have ca: "fst (snd (override_action (ov_Action ov))) = ActionCache" by (simp add: override_action_def)
  then show "co_force c = forced_policy lib ov" by (simp add: i(5) forced_policy_def)
  have "map BadStatus (filter (\<lambda>st. \<not> valid_status st) (ov_Status ov)) = []" using i(3) ca by (simp add: compileForce_def split_def Let_def)
  then have "list_all valid_status (ov_Status ov)" by (simp add: filter_empty_conv list_all_iff)
  then have "filter valid_status (ov_Status ov) = ov_Status ov" by (simp add: list_all_iff)
  then have "co_status c = (if ov_Status ov = [] then None else Some (ov_Status ov))" using ca by (simp add: i(5) compileForce_def split_def Let_def)
  then show "(case co_status c of None \<Rightarrow> True | Some sts \<Rightarrow> st \<in> set sts) \<longleftrightarrow> ov_Status ov = [] \<or> st \<in> set (ov_Status ov)" by simp
qed

lemma compile_overrides_ok:
  assumes "compile_overrides lib rs i seen ovs = ([], out)"
  shows "list_all2 (\<lambda>ov x. compile_override lib rs ov = Inr x) ovs out" and "distinct (map ov_ID ovs)" and "set (map ov_ID ovs) \<inter> set seen = {}"
  using assms
proof (induction ovs arbitrary: i seen out)
  case (Cons ov ovs)
  { case 1 then show ?case using Cons.IH(1) by (auto split: sum.splits prod.splits if_splits)
  next
    case 2 then show ?case using Cons.IH(2,3) compile_overrideD(1) [of lib rs ov] by (fastforce split: sum.splits prod.splits if_splits)
  next
    case 3 then show ?case using Cons.IH(3) compile_overrideD(1) [of lib rs ov] by (fastforce split: sum.splits prod.splits if_splits) }
qed auto

definition compiled_form :: "('p, 'r) cache_lib \<Rightarrow> 'p Ruleset \<Rightarrow> Override \<Rightarrow> 'p compiledOverride" where
  "compiled_form lib rs ov = (case compile_override lib rs ov of Inr (c, _) \<Rightarrow> c | Inl _ \<Rightarrow> undefined)"

definition accepts :: "('p, 'r) cache_lib \<Rightarrow> 'p Ruleset \<Rightarrow> Override list \<Rightarrow> bool" where
  "accepts lib rs ovs \<longleftrightarrow> fst (SetOverrides lib ovs rs) = []"

lemma SetOverrides_ok:
  assumes "accepts lib rs ovs"
  shows "\<exists>st. ru_set (snd (SetOverrides lib ovs rs)) = Some st \<and> rs_bypass st = filter (\<lambda>c. co_action c = ActionBypass) (map (compiled_form lib rs) ovs) \<and>
      rs_force st = sort_key co_priority (filter (\<lambda>c. co_action c \<noteq> ActionBypass) (map (compiled_form lib rs) ovs))"
    and "ov \<in> set ovs \<Longrightarrow> \<exists>nov. compile_override lib rs ov = Inr (compiled_form lib rs ov, nov)"
proof -
  obtain out where out: "compile_overrides lib rs 0 [] ovs = ([], out)"
    using assms by (auto simp: accepts_def SetOverrides_def split: prod.splits if_splits)
  note l = compile_overrides_ok(1) [OF out]
  then have "map fst out = map (compiled_form lib rs) ovs"
    by (induction rule: list_all2_induct) (auto simp: compiled_form_def split: prod.splits)
  then show "\<exists>st. ru_set (snd (SetOverrides lib ovs rs)) = Some st \<and> rs_bypass st = filter (\<lambda>c. co_action c = ActionBypass) (map (compiled_form lib rs) ovs) \<and>
      rs_force st = sort_key co_priority (filter (\<lambda>c. co_action c \<noteq> ActionBypass) (map (compiled_form lib rs) ovs))"
    using out by (simp add: SetOverrides_def build_ruleset_def Let_def)
  show "\<exists>nov. compile_override lib rs ov = Inr (compiled_form lib rs ov, nov)" if "ov \<in> set ovs"
    using l that by (induction rule: list_all2_induct) (auto simp: compiled_form_def split: prod.splits)
qed

subsection \<open>First match by priority\<close>

lemma bypass_loop_ex: "fst (bypass_loop lib r bs) \<longleftrightarrow> (\<exists>b \<in> set bs. co_mode b \<noteq> Shadow \<and> filter_value lib b r \<noteq> Some False)"
  by (induction bs) (auto simp: Let_def split: option.splits prod.splits)

definition force_applies :: "('p, 'r) cache_lib \<Rightarrow> 'r \<Rightarrow> int \<Rightarrow> 'p compiledOverride \<Rightarrow> bool" where
  "force_applies lib r st f \<longleftrightarrow> (case co_status f of None \<Rightarrow> True | Some sts \<Rightarrow> st \<in> set sts) \<and> co_mode f \<noteq> Shadow \<and> filter_value lib f r = Some True"

lemma force_loop_find: "fst (force_loop lib r st fs) = map_option co_force (find (force_applies lib r st) fs)"
proof (induction fs)
  case (Cons f fs)
  let ?st = "case co_status f of None \<Rightarrow> False | Some sts \<Rightarrow> st \<notin> set sts"
  have st: "(case co_status f of None \<Rightarrow> True | Some sts \<Rightarrow> st \<in> set sts) \<longleftrightarrow> \<not> ?st" by (simp split: option.split)
  show ?case
  proof (cases "filter_value lib f r")
    case (Some b)
    then show ?thesis using Cons by (cases b) (simp_all add: force_applies_def st split_def Let_def)
  qed (use Cons in \<open>simp add: force_applies_def st split_def Let_def\<close>)
qed simp

lemma filter_split: "filter P xs = us @ x # vs \<Longrightarrow> \<exists>as bs. xs = as @ x # bs \<and> P x \<and> us = filter P as \<and> vs = filter P bs"
proof (induction xs arbitrary: us)
  case (Cons a xs)
  show ?case
  proof (cases "P a \<and> us = []")
    case True
    then show ?thesis using Cons.prems by (intro exI [of _ "[]"] exI [of _ xs]) auto
  next
    case False
    then obtain us' where "filter P xs = us' @ x # vs" "us = (if P a then a # us' else us')"
      using Cons.prems by (cases us) (auto split: if_splits)
    then obtain as bs where "xs = as @ x # bs" "P x" "us' = filter P as" "vs = filter P bs" "us = (if P a then a # us' else us')"
      using Cons.IH by blast
    then show ?thesis by (intro exI [of _ "a # as"] exI [of _ bs]) auto
  qed
qed simp

lemma find_sort_key:
  fixes f :: "'a \<Rightarrow> 'k :: linorder"
  assumes "find P (sort_key f xs) = Some x"
  shows "\<exists>us vs. xs = us @ x # vs \<and> P x \<and> (\<forall>y \<in> set us. P y \<longrightarrow> f x < f y) \<and> (\<forall>y \<in> set vs. P y \<longrightarrow> f x \<le> f y)"
proof -
  have hd: "find P ys = (case filter P ys of [] \<Rightarrow> None | y # _ \<Rightarrow> Some y)" for ys by (induction ys) auto
  obtain rest where s: "sort_key f (filter P xs) = x # rest"
    using assms unfolding hd filter_sort by (auto split: list.splits)
  then have "sorted (map f (x # rest))" by (metis sorted_sort_key)
  then have le: "f x \<le> f y" if "y \<in> set (filter P xs)" for y
    using that s set_sort [of f "filter P xs"] by auto
  have "filter (\<lambda>y. f y = f x) (filter P xs) = filter (\<lambda>y. f y = f x) (x # rest)" unfolding s [symmetric] sort_key_stable ..
  then obtain us vs where x: "filter P xs = us @ x # vs" and us: "\<forall>y \<in> set us. f y \<noteq> f x" by (auto simp: filter_eq_Cons_iff)
  from x obtain as bs where xs: "xs = as @ x # bs" "P x" "us = filter P as" "vs = filter P bs"
    using filter_split [OF x] by blast
  have "\<forall>y \<in> set as. P y \<longrightarrow> f x < f y" using us le xs(3) x by (force simp: order_less_le)
  moreover have "\<forall>y \<in> set bs. P y \<longrightarrow> f x \<le> f y" using le xs(4) x by auto
  ultimately show ?thesis using xs by blast
qed

lemma MatchBypass_declared:
  assumes "accepts lib rs ovs"
  shows "fst (MatchBypass lib r (snd (SetOverrides lib ovs rs))) \<longleftrightarrow> (\<exists>ov \<in> set ovs. bypasses lib rs r ov)"
proof -
  have "co_action (compiled_form lib rs ov) = ActionBypass \<and> co_mode (compiled_form lib rs ov) \<noteq> Shadow \<and> filter_value lib (compiled_form lib rs ov) r \<noteq> Some False
      \<longleftrightarrow> bypasses lib rs r ov" if "ov \<in> set ovs" for ov
    using SetOverrides_ok(2) [OF assms that] compile_overrideD(3-5) unfolding bypasses_def by metis
  then show ?thesis using SetOverrides_ok(1) [OF assms] by (auto simp: MatchBypass_def bypass_loop_ex)
qed

text \<open>The policy of the least priority and then the earliest declaration among the overrides that apply.\<close>

definition first_forced :: "('p, 'r) cache_lib \<Rightarrow> 'p Ruleset \<Rightarrow> 'r \<Rightarrow> int \<Rightarrow> Override list \<Rightarrow> forced \<Rightarrow> bool" where
  "first_forced lib rs r st ovs f \<longleftrightarrow> (\<exists>us ov vs. ovs = us @ ov # vs \<and> forces lib rs r st ov \<and> f = forced_policy lib ov \<and>
     (\<forall>o' \<in> set us. forces lib rs r st o' \<longrightarrow> declared_priority ov < declared_priority o') \<and>
     (\<forall>o' \<in> set vs. forces lib rs r st o' \<longrightarrow> declared_priority ov \<le> declared_priority o'))"

lemma Force_declared:
  assumes "accepts lib rs ovs"
  shows "case fst (Force lib r st (snd (SetOverrides lib ovs rs))) of
      None \<Rightarrow> \<forall>ov \<in> set ovs. \<not> forces lib rs r st ov
    | Some f \<Rightarrow> first_forced lib rs r st ovs f"
proof -
  let ?c = "compiled_form lib rs" and ?P = "\<lambda>c. co_action c \<noteq> ActionBypass \<and> force_applies lib r st c"
  have P: "?P (?c ov) \<longleftrightarrow> forces lib rs r st ov" and pr: "co_priority (?c ov) = declared_priority ov"
    and fo: "ov_Action ov \<noteq> ''bypass'' \<Longrightarrow> co_force (?c ov) = forced_policy lib ov" if ov: "ov \<in> set ovs" for ov
  proof -
    obtain nov where "compile_override lib rs ov = Inr (?c ov, nov)" using SetOverrides_ok(2) [OF assms ov] by blast
    note d = compile_overrideD [OF this]
    show "?P (?c ov) \<longleftrightarrow> forces lib rs r st ov" using d(3-5) d(7) [of st] unfolding force_applies_def forces_def by (metis (no_types, lifting))
    show "co_priority (?c ov) = declared_priority ov" "ov_Action ov \<noteq> ''bypass'' \<Longrightarrow> co_force (?c ov) = forced_policy lib ov" using d(2,6) by auto
  qed
  have "find Q (filter R xs) = find (\<lambda>x. R x \<and> Q x) xs" for Q R and xs :: "'a compiledOverride list" by (induction xs) auto
  then have res: "fst (Force lib r st (snd (SetOverrides lib ovs rs))) = map_option co_force (find ?P (sort_key co_priority (map ?c ovs)))"
    using SetOverrides_ok(1) [OF assms] by (auto simp: Force_def force_loop_find filter_sort [symmetric])
  show ?thesis
  proof (cases "find ?P (sort_key co_priority (map ?c ovs))")
    case None
    then have "\<forall>ov \<in> set ovs. \<not> forces lib rs r st ov" using P by (auto simp: find_None_iff)
    then show ?thesis using res None by simp
  next
    case (Some c)
    obtain us' vs' where w: "map ?c ovs = us' @ c # vs'" "?P c" "\<forall>y \<in> set us'. ?P y \<longrightarrow> co_priority c < co_priority y"
      "\<forall>y \<in> set vs'. ?P y \<longrightarrow> co_priority c \<le> co_priority y" using find_sort_key [OF Some] by blast
    then obtain us ov vs where ovs: "ovs = us @ ov # vs" "us' = map ?c us" "c = ?c ov" "vs' = map ?c vs"
      by (auto simp: map_eq_append_conv map_eq_Cons_conv Cons_eq_map_conv)
    have f: "forces lib rs r st ov" using P [of ov] w(2) ovs by simp
    then have "co_force c = forced_policy lib ov" using fo [of ov] ovs by (simp add: forces_def)
    moreover have "declared_priority ov < declared_priority o'" if "o' \<in> set us" "forces lib rs r st o'" for o'
      using w(3) P [of o'] pr [of o'] pr [of ov] ovs that by auto
    moreover have "declared_priority ov \<le> declared_priority o'" if "o' \<in> set vs" "forces lib rs r st o'" for o'
      using w(4) P [of o'] pr [of o'] pr [of ov] ovs that by auto
    ultimately have "first_forced lib rs r st ovs (co_force c)" unfolding first_forced_def
      using f ovs(1) by (intro exI [of _ us] exI [of _ ov] exI [of _ vs]) auto
    then show ?thesis using res Some by simp
  qed
qed

subsection \<open>The hooks on declared overrides\<close>

text \<open>The edge runs a global set and perhaps a zone, each compiled from its declared overrides.\<close>

definition runs_declared ::
  "('p, 'r) cache_lib \<Rightarrow> (string gomap \<Rightarrow> 'r \<Rightarrow> string option) \<Rightarrow> 'r \<Rightarrow> 'p Ruleset edge_policy \<Rightarrow> 'p Ruleset \<Rightarrow> Override list \<Rightarrow> 'p Ruleset \<Rightarrow> Override list \<Rightarrow> bool" where
  "runs_declared lib mux r e grs g zrs z \<longleftrightarrow> accepts lib grs g \<and> ep_global e = snd (SetOverrides lib g grs) \<and>
     (case edge_zone mux e r of None \<Rightarrow> z = [] | Some zone \<Rightarrow> accepts lib zrs z \<and> zone = snd (SetOverrides lib z zrs))"

text \<open>C35. What the two cache hooks decide, in terms of the declared overrides: a request skips the cache exactly when an enforcing
  bypass override of the global set or of its zone has no filter, a filter that holds, or one that fails to evaluate.
  A fill gets the policy of the global force override that is enforcing, admits the status and whose filter holds,
  with the least priority and the earliest declaration; without one the same of the zone; without one the origin's.\<close>
theorem cache_hooks_decide:
  assumes "runs_declared lib mux r e grs g zrs z"
  shows "(Cacheable lib mux r e \<longleftrightarrow> (\<forall>ov \<in> set g. \<not> bypasses lib grs r ov) \<and> (\<forall>ov \<in> set z. \<not> bypasses lib zrs r ov)) \<and>
    (case cache_Override lib mux r st e of
       None \<Rightarrow> (\<forall>ov \<in> set g. \<not> forces lib grs r st ov) \<and> (\<forall>ov \<in> set z. \<not> forces lib zrs r st ov)
     | Some f \<Rightarrow> first_forced lib grs r st g f \<or> (\<forall>ov \<in> set g. \<not> forces lib grs r st ov) \<and> first_forced lib zrs r st z f)"
proof (cases "edge_zone mux e r")
  case None
  then show ?thesis
    using assms MatchBypass_declared [of lib grs g r] Force_declared [of lib grs g r st]
    by (auto simp: runs_declared_def Cacheable_def cache_Override_def split: option.splits)
next
  case (Some zone)
  have g: "accepts lib grs g" "ep_global e = snd (SetOverrides lib g grs)" and z: "accepts lib zrs z" "zone = snd (SetOverrides lib z zrs)"
    using assms Some by (auto simp: runs_declared_def)
  have "Cacheable lib mux r e \<longleftrightarrow> (\<forall>ov \<in> set g. \<not> bypasses lib grs r ov) \<and> (\<forall>ov \<in> set z. \<not> bypasses lib zrs r ov)"
    using MatchBypass_declared [OF g(1), of r] MatchBypass_declared [OF z(1), of r] g(2) z(2) Some by (auto simp: Cacheable_def)
  moreover have "case cache_Override lib mux r st e of
       None \<Rightarrow> (\<forall>ov \<in> set g. \<not> forces lib grs r st ov) \<and> (\<forall>ov \<in> set z. \<not> forces lib zrs r st ov)
     | Some f \<Rightarrow> first_forced lib grs r st g f \<or> (\<forall>ov \<in> set g. \<not> forces lib grs r st ov) \<and> first_forced lib zrs r st z f"
    using Force_declared [OF g(1), of r st] Force_declared [OF z(1), of r st] g(2) z(2) Some
    by (cases "fst (Force lib r st (ep_global e))"; cases "fst (Force lib r st zone)") (simp_all add: cache_Override_def)
  ultimately show ?thesis by blast
qed

subsection \<open>Filters that fail\<close>

text \<open>\<open>more_errors lib lib'\<close>: the same library, but some evaluations fail under \<open>lib'\<close>.\<close>

definition more_errors :: "('p, 'r) cache_lib \<Rightarrow> ('p, 'r) cache_lib \<Rightarrow> bool" where
  "more_errors lib lib' \<longleftrightarrow> (\<forall>p r. eval lib' p r = None \<or> eval lib' p r = eval lib p r)"

lemma filter_value_errors: "more_errors lib lib' \<Longrightarrow> filter_value lib' c r = None \<or> filter_value lib' c r = filter_value lib c r"
  by (auto simp: more_errors_def filter_value_def split: option.splits)

lemma bypass_errors: "more_errors lib lib' \<Longrightarrow> fst (MatchBypass lib r rs) \<Longrightarrow> fst (MatchBypass lib' r rs)"
proof -
  assume h: "more_errors lib lib'" "fst (MatchBypass lib r rs)"
  then obtain s b where "ru_set rs = Some s" "b \<in> set (rs_bypass s)" "co_mode b \<noteq> Shadow" "filter_value lib b r \<noteq> Some False"
    by (auto simp: MatchBypass_def bypass_loop_ex split: option.splits)
  moreover from this(4) have "filter_value lib' b r \<noteq> Some False" using filter_value_errors [OF h(1), of b r] by auto
  ultimately show ?thesis by (auto simp: MatchBypass_def bypass_loop_ex)
qed

lemma force_find_some: "fst (Force lib r st rs) = Some f \<Longrightarrow> \<exists>s c. ru_set rs = Some s \<and> c \<in> set (rs_force s) \<and> force_applies lib r st c \<and> f = co_force c"
  by (auto simp: Force_def force_loop_find find_Some_iff split: option.splits) (metis nth_mem)

text \<open>C36. A filter that fails never brings a request into the cache: with more evaluation errors a request that may use the cache
  still could without them, and a forced policy always comes from a rule whose own filter held without error, also
  without the additional ones.\<close>
theorem filter_errors_never_cache:
  assumes "more_errors lib lib'"
  shows "(Cacheable lib' mux r e \<longrightarrow> Cacheable lib mux r e) \<and>
    (cache_Override lib' mux r st e = Some f \<longrightarrow>
       (\<exists>rs \<in> {ep_global e} \<union> set_option (edge_zone mux e r). \<exists>s c. ru_set rs = Some s \<and> c \<in> set (rs_force s) \<and>
          force_applies lib' r st c \<and> force_applies lib r st c \<and> f = co_force c))"
proof -
  have ap: "force_applies lib r st c" if "force_applies lib' r st c" for c
    using that filter_value_errors [OF assms, of c r] by (auto simp: force_applies_def)
  have "Cacheable lib' mux r e \<longrightarrow> Cacheable lib mux r e"
    using bypass_errors [OF assms] by (auto simp: Cacheable_def split: option.splits if_splits)
  moreover have "cache_Override lib' mux r st e = Some f \<longrightarrow>
       (\<exists>rs \<in> {ep_global e} \<union> set_option (edge_zone mux e r). \<exists>s c. ru_set rs = Some s \<and> c \<in> set (rs_force s) \<and>
          force_applies lib' r st c \<and> force_applies lib r st c \<and> f = co_force c)"
    using force_find_some [of lib' r st "ep_global e" f] force_find_some [of lib' r st _ f] ap
    by (fastforce simp: cache_Override_def split: option.splits)
  ultimately show ?thesis by blast
qed


subsection \<open>An override set is an instance of an edge policy\<close>

definition set_overrides :: "('p, 'r) cache_lib \<Rightarrow> Override list \<Rightarrow> 'p Ruleset \<Rightarrow> 'p Ruleset option" where
  "set_overrides lib ovs rs = (let (errs, rs') = SetOverrides lib ovs rs in if errs \<noteq> [] then None else Some rs')"

definition overrides_meaning :: "(string \<Rightarrow> Override list option) \<Rightarrow> ('p, 'r) cache_lib \<Rightarrow> 'p Ruleset \<Rightarrow> string list \<Rightarrow> Override list option" where
  "overrides_meaning decode lib base docs = map_option Overrides (apply_overrides decode (set_overrides lib) docs base)"

definition same_options :: "'p Ruleset \<Rightarrow> 'p Ruleset \<Rightarrow> bool" where
  "same_options rs rs' \<longleftrightarrow> ru_FilterCostLimit rs = ru_FilterCostLimit rs' \<and> ru_FilterDisableMacros rs = ru_FilterDisableMacros rs'"

lemma compile_override_options:
  assumes "same_options rs rs'"
  shows "map_sum id (\<lambda>(c, nov). (co_id c, nov)) (compile_override lib rs ov) = map_sum id (\<lambda>(c, nov). (co_id c, nov)) (compile_override lib rs' ov)"
proof -
  have "filterOptions_cost rs = filterOptions_cost rs'" "ru_FilterDisableMacros rs = ru_FilterDisableMacros rs'"
    using assms by (simp_all add: same_options_def filterOptions_cost_def)
  then show ?thesis unfolding compile_override_def Let_def split_def by simp
qed

lemma compile_overrides_options:
  assumes "same_options rs rs'"
  shows "fst (compile_overrides lib rs i seen ovs) = fst (compile_overrides lib rs' i seen ovs) \<and>
    map snd (snd (compile_overrides lib rs i seen ovs)) = map snd (snd (compile_overrides lib rs' i seen ovs))"
proof (induction ovs arbitrary: i seen)
  case (Cons ov ovs)
  show ?case using Cons compile_override_options [OF assms, of lib ov]
    by (cases "compile_override lib rs ov"; cases "compile_override lib rs' ov") (auto simp: split_def Let_def)
qed simp

lemma set_overrides_options:
  assumes "same_options rs rs'"
  shows "map_option Overrides (set_overrides lib ovs rs) = map_option Overrides (set_overrides lib ovs rs')"
  using compile_overrides_options [OF assms, of lib 0 "[]" ovs]
  by (simp add: set_overrides_def SetOverrides_def split_def Let_def Overrides_def build_ruleset_def)

lemma set_overrides_keeps: "set_overrides lib ovs rs = Some rs' \<Longrightarrow> same_options rs' rs"
  by (auto simp: set_overrides_def SetOverrides_def same_options_def split_def Let_def split: if_splits)

interpretation overrides: applicable "apply_overrides decode (set_overrides lib)" Overrides "overrides_meaning decode lib base"
    "\<lambda>rs. same_options rs base" for decode lib base
proof
  fix rs rs' docs
  assume w: "same_options rs base"
  have eq: "map_option Overrides (apply_overrides decode (set_overrides lib) docs rs) = overrides_meaning decode lib base docs"
    using set_overrides_options [OF w, of lib] by (simp add: overrides_meaning_def apply_overrides_def split_def Let_def)
  show "same_options rs' base \<and> overrides_meaning decode lib base docs = Some (Overrides rs')"
    if "apply_overrides decode (set_overrides lib) docs rs = Some rs'"
    using that eq w set_overrides_keeps by (fastforce simp: apply_overrides_def same_options_def split_def Let_def split: if_splits)
  show "overrides_meaning decode lib base docs = None" if "apply_overrides decode (set_overrides lib) docs rs = None"
    using that eq by simp
qed

text \<open>A payload all of whose override sets compile is served exactly, from any state of the edge that was reached with the same
  filter options, and its ETag is kept for the next poll.\<close>
lemma cache_update_serves:
  assumes "edge_wf (\<lambda>rs. same_options rs base) e" and "\<And>p. same_options (newRuleset p) base" and "acceptable (overrides_meaning decode lib base) p"
  shows "fst (EdgeCacheOverride_Update decode (set_overrides lib) newRuleset p etag e) \<and>
    ep_etag (snd (EdgeCacheOverride_Update decode (set_overrides lib) newRuleset p etag e)) = etag \<and>
    edge_serves Overrides (overrides_meaning decode lib base) (snd (EdgeCacheOverride_Update decode (set_overrides lib) newRuleset p etag e)) p"
  unfolding EdgeCacheOverride_Update_def
  by (intro conjI overrides.edge_update_acceptable [OF assms(1) _ assms(3)] assms(2))

subsection \<open>Concrete sets\<close>

definition demo_ov :: "string \<Rightarrow> string \<Rightarrow> string \<Rightarrow> string \<Rightarrow> string \<Rightarrow> int \<Rightarrow> Override" where
  "demo_ov i act flt ttl policy prio = \<lparr>ov_ID = i, ov_Action = act, ov_Filter = flt, ov_TTL = ttl, ov_Policy = policy, ov_StaleWhileRevalidate = [],
     ov_StaleIfError = [], ov_Status = [], ov_Mode = [], ov_Priority = prio\<rparr>"

text \<open>Filters are request paths; \<open>bad\<close> says whether evaluating one fails.\<close>

definition demo_cache_lib :: "bool \<Rightarrow> (string, string) cache_lib" where
  "demo_cache_lib bad = \<lparr>parseDur = (\<lambda>t. if t = ''1s'' then Some 1000000000 else if t = ''1h'' then Some 3600000000000 else None),
     newPredicate = (\<lambda>f cost macros. Some f), eval = (\<lambda>p r. if bad \<and> p = ''/me'' then None else Some (p = r))\<rparr>"

definition demo_rs :: "string Ruleset" where
  "demo_rs = \<lparr>ru_set = None, ru_NamePrefix = ''global'', ru_observed = True, ru_FilterCostLimit = 0, ru_FilterDisableMacros = False\<rparr>"

definition demo_ovs :: "Override list" where
  "demo_ovs = [demo_ov ''all'' [] [] ''1h'' ''aggressive'' 0, demo_ov ''me'' ''cache'' ''/me'' ''1s'' ''conservative'' 10]"

definition demo_cache_edge :: "bool \<Rightarrow> string Ruleset edge_policy" where
  "demo_cache_edge bad = new_edge (snd (SetOverrides (demo_cache_lib bad) demo_ovs demo_rs))"

lemma demo_accepts: "accepts (demo_cache_lib False) demo_rs demo_ovs"
  by code_simp

lemma demo_runs: "runs_declared (demo_cache_lib False) (\<lambda>m r. None) ''/me'' (demo_cache_edge False) demo_rs demo_ovs demo_rs []"
  using demo_accepts by (simp add: runs_declared_def demo_cache_edge_def new_edge_def edge_zone_def)

theorem cache_hooks_decide_witness:
  "(Cacheable (demo_cache_lib False) (\<lambda>m r. None) ''/me'' (demo_cache_edge False) \<longleftrightarrow>
      (\<forall>ov \<in> set demo_ovs. \<not> bypasses (demo_cache_lib False) demo_rs ''/me'' ov)) \<and>
   map_option fo_TTL (cache_Override (demo_cache_lib False) (\<lambda>m r. None) ''/me'' 200 (demo_cache_edge False)) = Some 1000000000"
proof
  show "Cacheable (demo_cache_lib False) (\<lambda>m r. None) ''/me'' (demo_cache_edge False) \<longleftrightarrow>
      (\<forall>ov \<in> set demo_ovs. \<not> bypasses (demo_cache_lib False) demo_rs ''/me'' ov)"
    using cache_hooks_decide [OF demo_runs] by simp
qed code_simp

text \<open>A failing filter can widen caching: a rule of the first priority that restricts a path to a short conservative policy is
  skipped when its filter fails, and the next rule, which applies to every path, is applied instead of the origin's
  own policy: here an aggressive policy of an hour instead of a conservative one of a second.\<close>
theorem filter_error_widens_caching:
  "more_errors (demo_cache_lib False) (demo_cache_lib True) \<and>
   map_option (\<lambda>f. (fo_TTL f, fo_Mode f)) (cache_Override (demo_cache_lib False) (\<lambda>m r. None) ''/me'' 200 (demo_cache_edge False)) =
     Some (second, OverrideConservative) \<and>
   map_option (\<lambda>f. (fo_TTL f, fo_Mode f)) (cache_Override (demo_cache_lib True) (\<lambda>m r. None) ''/me'' 200 (demo_cache_edge True)) =
     Some (3600 * second, OverrideAggressive)"
proof (intro conjI)
  show "more_errors (demo_cache_lib False) (demo_cache_lib True)" by (simp add: more_errors_def demo_cache_lib_def)
qed code_simp+

theorem filter_errors_never_cache_witness:
  "(Cacheable (demo_cache_lib True) (\<lambda>m r. None) ''/me'' (demo_cache_edge True) \<longrightarrow> Cacheable (demo_cache_lib False) (\<lambda>m r. None) ''/me'' (demo_cache_edge True)) = True \<and>
   Cacheable (demo_cache_lib True) (\<lambda>m r. None) ''/me'' (demo_cache_edge True)"
proof
  have "more_errors (demo_cache_lib False) (demo_cache_lib True)" by (simp add: more_errors_def demo_cache_lib_def)
  from filter_errors_never_cache [OF this]
  show "(Cacheable (demo_cache_lib True) (\<lambda>m r. None) ''/me'' (demo_cache_edge True) \<longrightarrow> Cacheable (demo_cache_lib False) (\<lambda>m r. None) ''/me'' (demo_cache_edge True)) = True"
    by blast
qed code_simp

end
