(* ===== verification/Go_URL.thy ===== *)
theory Go_URL
  imports Go_Text "HOL-Library.AList" "HOL-Library.List_Lexorder" "HOL-Library.Char_ord"
begin

section \<open>URLs, queries and headers of the standard library\<close>

text \<open>
  What the transform rules use of \<^verbatim>\<open>net/url\<close>, \<^verbatim>\<open>net/http\<close> and \<^verbatim>\<open>strings\<close>: percent encoding, the query of a URL as
  values and back, the request URI, header fields under canonical names, and replacement of a substring.

  Percent encoding is one routine with two modes. The locale \<open>escaping\<close> states what a mode has to satisfy, its round-trip
  law is proved once there, and the query mode and the path mode are its interpretations. Query values are an
  association list with distinct keys; the number of parameters is not limited.
\<close>

subsection \<open>Percent encoding\<close>

definition hex_char :: "nat \<Rightarrow> char" where
  "hex_char n = (if n < 10 then char_of (48 + n) else char_of (55 + n))"

definition hex_value :: "char \<Rightarrow> nat option" where
  "hex_value c =
     (if is_digit c then Some (of_char c - 48)
      else if 65 \<le> (of_char c :: nat) \<and> (of_char c :: nat) \<le> 70 then Some (of_char c - 55)
      else if 97 \<le> (of_char c :: nat) \<and> (of_char c :: nat) \<le> 102 then Some (of_char c - 87)
      else None)"

definition escape_char :: "(char \<Rightarrow> bool) \<Rightarrow> bool \<Rightarrow> char \<Rightarrow> string" where
  "escape_char keep spaced c =
     (if spaced \<and> c = CHR '' '' then ''+''
      else if keep c then [c]
      else [CHR ''%'', hex_char (of_char c div 16), hex_char (of_char c mod 16)])"

definition escape :: "(char \<Rightarrow> bool) \<Rightarrow> bool \<Rightarrow> string \<Rightarrow> string" where
  "escape keep spaced s = concat (map (escape_char keep spaced) s)"

fun unescape :: "bool \<Rightarrow> string \<Rightarrow> string option" where
  "unescape spaced [] = Some []"
| "unescape spaced (c # cs) =
     (if c = CHR ''%'' then
        (case cs of
           h # l # rest \<Rightarrow>
             (case (hex_value h, hex_value l) of
                (Some a, Some b) \<Rightarrow> map_option ((#) (char_of (a * 16 + b))) (unescape spaced rest)
              | _ \<Rightarrow> None)
         | _ \<Rightarrow> None)
      else map_option ((#) (if spaced \<and> c = CHR ''+'' then CHR '' '' else c)) (unescape spaced cs))"

definition unreserved :: "char \<Rightarrow> bool" where
  "unreserved c \<longleftrightarrow> is_upper c \<or> is_lower c \<or> is_digit c \<or> c \<in> {CHR ''-'', CHR ''_'', CHR ''.'', CHR ''~''}"

definition path_char :: "char \<Rightarrow> bool" where
  "path_char c \<longleftrightarrow> unreserved c \<or> c \<in> set ''$&+,/:;=@''"

lemma hex_value_hex_char [simp]: "n < 16 \<Longrightarrow> hex_value (hex_char n) = Some n"
  by (auto simp: hex_value_def hex_char_def is_digit_def)

locale escaping =
  fixes keep :: "char \<Rightarrow> bool" and spaced :: bool
  assumes keep_percent: "\<not> keep (CHR ''%'')"
    and keep_spaced: "spaced \<Longrightarrow> \<not> keep (CHR ''+'')"
begin

lemma unescape_escape_char: "unescape spaced (escape_char keep spaced c @ s) = map_option ((#) c) (unescape spaced s)"
proof -
  have "(of_char c :: nat) div 16 < 16"
    using nat_of_char_less_256 [of c] by (simp add: less_mult_imp_div_less)
  moreover have "char_of ((of_char c :: nat) div 16 * 16 + of_char c mod 16) = c" by simp
  ultimately show ?thesis using keep_percent keep_spaced by (auto simp: escape_char_def)
qed

lemma unescape_escape: "unescape spaced (escape keep spaced s) = Some s"
  by (induction s) (simp_all add: escape_def unescape_escape_char)

end

interpretation query_escaping: escaping unreserved True
  by unfold_locales (simp_all add: unreserved_def is_upper_def is_lower_def is_digit_def)

interpretation path_escaping: escaping path_char False
  by unfold_locales (simp_all add: path_char_def unreserved_def is_upper_def is_lower_def is_digit_def)

text \<open>An escaped query component holds no separator.\<close>

definition QueryEscape :: "string \<Rightarrow> string" where
  "QueryEscape s = escape unreserved True s"

definition QueryUnescape :: "string \<Rightarrow> string option" where
  "QueryUnescape s = unescape True s"

lemma QueryUnescape_QueryEscape [simp]: "QueryUnescape (QueryEscape s) = Some s"
  by (simp add: QueryEscape_def QueryUnescape_def query_escaping.unescape_escape)

lemma hex_char_sep: "n < 16 \<Longrightarrow> hex_char n \<notin> {CHR ''&'', CHR ''='', CHR '';''}"
proof -
  assume "n < 16"
  then have "(of_char (hex_char n) :: nat) \<in> {48..57} \<union> {65..70}" by (auto simp: hex_char_def)
  then show ?thesis by auto
qed

lemma QueryEscape_sep: "c \<in> {CHR ''&'', CHR ''='', CHR '';''} \<Longrightarrow> c \<notin> set (QueryEscape s)"
proof -
  assume c: "c \<in> {CHR ''&'', CHR ''='', CHR '';''}"
  have "c \<notin> set (escape_char unreserved True x)" for x
  proof -
    have "(of_char x :: nat) div 16 < 16"
      using nat_of_char_less_256 [of x] by (simp add: less_mult_imp_div_less)
    then have "c \<noteq> hex_char (of_char x div 16)" "c \<noteq> hex_char (of_char x mod 16)"
      using c hex_char_sep [of "of_char x div 16"] hex_char_sep [of "of_char x mod 16"] by auto
    moreover have "\<not> unreserved c" using c by (auto simp: unreserved_def is_upper_def is_lower_def is_digit_def)
    ultimately show ?thesis using c by (auto simp: escape_char_def)
  qed
  then show "c \<notin> set (QueryEscape s)" by (auto simp: QueryEscape_def escape_def)
qed

subsection \<open>Query values\<close>

type_synonym query_values = "(string \<times> string list) list"

definition values_of :: "query_values \<Rightarrow> string \<Rightarrow> string list" where
  "values_of q k = (case map_of q k of None \<Rightarrow> [] | Some vs \<Rightarrow> vs)"

definition add_value :: "string \<Rightarrow> string \<Rightarrow> query_values \<Rightarrow> query_values" where
  "add_value k v q = AList.update k (values_of q k @ [v]) q"

definition cut_byte :: "char \<Rightarrow> string \<Rightarrow> string \<times> string" where
  "cut_byte c s = (case index_byte c s of None \<Rightarrow> (s, []) | Some i \<Rightarrow> (take i s, drop (Suc i) s))"

text \<open>One piece of a query: pieces that are empty, hold a semicolon or are badly escaped are left out.\<close>

definition query_pair :: "string \<Rightarrow> (string \<times> string) option" where
  "query_pair piece =
     (if CHR '';'' \<in> set piece \<or> piece = [] then None
      else let (k, v) = cut_byte (CHR ''='') piece in
        case (QueryUnescape k, QueryUnescape v) of (Some k', Some v') \<Rightarrow> Some (k', v') | _ \<Rightarrow> None)"

definition add_piece :: "string \<Rightarrow> query_values \<Rightarrow> query_values" where
  "add_piece piece q = (case query_pair piece of None \<Rightarrow> q | Some (k, v) \<Rightarrow> add_value k v q)"

definition parse_query :: "string \<Rightarrow> query_values" where
  "parse_query s = fold add_piece (split_byte (CHR ''&'') s) []"

definition query_pieces :: "query_values \<Rightarrow> (string \<times> string) list" where
  "query_pieces q = concat (map (\<lambda>k. map (Pair k) (values_of q k)) (sort (map fst q)))"

definition Encode :: "query_values \<Rightarrow> string" where
  "Encode q = join_by (CHR ''&'') (map (\<lambda>(k, v). QueryEscape k @ CHR ''='' # QueryEscape v) (query_pieces q))"

definition wf_values :: "query_values \<Rightarrow> bool" where
  "wf_values q \<longleftrightarrow> distinct (map fst q) \<and> (\<forall>(k, vs) \<in> set q. vs \<noteq> [])"

lemma split_byte_free: "c \<notin> set x \<Longrightarrow> split_byte c x = [x]"
  by (induction x) auto

lemma split_byte_sep: "c \<notin> set x \<Longrightarrow> split_byte c (x @ c # s) = x # split_byte c s"
  by (induction x) auto

lemma split_join: "xs \<noteq> [] \<Longrightarrow> \<forall>x \<in> set xs. c \<notin> set x \<Longrightarrow> split_byte c (join_by c xs) = xs"
  by (induction c xs rule: join_by.induct) (simp_all add: split_byte_free split_byte_sep)

lemma query_pair_escaped [simp]: "query_pair (QueryEscape k @ CHR ''='' # QueryEscape v) = Some (k, v)"
proof -
  have "index_byte (CHR ''='') (QueryEscape k @ CHR ''='' # QueryEscape v) = Some (length (QueryEscape k))"
    by (rule index_byte_append) (simp add: QueryEscape_sep)
  then show ?thesis using QueryEscape_sep [of "CHR '';''"] by (simp add: query_pair_def cut_byte_def)
qed

lemma values_of_add_value: "values_of (add_value k v q) k' = values_of q k' @ (if k' = k then [v] else [])"
  by (simp add: values_of_def add_value_def update_conv')

lemma values_of_fold: "values_of (fold (\<lambda>(k, v). add_value k v) ps q) k = values_of q k @ map snd (filter (\<lambda>p. fst p = k) ps)"
  by (induction ps arbitrary: q) (auto simp: values_of_add_value)

lemma set_update_sub: "set (AList.update k v al) \<subseteq> insert (k, v) (set al)"
  by (induction al) auto

lemma wf_update: "wf_values q \<Longrightarrow> vs \<noteq> [] \<Longrightarrow> wf_values (AList.update k vs q)"
  unfolding wf_values_def using set_update_sub [of k vs q] by (auto simp: distinct_update)

lemma set_delete_sub: "set (AList.delete k al) \<subseteq> set al"
  by (induction al) auto

lemma wf_delete: "wf_values q \<Longrightarrow> wf_values (AList.delete k q)"
  by (auto simp: wf_values_def AList.distinct_delete dest: set_mp [OF set_delete_sub])

lemma wf_add_value: "wf_values q \<Longrightarrow> wf_values (add_value k v q)"
  by (simp add: add_value_def wf_update)

lemma wf_parse_query: "wf_values (parse_query s)"
proof -
  have "wf_values q \<Longrightarrow> wf_values (fold add_piece ps q)" for ps q
    by (induction ps arbitrary: q) (auto simp: add_piece_def wf_add_value split: option.splits)
  moreover have "wf_values []" by (simp add: wf_values_def)
  ultimately show ?thesis by (simp add: parse_query_def)
qed

lemma query_pieces_values:
  assumes "distinct (map fst q)"
  shows "map snd (filter (\<lambda>p. fst p = k) (query_pieces q)) = values_of q k"
proof -
  have "map snd (filter (\<lambda>p. fst p = k) (concat (map (\<lambda>k. map (Pair k) (values_of q k)) ks))) = (if k \<in> set ks then values_of q k else [])"
    if "distinct ks" for ks
    using that by (induction ks) (auto simp: filter_map o_def filter_empty_conv)
  then have "map snd (filter (\<lambda>p. fst p = k) (query_pieces q)) = (if k \<in> fst ` set q then values_of q k else [])"
    using assms by (simp add: query_pieces_def)
  moreover have "k \<notin> fst ` set q \<Longrightarrow> values_of q k = []" by (simp add: values_of_def flip: map_of_eq_None_iff)
  ultimately show ?thesis by simp
qed

lemma parse_query_Encode:
  assumes "wf_values q"
  shows "values_of (parse_query (Encode q)) k = values_of q k"
proof -
  define enc where "enc = (\<lambda>(k, v). QueryEscape k @ CHR ''='' # QueryEscape v)"
  have pieces: "fold add_piece (map enc ps) q0 = fold (\<lambda>(k, v). add_value k v) ps q0" for ps q0
    by (induction ps arbitrary: q0) (auto simp: add_piece_def enc_def)
  have "parse_query (Encode q) = fold (\<lambda>(k, v). add_value k v) (query_pieces q) []"
  proof (cases "query_pieces q = []")
    case True
    then show ?thesis by (simp add: parse_query_def Encode_def add_piece_def query_pair_def)
  next
    case False
    then have "split_byte (CHR ''&'') (Encode q) = map enc (query_pieces q)"
      unfolding Encode_def enc_def by (intro split_join) (auto simp: QueryEscape_sep)
    then show ?thesis by (simp add: parse_query_def pieces)
  qed
  then show ?thesis using assms query_pieces_values [of q k]
    by (simp add: values_of_fold wf_values_def) (simp add: values_of_def)
qed

subsection \<open>The request URI\<close>

record URL =
  url_Scheme :: string
  url_Opaque :: string
  url_Path :: string
  url_RawPath :: string
  url_ForceQuery :: bool
  url_RawQuery :: string

text \<open>\<^verbatim>\<open>validEncoded\<close>: an escaped path as a client may have written it.\<close>

definition valid_encoded_path :: "string \<Rightarrow> bool" where
  "valid_encoded_path s \<longleftrightarrow> list_all (\<lambda>c. path_char c \<or> c \<in> set ''![]()*%'' \<or> c = char_of (39 :: nat)) s"

definition EscapedPath :: "URL \<Rightarrow> string" where
  "EscapedPath u =
     (if url_RawPath u \<noteq> [] \<and> valid_encoded_path (url_RawPath u) \<and> unescape False (url_RawPath u) = Some (url_Path u) then url_RawPath u
      else if url_Path u = ''*'' then ''*''
      else escape path_char False (url_Path u))"

definition URL_RequestURI :: "URL \<Rightarrow> string" where
  "URL_RequestURI u =
     (let result =
        (if url_Opaque u = [] then (if EscapedPath u = [] then ''/'' else EscapedPath u)
         else if has_prefix (url_Opaque u) ''//'' then url_Scheme u @ '':'' @ url_Opaque u
         else url_Opaque u)
      in if url_ForceQuery u \<or> url_RawQuery u \<noteq> [] then result @ ''?'' @ url_RawQuery u else result)"

definition URL_Query :: "URL \<Rightarrow> query_values" where
  "URL_Query u = parse_query (url_RawQuery u)"

text \<open>A path that was rewritten by value is read back from its escaped form.\<close>

lemma EscapedPath_reads_back: "url_RawPath u = [] \<Longrightarrow> unescape False (EscapedPath u) = Some (url_Path u)"
  by (simp add: EscapedPath_def path_escaping.unescape_escape)

subsection \<open>Headers\<close>

definition header_byte :: "char \<Rightarrow> bool" where
  "header_byte c \<longleftrightarrow> is_upper c \<or> is_lower c \<or> is_digit c \<or> c \<in> set ''!#$%&*+-.^_|~'' \<or> c = char_of (39 :: nat) \<or> c = char_of (96 :: nat)"

definition upper_char :: "char \<Rightarrow> char" where
  "upper_char c = (if is_lower c then char_of (of_char c - 32 :: nat) else c)"

fun canonical_from :: "bool \<Rightarrow> string \<Rightarrow> string" where
  "canonical_from up [] = []"
| "canonical_from up (c # cs) = (if up then upper_char c else lower_char c) # canonical_from (c = CHR ''-'') cs"

definition CanonicalHeaderKey :: "string \<Rightarrow> string" where
  "CanonicalHeaderKey s = (if list_all header_byte s then canonical_from True s else s)"

type_synonym Header = "string \<rightharpoonup> string list"

definition Header_Set :: "string \<Rightarrow> string \<Rightarrow> Header \<Rightarrow> Header" where
  "Header_Set name val h = h(CanonicalHeaderKey name \<mapsto> [val])"

definition Header_Del :: "string \<Rightarrow> Header \<Rightarrow> Header" where
  "Header_Del name h = h(CanonicalHeaderKey name := None)"

subsection \<open>Replacement\<close>

text \<open>\<^verbatim>\<open>strings.ReplaceAll\<close> for a non-empty old text.\<close>

function (sequential) ReplaceAll :: "string \<Rightarrow> string \<Rightarrow> string \<Rightarrow> string" where
  "ReplaceAll [] old new = []"
| "ReplaceAll (c # cs) old new =
     (if has_prefix (c # cs) old then new @ ReplaceAll (drop (length old - 1) cs) old new
      else c # ReplaceAll cs old new)"
  by pat_completeness auto
termination by (relation "measure (\<lambda>(s, _, _). length s)") auto

end
