(* ===== verification/Transform_Rules.thy ===== *)
theory Transform_Rules
  imports Go_URL Config_Reload
begin

section \<open>Transform rules\<close>

text \<open>
  The request and response transformations of \<^verbatim>\<open>transformrule/transformrule.go\<close>: compilation of the YAML documents of a zone
  and the handler that runs a compiled zone around the next handler.

  A closure of the code is a function: a request operation maps the request and the original URI to the mutated request and,
  if it short-circuits, the arguments of its call of \<^verbatim>\<open>http.Redirect\<close>. A handler maps a request to what it did, of a
  type \<open>'w\<close> that is left open. The record \<open>transform_lib\<close> holds the code outside the repository: YAML decoding, the
  CEL engine, regular expressions, the validity tests of \<^verbatim>\<open>httpguts\<close>, the CORS middleware and the response interceptor,
  which gets as argument the callback that edits the response headers and perhaps writes a status.
\<close>

record 'x treq =
  rq_Header :: Header
  rq_URL :: URL
  rq_rest :: 'x

record Op =
  op_Type :: string
  op_Name :: string
  op_Value :: string
  op_To :: string
  op_Path :: string
  op_Regex :: string
  op_Replace :: string
  op_Query :: "(string \<times> string) list"
  op_RemoveQuery :: "string list"
  op_Status :: int
  op_AllowOrigins :: "string list"
  op_AllowMethods :: "string list"
  op_AllowHeaders :: "string list"
  op_ExposeHeaders :: "string list"
  op_AllowCredentials :: bool
  op_MaxAge :: string

record transform_Rule =
  tr_ID :: string
  tr_Description :: string
  tr_Phase :: string
  tr_Filter :: string
  tr_Ops :: "Op list"
  tr_Mode :: string
  tr_Priority :: int

type_synonym redirect_call = "string \<times> int"
type_synonym 'x reqOp = "'x treq \<Rightarrow> string \<Rightarrow> redirect_call option \<times> 'x treq"

text \<open>A response operation is a status override or a header mutation, never both and never neither.\<close>

datatype respOp = SetStatus int | Mutate "Header \<Rightarrow> Header"

record 'o CORS =
  cors_AllowAllOrigins :: bool
  cors_AllowOrigins :: "'o option"
  cors_AllowMethods :: "string list"
  cors_AllowHeaders :: "string list"
  cors_ExposeHeaders :: "string list"
  cors_AllowCredentials :: bool
  cors_MaxAge :: duration

record 'x transform_Options =
  opt_Country :: "('x treq \<Rightarrow> string) option"
  opt_ASN :: "('x treq \<Rightarrow> int) option"
  opt_FilterCostLimit :: nat
  opt_FilterDisableMacros :: bool

text \<open>The three compiled rule types of the code differ in what they carry.\<close>

record ('p, 'a) compiledRule =
  cr_id :: string
  cr_prio :: int
  cr_filter :: "'p option"
  cr_shadow :: bool
  cr_ops :: 'a

record ('p, 'o, 'x) transform_Zone =
  z_reqRules :: "('p, 'x reqOp list) compiledRule list"
  z_respRules :: "('p, respOp list) compiledRule list"
  z_corsRules :: "('p, 'o CORS) compiledRule list"
  z_country :: "('x treq \<Rightarrow> string) option"
  z_asn :: "('x treq \<Rightarrow> int) option"

datatype transform_error =
    DocumentSyntax
  | NoTransforms
  | BadTransformFilter
  | BadTransformMode string
  | NoOps
  | BadPhase string
  | BadHeaderName string
  | BadHeaderValue string
  | RedirectNotAlone
  | PathAndRegex
  | PathMissing
  | BadRegex
  | QueryMissing
  | NotRequestOp nat string
  | NotResponseOp nat string
  | StatusRange int
  | CorsNotAlone
  | CorsMaxAge
  | CorsOriginsRequired
  | CorsWildcardCredentials

record ('p, 'i, 're, 'o, 'x, 'w) transform_lib =
  tl_decode :: "string \<Rightarrow> transform_Rule list option"
  tl_newPredicate :: "string \<Rightarrow> nat option \<Rightarrow> bool \<Rightarrow> 'p option"
  tl_newInput :: "'x treq \<Rightarrow> string \<Rightarrow> int \<Rightarrow> 'i"
  tl_eval :: "'p \<Rightarrow> 'i \<Rightarrow> bool option"
  tl_compileRegex :: "string \<Rightarrow> 're option"
  tl_replaceAll :: "'re \<Rightarrow> string \<Rightarrow> string \<Rightarrow> string"
  tl_parseDuration :: "string \<Rightarrow> duration option"
  tl_validName :: "string \<Rightarrow> bool"
  tl_validValue :: "string \<Rightarrow> bool"
  tl_allowOrigins :: "string list \<Rightarrow> 'o"
  tl_cors :: "'o CORS \<Rightarrow> ('x treq \<Rightarrow> 'w) \<Rightarrow> 'x treq \<Rightarrow> 'w"
  tl_intercept :: "(Header \<Rightarrow> Header \<times> int option) \<Rightarrow> ('x treq \<Rightarrow> 'w) \<Rightarrow> 'x treq \<Rightarrow> 'w"

subsection \<open>Compilation\<close>

definition predicateOptions_cost :: "'x transform_Options \<Rightarrow> nat option" where
  "predicateOptions_cost o' = (if opt_FilterCostLimit o' > 0 then Some (opt_FilterCostLimit o') else None)"

definition validateHeaderName :: "('p, 'i, 're, 'o, 'x, 'w) transform_lib \<Rightarrow> string \<Rightarrow> transform_error option" where
  "validateHeaderName lib name = (if \<not> tl_validName lib name then Some (BadHeaderName name) else None)"

definition validateHeaderNameValue ::
  "('p, 'i, 're, 'o, 'x, 'w) transform_lib \<Rightarrow> string \<Rightarrow> string \<Rightarrow> transform_error option" where
  "validateHeaderNameValue lib name val =
     (case validateHeaderName lib name of
        Some e \<Rightarrow> Some e
      | None \<Rightarrow> if \<not> tl_validValue lib val then Some (BadHeaderValue name) else None)"

definition set_path :: "string \<Rightarrow> 'x treq \<Rightarrow> 'x treq" where
  "set_path p r = r\<lparr>rq_URL := (rq_URL r)\<lparr>url_Path := p, url_RawPath := []\<rparr>\<rparr>"

definition compileRewritePath ::
  "('p, 'i, 're, 'o, 'x, 'w) transform_lib \<Rightarrow> Op \<Rightarrow> transform_error + 'x reqOp" where
  "compileRewritePath lib opr =
     (if op_Path opr \<noteq> [] then
        (if op_Regex opr \<noteq> [] \<or> op_Replace opr \<noteq> [] then Inl PathAndRegex
         else Inr (\<lambda>r _. (None, set_path (op_Path opr) r)))
      else if op_Regex opr = [] \<or> op_Replace opr = [] then Inl PathMissing
      else case tl_compileRegex lib (op_Regex opr) of
        None \<Rightarrow> Inl BadRegex
      | Some re \<Rightarrow> Inr (\<lambda>r _. (None, set_path (tl_replaceAll lib re (url_Path (rq_URL r)) (op_Replace opr)) r)))"

definition rewrite_query :: "(string \<times> string) list \<Rightarrow> string list \<Rightarrow> 'x treq \<Rightarrow> 'x treq" where
  "rewrite_query setQuery removeQuery r =
     (let q = URL_Query (rq_URL r);
          q = fold (\<lambda>(k, v). AList.update k [v]) setQuery q;
          q = fold AList.delete removeQuery q
      in r\<lparr>rq_URL := (rq_URL r)\<lparr>url_RawQuery := Encode q\<rparr>\<rparr>)"

definition compileRewriteQuery :: "Op \<Rightarrow> transform_error + 'x reqOp" where
  "compileRewriteQuery opr =
     (if op_Query opr = [] \<and> op_RemoveQuery opr = [] then Inl QueryMissing
      else Inr (\<lambda>r _. (None, rewrite_query (op_Query opr) (op_RemoveQuery opr) r)))"

definition redirect_status :: "Op \<Rightarrow> int" where
  "redirect_status opr = (if op_Status opr = 0 then 302 else op_Status opr)"

definition redirect_op :: "Op \<Rightarrow> 'x reqOp" where
  "redirect_op opr = (\<lambda>r origURI. (Some (ReplaceAll (op_To opr) ''$uri'' origURI, redirect_status opr), r))"

text \<open>One round of the loop of \<open>compileReqOps\<close>; \<open>n\<close> is the number of operations of the rule.\<close>

definition compileReqOp ::
  "('p, 'i, 're, 'o, 'x, 'w) transform_lib \<Rightarrow> nat \<Rightarrow> nat \<Rightarrow> Op \<Rightarrow> transform_error + 'x reqOp" where
  "compileReqOp lib n i opr =
     (if op_Type opr = ''set-header'' then
        (case validateHeaderNameValue lib (op_Name opr) (op_Value opr) of
           Some e \<Rightarrow> Inl e
         | None \<Rightarrow> Inr (\<lambda>r _. (None, r\<lparr>rq_Header := Header_Set (op_Name opr) (op_Value opr) (rq_Header r)\<rparr>)))
      else if op_Type opr = ''remove-header'' then
        (case validateHeaderName lib (op_Name opr) of
           Some e \<Rightarrow> Inl e
         | None \<Rightarrow> Inr (\<lambda>r _. (None, r\<lparr>rq_Header := Header_Del (op_Name opr) (rq_Header r)\<rparr>)))
      else if op_Type opr = ''rewrite-path'' then compileRewritePath lib opr
      else if op_Type opr = ''rewrite-query'' then compileRewriteQuery opr
      else if op_Type opr = ''redirect'' then (if n \<noteq> 1 then Inl RedirectNotAlone else Inr (redirect_op opr))
      else Inl (NotRequestOp i (op_Type opr)))"

fun sum_seq :: "nat \<Rightarrow> (nat \<Rightarrow> 'a \<Rightarrow> 'e + 'b) \<Rightarrow> 'a list \<Rightarrow> 'e + 'b list" where
  "sum_seq i f [] = Inr []"
| "sum_seq i f (x # xs) =
     (case f i x of
        Inl e \<Rightarrow> Inl e
      | Inr y \<Rightarrow> (case sum_seq (Suc i) f xs of Inl e \<Rightarrow> Inl e | Inr ys \<Rightarrow> Inr (y # ys)))"

definition compileReqOps ::
  "('p, 'i, 're, 'o, 'x, 'w) transform_lib \<Rightarrow> Op list \<Rightarrow> transform_error + 'x reqOp list" where
  "compileReqOps lib ops = sum_seq 0 (compileReqOp lib (length ops)) ops"

definition compileRespOp ::
  "('p, 'i, 're, 'o, 'x, 'w) transform_lib \<Rightarrow> nat \<Rightarrow> Op \<Rightarrow> transform_error + respOp" where
  "compileRespOp lib i opr =
     (if op_Type opr = ''set-header'' then
        (case validateHeaderNameValue lib (op_Name opr) (op_Value opr) of
           Some e \<Rightarrow> Inl e
         | None \<Rightarrow> Inr (Mutate (Header_Set (op_Name opr) (op_Value opr))))
      else if op_Type opr = ''remove-header'' then
        (case validateHeaderName lib (op_Name opr) of Some e \<Rightarrow> Inl e | None \<Rightarrow> Inr (Mutate (Header_Del (op_Name opr))))
      else if op_Type opr = ''set-status'' then
        (if op_Status opr < 100 \<or> op_Status opr > 599 then Inl (StatusRange (op_Status opr))
         else Inr (SetStatus (op_Status opr)))
      else if op_Type opr = ''cors'' then Inl CorsNotAlone
      else Inl (NotResponseOp i (op_Type opr)))"

definition compileRespOps ::
  "('p, 'i, 're, 'o, 'x, 'w) transform_lib \<Rightarrow> Op list \<Rightarrow> transform_error + respOp list" where
  "compileRespOps lib ops = sum_seq 0 (compileRespOp lib) ops"

definition isCORSRule :: "Op list \<Rightarrow> bool" where
  "isCORSRule ops \<longleftrightarrow> length ops = 1 \<and> op_Type (hd ops) = ''cors''"

definition compileCORS ::
  "('p, 'i, 're, 'o, 'x, 'w) transform_lib \<Rightarrow> Op \<Rightarrow> transform_error + 'o CORS" where
  "compileCORS lib opr =
     (case (if op_MaxAge opr \<noteq> [] then tl_parseDuration lib (op_MaxAge opr) else Some 0) of
        None \<Rightarrow> Inl CorsMaxAge
      | Some maxAge \<Rightarrow>
          (let c = \<lparr>cors_AllowAllOrigins = False, cors_AllowOrigins = None, cors_AllowMethods = op_AllowMethods opr,
                    cors_AllowHeaders = op_AllowHeaders opr, cors_ExposeHeaders = op_ExposeHeaders opr,
                    cors_AllowCredentials = op_AllowCredentials opr, cors_MaxAge = maxAge\<rparr> in
           if op_AllowOrigins opr = [] then Inl CorsOriginsRequired
           else if op_AllowOrigins opr = [''*''] then
             (if op_AllowCredentials opr then Inl CorsWildcardCredentials
              else Inr (c\<lparr>cors_AllowAllOrigins := True\<rparr>))
           else Inr (c\<lparr>cors_AllowOrigins := Some (tl_allowOrigins lib (op_AllowOrigins opr))\<rparr>)))"

definition rule_of :: "transform_Rule \<Rightarrow> 'p option \<Rightarrow> 'a \<Rightarrow> ('p, 'a) compiledRule" where
  "rule_of rule flt ops =
     \<lparr>cr_id = tr_ID rule, cr_prio = tr_Priority rule, cr_filter = flt, cr_shadow = (tr_Mode rule = ''shadow''), cr_ops = ops\<rparr>"

definition compileRule ::
  "('p, 'i, 're, 'o, 'x, 'w) transform_lib \<Rightarrow> 'x transform_Options \<Rightarrow> transform_Rule \<Rightarrow> ('p, 'o, 'x) transform_Zone
    \<Rightarrow> transform_error + ('p, 'o, 'x) transform_Zone" where
  "compileRule lib opts rule z =
     (let f = trim_space (tr_Filter rule);
          flt = (if f \<noteq> [] then tl_newPredicate lib f (predicateOptions_cost opts) (opt_FilterDisableMacros opts) else None)
      in if f \<noteq> [] \<and> Option.is_none flt then Inl BadTransformFilter
         else if tr_Mode rule \<noteq> [] \<and> tr_Mode rule \<noteq> ''shadow'' then Inl (BadTransformMode (tr_Mode rule))
         else if tr_Ops rule = [] then Inl NoOps
         else if tr_Phase rule = ''request'' then
           (case compileReqOps lib (tr_Ops rule) of
              Inl e \<Rightarrow> Inl e
            | Inr ops \<Rightarrow> Inr (z\<lparr>z_reqRules := z_reqRules z @ [rule_of rule flt ops]\<rparr>))
         else if tr_Phase rule = ''response'' then
           (if isCORSRule (tr_Ops rule) then
              (case compileCORS lib (hd (tr_Ops rule)) of
                 Inl e \<Rightarrow> Inl e
               | Inr c \<Rightarrow> Inr (z\<lparr>z_corsRules := z_corsRules z @ [rule_of rule flt c]\<rparr>))
            else
              (case compileRespOps lib (tr_Ops rule) of
                 Inl e \<Rightarrow> Inl e
               | Inr ops \<Rightarrow> Inr (z\<lparr>z_respRules := z_respRules z @ [rule_of rule flt ops]\<rparr>)))
         else Inl (BadPhase (tr_Phase rule)))"

fun compileRules ::
  "('p, 'i, 're, 'o, 'x, 'w) transform_lib \<Rightarrow> 'x transform_Options \<Rightarrow> transform_Rule list \<Rightarrow> ('p, 'o, 'x) transform_Zone
    \<Rightarrow> transform_error + ('p, 'o, 'x) transform_Zone" where
  "compileRules lib opts [] z = Inr z"
| "compileRules lib opts (rule # rules) z =
     (case compileRule lib opts rule z of Inl e \<Rightarrow> Inl e | Inr z' \<Rightarrow> compileRules lib opts rules z')"

fun decode_docs ::
  "('p, 'i, 're, 'o, 'x, 'w) transform_lib \<Rightarrow> string list \<Rightarrow> transform_error + transform_Rule list" where
  "decode_docs lib [] = Inr []"
| "decode_docs lib (doc # docs) =
     (if trim_space doc = [] then decode_docs lib docs
      else case tl_decode lib doc of
        None \<Rightarrow> Inl DocumentSyntax
      | Some rules \<Rightarrow>
          if rules = [] then Inl NoTransforms
          else (case decode_docs lib docs of Inl e \<Rightarrow> Inl e | Inr rest \<Rightarrow> Inr (rules @ rest)))"

definition sort_zone :: "('p, 'o, 'x) transform_Zone \<Rightarrow> ('p, 'o, 'x) transform_Zone" where
  "sort_zone z = z\<lparr>z_reqRules := sort_key cr_prio (z_reqRules z), z_respRules := sort_key cr_prio (z_respRules z),
     z_corsRules := sort_key cr_prio (z_corsRules z)\<rparr>"

definition new_zone :: "'x transform_Options \<Rightarrow> ('p, 'o, 'x) transform_Zone" where
  "new_zone opts = \<lparr>z_reqRules = [], z_respRules = [], z_corsRules = [], z_country = opt_Country opts, z_asn = opt_ASN opts\<rparr>"

definition transform_Parse ::
  "('p, 'i, 're, 'o, 'x, 'w) transform_lib \<Rightarrow> 'x transform_Options \<Rightarrow> string list \<Rightarrow> transform_error + ('p, 'o, 'x) transform_Zone" where
  "transform_Parse lib opts docs =
     (case decode_docs lib docs of
        Inl e \<Rightarrow> Inl e
      | Inr rules \<Rightarrow>
          (case compileRules lib opts rules (new_zone opts) of
             Inl e \<Rightarrow> Inl e
           | Inr z \<Rightarrow> Inr (sort_zone z)))"

definition Zone_IDs :: "('p, 'o, 'x) transform_Zone \<Rightarrow> string list" where
  "Zone_IDs z = map cr_id (z_reqRules z) @ map cr_id (z_respRules z) @ map cr_id (z_corsRules z)"

definition Zone_Empty :: "('p, 'o, 'x) transform_Zone \<Rightarrow> bool" where
  "Zone_Empty z \<longleftrightarrow> z_reqRules z = [] \<and> z_respRules z = [] \<and> z_corsRules z = []"

subsection \<open>Serving\<close>

text \<open>
  The request snapshot that the filters see is built at most once between two mutations: \<open>cache\<close> is \<open>input\<close> while \<open>inputValid\<close>.
\<close>

definition request_snapshot :: "('p, 'i, 're, 'o, 'x, 'w) transform_lib \<Rightarrow> ('p, 'o, 'x) transform_Zone \<Rightarrow> 'x treq \<Rightarrow> 'i" where
  "request_snapshot lib z r =
     tl_newInput lib r (case z_country z of None \<Rightarrow> [] | Some f \<Rightarrow> f r) (case z_asn z of None \<Rightarrow> 0 | Some f \<Rightarrow> f r)"

definition evalInput ::
  "('p, 'i, 're, 'o, 'x, 'w) transform_lib \<Rightarrow> ('p, 'o, 'x) transform_Zone \<Rightarrow> 'x treq \<Rightarrow> 'i option \<Rightarrow> 'i" where
  "evalInput lib z r cache = (case cache of Some i \<Rightarrow> i | None \<Rightarrow> request_snapshot lib z r)"

definition matched ::
  "('p, 'i, 're, 'o, 'x, 'w) transform_lib \<Rightarrow> ('p, 'o, 'x) transform_Zone \<Rightarrow> 'x treq \<Rightarrow> 'p option \<Rightarrow> 'i option \<Rightarrow> bool \<times> 'i option" where
  "matched lib z r flt cache =
     (case flt of
        None \<Rightarrow> (True, cache)
      | Some p \<Rightarrow>
          (let i = evalInput lib z r cache in
           (case tl_eval lib p i of None \<Rightarrow> False | Some ok \<Rightarrow> ok, Some i)))"

fun run_ops :: "'x reqOp list \<Rightarrow> string \<Rightarrow> 'x treq \<Rightarrow> redirect_call option \<times> 'x treq" where
  "run_ops [] origURI r = (None, r)"
| "run_ops (f # fs) origURI r =
     (case f r origURI of (Some c, r') \<Rightarrow> (Some c, r') | (None, r') \<Rightarrow> run_ops fs origURI r')"

fun req_phase ::
  "('p, 'i, 're, 'o, 'x, 'w) transform_lib \<Rightarrow> ('p, 'o, 'x) transform_Zone \<Rightarrow> string \<Rightarrow> ('p, 'x reqOp list) compiledRule list
    \<Rightarrow> 'x treq \<Rightarrow> 'i option \<Rightarrow> redirect_call option \<times> 'x treq \<times> 'i option" where
  "req_phase lib z origURI [] r cache = (None, r, cache)"
| "req_phase lib z origURI (rule # rules) r cache =
     (let (ok, cache') = matched lib z r (cr_filter rule) cache in
      if \<not> ok \<or> cr_shadow rule then req_phase lib z origURI rules r cache'
      else case run_ops (cr_ops rule) origURI r of
        (Some c, r') \<Rightarrow> (Some c, r', cache')
      | (None, r') \<Rightarrow> req_phase lib z origURI rules r' None)"

fun resp_phase ::
  "('p, 'i, 're, 'o, 'x, 'w) transform_lib \<Rightarrow> ('p, 'o, 'x) transform_Zone \<Rightarrow> 'x treq \<Rightarrow> ('p, respOp list) compiledRule list
    \<Rightarrow> 'i option \<Rightarrow> respOp list \<times> 'i option" where
  "resp_phase lib z r [] cache = ([], cache)"
| "resp_phase lib z r (rule # rules) cache =
     (let (ok, cache') = matched lib z r (cr_filter rule) cache;
          (ops, cache'') = resp_phase lib z r rules cache'
      in if \<not> ok \<or> cr_shadow rule then (ops, cache'') else (cr_ops rule @ ops, cache''))"

text \<open>The callback of the interceptor: header mutations in order, then the last status override.\<close>

fun intercept_loop :: "respOp list \<Rightarrow> int \<Rightarrow> Header \<Rightarrow> Header \<times> int" where
  "intercept_loop [] st h = (h, st)"
| "intercept_loop (SetStatus s # ops) st h = intercept_loop ops s h"
| "intercept_loop (Mutate f # ops) st h = intercept_loop ops st (f h)"

definition intercept_callback :: "respOp list \<Rightarrow> Header \<Rightarrow> Header \<times> int option" where
  "intercept_callback ops h =
     (let (h', st) = intercept_loop ops 0 h in (h', if st > 0 then Some st else None))"

text \<open>The loop over the CORS rules, from the last to the first; it gets the rules in that order.\<close>

fun cors_phase ::
  "('p, 'i, 're, 'o, 'x, 'w) transform_lib \<Rightarrow> ('p, 'o, 'x) transform_Zone \<Rightarrow> 'x treq \<Rightarrow> ('p, 'o CORS) compiledRule list
    \<Rightarrow> 'i option \<Rightarrow> ('x treq \<Rightarrow> 'w) \<Rightarrow> 'x treq \<Rightarrow> 'w" where
  "cors_phase lib z r [] cache h = h"
| "cors_phase lib z r (rule # rules) cache h =
     (let (ok, cache') = matched lib z r (cr_filter rule) cache in
      cors_phase lib z r rules cache' (if \<not> ok \<or> cr_shadow rule then h else tl_cors lib (cr_ops rule) h))"

text \<open>Either the call of \<^verbatim>\<open>http.Redirect\<close> with the request it gets, or what the wrapped handler did.\<close>

datatype ('x, 'w) outcome = Redirected "'x treq" string int | Served 'w

definition Zone_ServeHandler ::
  "('p, 'i, 're, 'o, 'x, 'w) transform_lib \<Rightarrow> ('p, 'o, 'x) transform_Zone \<Rightarrow> ('x treq \<Rightarrow> 'w) \<Rightarrow> 'x treq \<Rightarrow> ('x, 'w) outcome" where
  "Zone_ServeHandler lib z next r =
     (let origURI = URL_RequestURI (rq_URL r) in
      case req_phase lib z origURI (z_reqRules z) r None of
        (Some (target, st), r', _) \<Rightarrow> Redirected r' target st
      | (None, r', cache) \<Rightarrow>
          (let (respOps, cache') = resp_phase lib z r' (z_respRules z) cache;
               h = (if respOps \<noteq> [] then tl_intercept lib (intercept_callback respOps) next else next)
           in Served (cors_phase lib z r' (rev (z_corsRules z)) cache' h r')))"

subsection \<open>A reference without snapshots\<close>

text \<open>A rule fires on a request when it enforces and its filter, on a fresh snapshot, is true and not failing.\<close>

definition fires :: "('p, 'i, 're, 'o, 'x, 'w) transform_lib \<Rightarrow> ('p, 'o, 'x) transform_Zone \<Rightarrow> 'x treq \<Rightarrow> ('p, 'a) compiledRule \<Rightarrow> bool" where
  "fires lib z r rule \<longleftrightarrow> \<not> cr_shadow rule \<and>
     (case cr_filter rule of None \<Rightarrow> True | Some p \<Rightarrow> tl_eval lib p (request_snapshot lib z r) = Some True)"

fun rewrite :: "('p, 'i, 're, 'o, 'x, 'w) transform_lib \<Rightarrow> ('p, 'o, 'x) transform_Zone \<Rightarrow> string \<Rightarrow> ('p, 'x reqOp list) compiledRule list
    \<Rightarrow> 'x treq \<Rightarrow> redirect_call option \<times> 'x treq" where
  "rewrite lib z origURI [] r = (None, r)"
| "rewrite lib z origURI (rule # rules) r =
     (if fires lib z r rule then
        (case run_ops (cr_ops rule) origURI r of (Some c, r') \<Rightarrow> (Some c, r') | (None, r') \<Rightarrow> rewrite lib z origURI rules r')
      else rewrite lib z origURI rules r)"

definition respond :: "('p, 'i, 're, 'o, 'x, 'w) transform_lib \<Rightarrow> ('p, 'o, 'x) transform_Zone \<Rightarrow> 'x treq \<Rightarrow> respOp list" where
  "respond lib z r = concat (map cr_ops (filter (fires lib z r) (z_respRules z)))"

definition around :: "('p, 'i, 're, 'o, 'x, 'w) transform_lib \<Rightarrow> ('p, 'o, 'x) transform_Zone \<Rightarrow> 'x treq \<Rightarrow> ('x treq \<Rightarrow> 'w) \<Rightarrow> 'x treq \<Rightarrow> 'w" where
  "around lib z r h = foldr (\<lambda>rule. tl_cors lib (cr_ops rule)) (filter (fires lib z r) (z_corsRules z)) h"

definition snapshot_ok :: "('p, 'i, 're, 'o, 'x, 'w) transform_lib \<Rightarrow> ('p, 'o, 'x) transform_Zone \<Rightarrow> 'x treq \<Rightarrow> 'i option \<Rightarrow> bool" where
  "snapshot_ok lib z r cache \<longleftrightarrow> cache \<in> {None, Some (request_snapshot lib z r)}"

lemma matched_fires:
  assumes "snapshot_ok lib z r cache"
  shows "fst (matched lib z r (cr_filter rule) cache) \<and> \<not> cr_shadow rule \<longleftrightarrow> fires lib z r rule"
    and "snapshot_ok lib z r (snd (matched lib z r (cr_filter rule) cache))"
  using assms by (auto simp: matched_def fires_def evalInput_def snapshot_ok_def Let_def split: option.splits)

lemma req_phase_rewrite:
  "snapshot_ok lib z r cache \<Longrightarrow> (case req_phase lib z u rules r cache of (c, r', cache') \<Rightarrow>
      (c, r') = rewrite lib z u rules r \<and> (c = None \<longrightarrow> snapshot_ok lib z r' cache'))"
proof (induction rules arbitrary: r cache)
  case (Cons rule rules)
  note m = matched_fires [OF Cons.prems, of rule]
  show ?case
  proof (cases "fires lib z r rule")
    case True
    then show ?thesis using m Cons.IH [of "snd (run_ops (cr_ops rule) u r)" None]
      by (auto simp: split_def snapshot_ok_def split: option.splits prod.splits)
  next
    case False
    then show ?thesis using m Cons.IH [OF m(2)] by (auto simp: split_def)
  qed
qed simp

lemma resp_phase_respond:
  "snapshot_ok lib z r cache \<Longrightarrow> fst (resp_phase lib z r rules cache) = concat (map cr_ops (filter (fires lib z r) rules)) \<and>
     snapshot_ok lib z r (snd (resp_phase lib z r rules cache))"
proof (induction rules arbitrary: cache)
  case (Cons rule rules)
  show ?case using matched_fires [OF Cons.prems, of rule] Cons.IH [OF matched_fires(2) [OF Cons.prems]]
    by (auto simp: split_def Let_def)
qed simp

lemma cors_phase_around:
  "snapshot_ok lib z r cache \<Longrightarrow> cors_phase lib z r rules cache h = fold (\<lambda>rule. tl_cors lib (cr_ops rule)) (filter (fires lib z r) rules) h"
proof (induction rules arbitrary: cache h)
  case (Cons rule rules)
  show ?case using matched_fires [OF Cons.prems, of rule] Cons.IH [OF matched_fires(2) [OF Cons.prems]]
    by (auto simp: split_def Let_def)
qed simp

lemma rewrite_enforcing: "rewrite lib z u (filter (\<lambda>rule. \<not> cr_shadow rule) rules) r = rewrite lib z u rules r"
  by (induction rules arbitrary: r) (auto simp: fires_def split: option.splits prod.splits)

text \<open>C37. Serving a zone is serving its enforcing rules one by one on fresh snapshots: the snapshot that is kept between rules never
  changes an outcome, a rule in shadow mode changes nothing at all, and a rule whose filter is false or fails is passed over.
  The first redirect that fires ends the request phase; otherwise the response operations of the rules that fire on
  the rewritten request run in order in one interceptor, inside the CORS handlers of which the first rule is outermost.\<close>
theorem transform_serves_reference:
  "Zone_ServeHandler lib z next r =
     (case rewrite lib z (URL_RequestURI (rq_URL r)) (filter (\<lambda>rule. \<not> cr_shadow rule) (z_reqRules z)) r of
        (Some (target, st), r') \<Rightarrow> Redirected r' target st
      | (None, r') \<Rightarrow>
          (let ops = respond lib z r' in
           Served (around lib z r' (if ops \<noteq> [] then tl_intercept lib (intercept_callback ops) next else next) r')))"
proof -
  define u where "u = URL_RequestURI (rq_URL r)"
  obtain c r' cache where q: "req_phase lib z u (z_reqRules z) r None = (c, r', cache)" by (metis prod_cases3)
  have "snapshot_ok lib z r None" by (simp add: snapshot_ok_def)
  from req_phase_rewrite [OF this, of u "z_reqRules z"] q
  have w: "rewrite lib z u (z_reqRules z) r = (c, r')" and k: "c = None \<Longrightarrow> snapshot_ok lib z r' cache" by auto
  have e: "rewrite lib z u (filter (\<lambda>rule. \<not> cr_shadow rule) (z_reqRules z)) r = (c, r')"
    unfolding w [symmetric] by (rule rewrite_enforcing)
  show ?thesis
  proof (cases c)
    case None
    note s = resp_phase_respond [OF k [OF None], of "z_respRules z"]
    show ?thesis
      using s cors_phase_around [OF conjunct2 [OF s], of "rev (z_corsRules z)"] None
      by (simp add: Zone_ServeHandler_def q e split_def Let_def respond_def around_def rev_filter foldr_conv_fold del: concat_eq_Nil_conv flip: u_def)
  next
    case (Some call)
    then show ?thesis by (cases call) (simp add: Zone_ServeHandler_def q e flip: u_def)
  qed
qed

subsection \<open>Which documents compile\<close>

text \<open>What a declared rule has to satisfy, read off its fields.\<close>

definition declared_predicate ::
  "('p, 'i, 're, 'o, 'x, 'w) transform_lib \<Rightarrow> 'x transform_Options \<Rightarrow> transform_Rule \<Rightarrow> 'p option" where
  "declared_predicate lib opts rule =
     (if trim_space (tr_Filter rule) = [] then None
      else tl_newPredicate lib (trim_space (tr_Filter rule)) (predicateOptions_cost opts) (opt_FilterDisableMacros opts))"

definition valid_req_op :: "('p, 'i, 're, 'o, 'x, 'w) transform_lib \<Rightarrow> nat \<Rightarrow> Op \<Rightarrow> bool" where
  "valid_req_op lib n opr \<longleftrightarrow>
     op_Type opr = ''set-header'' \<and> tl_validName lib (op_Name opr) \<and> tl_validValue lib (op_Value opr) \<or>
     op_Type opr = ''remove-header'' \<and> tl_validName lib (op_Name opr) \<or>
     op_Type opr = ''rewrite-path'' \<and>
       (if op_Path opr \<noteq> [] then op_Regex opr = [] \<and> op_Replace opr = []
        else op_Regex opr \<noteq> [] \<and> op_Replace opr \<noteq> [] \<and> tl_compileRegex lib (op_Regex opr) \<noteq> None) \<or>
     op_Type opr = ''rewrite-query'' \<and> (op_Query opr \<noteq> [] \<or> op_RemoveQuery opr \<noteq> []) \<or>
     op_Type opr = ''redirect'' \<and> n = 1"

definition valid_resp_op :: "('p, 'i, 're, 'o, 'x, 'w) transform_lib \<Rightarrow> Op \<Rightarrow> bool" where
  "valid_resp_op lib opr \<longleftrightarrow>
     op_Type opr = ''set-header'' \<and> tl_validName lib (op_Name opr) \<and> tl_validValue lib (op_Value opr) \<or>
     op_Type opr = ''remove-header'' \<and> tl_validName lib (op_Name opr) \<or>
     op_Type opr = ''set-status'' \<and> 100 \<le> op_Status opr \<and> op_Status opr \<le> 599"

definition valid_cors_op :: "('p, 'i, 're, 'o, 'x, 'w) transform_lib \<Rightarrow> Op \<Rightarrow> bool" where
  "valid_cors_op lib opr \<longleftrightarrow> (op_MaxAge opr = [] \<or> tl_parseDuration lib (op_MaxAge opr) \<noteq> None) \<and> op_AllowOrigins opr \<noteq> [] \<and>
     \<not> (op_AllowOrigins opr = [''*''] \<and> op_AllowCredentials opr)"

definition valid_rule :: "('p, 'i, 're, 'o, 'x, 'w) transform_lib \<Rightarrow> 'x transform_Options \<Rightarrow> transform_Rule \<Rightarrow> bool" where
  "valid_rule lib opts rule \<longleftrightarrow>
     (trim_space (tr_Filter rule) = [] \<or> declared_predicate lib opts rule \<noteq> None) \<and> tr_Mode rule \<in> {[], ''shadow''} \<and> tr_Ops rule \<noteq> [] \<and>
     (tr_Phase rule = ''request'' \<and> list_all (valid_req_op lib (length (tr_Ops rule))) (tr_Ops rule) \<or>
      tr_Phase rule = ''response'' \<and>
        (if isCORSRule (tr_Ops rule) then valid_cors_op lib (hd (tr_Ops rule)) else list_all (valid_resp_op lib) (tr_Ops rule)))"

lemma sum_seq_ok: "(\<And>i x. isl (f i x) \<longleftrightarrow> \<not> P x) \<Longrightarrow> isl (sum_seq i f xs) \<longleftrightarrow> \<not> list_all P xs"
proof (induction xs arbitrary: i)
  case (Cons x xs)
  show ?case using Cons.prems [of i x] Cons.IH [OF Cons.prems, of "Suc i"]
    by (cases "f i x"; cases "sum_seq (Suc i) f xs") auto
qed simp

lemma sum_seq_set: "sum_seq i f xs = Inr ys \<Longrightarrow> y \<in> set ys \<Longrightarrow> \<exists>x \<in> set xs. \<exists>j. f j x = Inr y"
proof (induction xs arbitrary: i ys)
  case (Cons x xs)
  from Cons.prems(1) obtain y' ys' where "f i x = Inr y'" "sum_seq (Suc i) f xs = Inr ys'" "ys = y' # ys'"
    by (auto split: sum.splits)
  then show ?case using Cons.prems(2) Cons.IH [of "Suc i" ys'] by auto
qed simp

lemma validate_None:
  "validateHeaderName lib name = None \<longleftrightarrow> tl_validName lib name"
  "validateHeaderNameValue lib name val = None \<longleftrightarrow> tl_validName lib name \<and> tl_validValue lib val"
  by (auto simp: validateHeaderNameValue_def validateHeaderName_def)

lemma isl_validated: "isl (case v of None \<Rightarrow> Inr x | Some e \<Rightarrow> Inl e) \<longleftrightarrow> v \<noteq> None"
  by (simp split: option.split)

lemma compileRewritePath_ok:
  "isl (compileRewritePath lib opr) \<longleftrightarrow>
     \<not> (if op_Path opr \<noteq> [] then op_Regex opr = [] \<and> op_Replace opr = []
        else op_Regex opr \<noteq> [] \<and> op_Replace opr \<noteq> [] \<and> tl_compileRegex lib (op_Regex opr) \<noteq> None)"
  by (simp add: compileRewritePath_def split: option.split)

lemma compileReqOp_ok: "isl (compileReqOp lib n i opr) \<longleftrightarrow> \<not> valid_req_op lib n opr"
  unfolding compileReqOp_def valid_req_op_def
  by (simp add: isl_validated validate_None compileRewritePath_ok compileRewriteQuery_def del: One_nat_def)

lemma compileRespOp_ok: "isl (compileRespOp lib i opr) \<longleftrightarrow> \<not> valid_resp_op lib opr"
  unfolding compileRespOp_def valid_resp_op_def by (auto simp: isl_validated validate_None)

lemma compileCORS_ok: "isl (compileCORS lib opr) \<longleftrightarrow> \<not> valid_cors_op lib opr"
  by (auto simp: compileCORS_def valid_cors_op_def Let_def split: option.splits)


text \<open>What a declared rule contributes to each phase of the zone.\<close>

definition req_part :: "('p, 'i, 're, 'o, 'x, 'w) transform_lib \<Rightarrow> 'x transform_Options \<Rightarrow> transform_Rule \<Rightarrow> ('p, 'x reqOp list) compiledRule list" where
  "req_part lib opts rule =
     (case (if tr_Phase rule = ''request'' then compileReqOps lib (tr_Ops rule) else Inl NoOps) of
        Inl _ \<Rightarrow> [] | Inr ops \<Rightarrow> [rule_of rule (declared_predicate lib opts rule) ops])"

definition resp_part :: "('p, 'i, 're, 'o, 'x, 'w) transform_lib \<Rightarrow> 'x transform_Options \<Rightarrow> transform_Rule \<Rightarrow> ('p, respOp list) compiledRule list" where
  "resp_part lib opts rule =
     (case (if tr_Phase rule = ''response'' \<and> \<not> isCORSRule (tr_Ops rule) then compileRespOps lib (tr_Ops rule) else Inl NoOps) of
        Inl _ \<Rightarrow> [] | Inr ops \<Rightarrow> [rule_of rule (declared_predicate lib opts rule) ops])"

definition cors_part :: "('p, 'i, 're, 'o, 'x, 'w) transform_lib \<Rightarrow> 'x transform_Options \<Rightarrow> transform_Rule \<Rightarrow> ('p, 'o CORS) compiledRule list" where
  "cors_part lib opts rule =
     (case (if tr_Phase rule = ''response'' \<and> isCORSRule (tr_Ops rule) then compileCORS lib (hd (tr_Ops rule)) else Inl NoOps) of
        Inl _ \<Rightarrow> [] | Inr c \<Rightarrow> [rule_of rule (declared_predicate lib opts rule) c])"

lemmas part_defs = req_part_def resp_part_def cors_part_def

definition add_parts ::
  "('p, 'i, 're, 'o, 'x, 'w) transform_lib \<Rightarrow> 'x transform_Options \<Rightarrow> transform_Rule list \<Rightarrow> ('p, 'o, 'x) transform_Zone \<Rightarrow> ('p, 'o, 'x) transform_Zone" where
  "add_parts lib opts rules z =
     z\<lparr>z_reqRules := z_reqRules z @ concat (map (req_part lib opts) rules),
       z_respRules := z_respRules z @ concat (map (resp_part lib opts) rules),
       z_corsRules := z_corsRules z @ concat (map (cors_part lib opts) rules)\<rparr>"

lemma isl_case_sum: "isl (case v of Inl e \<Rightarrow> Inl e | Inr y \<Rightarrow> Inr (f y)) \<longleftrightarrow> isl v"
  by (simp split: sum.split)

lemma compileRule_ok: "isl (compileRule lib opts rule z) \<longleftrightarrow> \<not> valid_rule lib opts rule"
proof -
  have "isl (compileReqOps lib ops) \<longleftrightarrow> \<not> list_all (valid_req_op lib (length ops)) ops"
    and "isl (compileRespOps lib ops) \<longleftrightarrow> \<not> list_all (valid_resp_op lib) ops" for ops
    unfolding compileReqOps_def compileRespOps_def by (intro sum_seq_ok compileReqOp_ok compileRespOp_ok)+
  then show ?thesis
    unfolding compileRule_def valid_rule_def Let_def declared_predicate_def Option.is_none_def
    by (cases "tl_newPredicate lib (trim_space (tr_Filter rule)) (predicateOptions_cost opts) (opt_FilterDisableMacros opts)")
      (simp_all add: isl_case_sum compileCORS_ok)
qed

lemma compileRule_parts: "compileRule lib opts rule z = Inr z' \<Longrightarrow> z' = add_parts lib opts [rule] z"
  unfolding compileRule_def Let_def
  by (auto simp: part_defs declared_predicate_def add_parts_def split: if_splits sum.splits)

lemma add_parts_append: "add_parts lib opts rules (add_parts lib opts [rule] z) = add_parts lib opts (rule # rules) z"
  by (simp add: add_parts_def)

lemma compileRules_iff:
  "compileRules lib opts rules z = Inr z' \<longleftrightarrow> list_all (valid_rule lib opts) rules \<and> z' = add_parts lib opts rules z"
proof (induction rules arbitrary: z)
  case Nil
  show ?case by (auto simp: add_parts_def)
next
  case (Cons rule rules)
  show ?case
  proof (cases "compileRule lib opts rule z")
    case (Inl e)
    then show ?thesis using compileRule_ok [of lib opts rule z] by simp
  next
    case (Inr z1)
    then show ?thesis using compileRule_ok [of lib opts rule z] compileRule_parts [OF Inr] Cons.IH [of z1]
      by (simp add: add_parts_append)
  qed
qed

text \<open>The rules declared by documents that decode.\<close>

definition declared_rules :: "('p, 'i, 're, 'o, 'x, 'w) transform_lib \<Rightarrow> string list \<Rightarrow> transform_Rule list" where
  "declared_rules lib docs = concat (map (\<lambda>doc. if trim_space doc = [] then [] else (case tl_decode lib doc of None \<Rightarrow> [] | Some rules \<Rightarrow> rules)) docs)"

definition good_doc :: "('p, 'i, 're, 'o, 'x, 'w) transform_lib \<Rightarrow> string \<Rightarrow> bool" where
  "good_doc lib doc \<longleftrightarrow> trim_space doc = [] \<or> (\<exists>rules. tl_decode lib doc = Some rules \<and> rules \<noteq> [])"

lemma decode_docs_cases:
  "case decode_docs lib docs of
     Inl _ \<Rightarrow> \<not> list_all (good_doc lib) docs
   | Inr rules \<Rightarrow> list_all (good_doc lib) docs \<and> rules = declared_rules lib docs"
proof (induction docs)
  case (Cons doc docs)
  then show ?case
    by (cases "decode_docs lib docs"; cases "tl_decode lib doc"; cases "trim_space doc = []")
      (auto simp: good_doc_def declared_rules_def)
qed (simp add: declared_rules_def)

lemma compileRules_cases:
  "case compileRules lib opts rules z of
     Inl _ \<Rightarrow> \<not> list_all (valid_rule lib opts) rules
   | Inr z' \<Rightarrow> list_all (valid_rule lib opts) rules \<and> z' = add_parts lib opts rules z"
  using compileRules_iff [of lib opts rules z] by (cases "compileRules lib opts rules z") auto

lemma transform_Parse_Inr:
  "transform_Parse lib opts docs = Inr z \<longleftrightarrow>
     list_all (good_doc lib) docs \<and> list_all (valid_rule lib opts) (declared_rules lib docs) \<and>
     z = sort_zone (add_parts lib opts (declared_rules lib docs) (new_zone opts))"
  using decode_docs_cases [of lib docs] compileRules_cases [of lib opts "declared_rules lib docs" "new_zone opts"]
  by (cases "decode_docs lib docs"; cases "compileRules lib opts (declared_rules lib docs) (new_zone opts)")
    (auto simp: transform_Parse_def)


lemma declared_all:
  "list_all P (declared_rules lib docs) \<longleftrightarrow>
     (\<forall>doc \<in> set docs. trim_space doc \<noteq> [] \<longrightarrow> (\<forall>rules. tl_decode lib doc = Some rules \<longrightarrow> (\<forall>rule \<in> set rules. P rule)))"
proof -
  have "list_all P (case tl_decode lib doc of None \<Rightarrow> [] | Some rules \<Rightarrow> rules) \<longleftrightarrow> (\<forall>rules. tl_decode lib doc = Some rules \<longrightarrow> (\<forall>rule \<in> set rules. P rule))" for doc
    by (cases "tl_decode lib doc") (simp_all add: list_all_iff)
  then show ?thesis by (induction docs) (auto simp: declared_rules_def)
qed

lemma ops_ok:
  "isl (compileReqOps lib ops) \<longleftrightarrow> \<not> list_all (valid_req_op lib (length ops)) ops"
  "isl (compileRespOps lib ops) \<longleftrightarrow> \<not> list_all (valid_resp_op lib) ops"
  unfolding compileReqOps_def compileRespOps_def by (intro sum_seq_ok compileReqOp_ok compileRespOp_ok)+

lemma parts_ids:
  assumes "valid_rule lib opts rule"
  shows "map cr_id (req_part lib opts rule) @ map cr_id (resp_part lib opts rule) @ map cr_id (cors_part lib opts rule) = [tr_ID rule]"
  using assms ops_ok [of lib "tr_Ops rule"] compileCORS_ok [of lib "hd (tr_Ops rule)"]
  by (cases "compileReqOps lib (tr_Ops rule)"; cases "compileRespOps lib (tr_Ops rule)"; cases "compileCORS lib (hd (tr_Ops rule))")
    (auto simp: part_defs valid_rule_def rule_of_def split: if_splits)

lemma add_parts_ids:
  "list_all (valid_rule lib opts) rules \<Longrightarrow> mset (Zone_IDs (add_parts lib opts rules (new_zone opts))) = mset (map tr_ID rules)"
proof (induction rules)
  case (Cons rule rules)
  have one: "a1 + (b1 + (a2 + (b2 + (a3 + b3)))) = add_mset x s" if "a1 + (a2 + a3) = {#x#}" "b1 + (b2 + b3) = s"
    for a1 a2 a3 b1 b2 b3 s :: "string multiset" and x
  proof -
    have "a1 + (b1 + (a2 + (b2 + (a3 + b3)))) = (a1 + (a2 + a3)) + (b1 + (b2 + b3))" by (simp add: ac_simps)
    then show ?thesis using that by simp
  qed
  show ?case
    using one [OF _ Cons.IH [unfolded Zone_IDs_def add_parts_def new_zone_def, simplified], of _ _ _ "tr_ID rule"]
      arg_cong [OF parts_ids [of lib opts rule], of mset] Cons.prems
    by (simp add: Zone_IDs_def add_parts_def new_zone_def)
qed (simp add: Zone_IDs_def add_parts_def new_zone_def)

lemma compileCORS_safe: "compileCORS lib opr = Inr c \<Longrightarrow> \<not> (cors_AllowAllOrigins c \<and> cors_AllowCredentials c)"
  by (auto simp: compileCORS_def Let_def split: option.splits if_splits)

lemma cors_part_safe: "rule' \<in> set (cors_part lib opts rule) \<Longrightarrow> \<not> (cors_AllowAllOrigins (cr_ops rule') \<and> cors_AllowCredentials (cr_ops rule'))"
  by (auto simp: cors_part_def rule_of_def split: sum.splits if_splits dest: compileCORS_safe [OF sym])

text \<open>C40. Compilation is all or nothing, and exact about what compiles: a set of documents gives a zone if and only if each of them
  is blank or decodes to at least one rule, and every rule has a phase, a mode, a filter and operations its phase admits.
  The zone then has every declared rule exactly once, each phase in order of priority, and no CORS
  rule that combines credentials with the wildcard origin, on which the CORS handler would panic.\<close>
theorem transform_all_or_nothing:
  "((\<exists>z. transform_Parse lib opts docs = Inr z) \<longleftrightarrow>
     (\<forall>doc \<in> set docs. trim_space doc = [] \<or>
        (\<exists>rules. tl_decode lib doc = Some rules \<and> rules \<noteq> [] \<and> (\<forall>rule \<in> set rules. valid_rule lib opts rule)))) \<and>
   (transform_Parse lib opts docs = Inr z \<longrightarrow>
     mset (Zone_IDs z) = mset (map tr_ID (declared_rules lib docs)) \<and>
     sorted (map cr_prio (z_reqRules z)) \<and> sorted (map cr_prio (z_respRules z)) \<and> sorted (map cr_prio (z_corsRules z)) \<and>
     (\<forall>rule \<in> set (z_corsRules z). \<not> (cors_AllowAllOrigins (cr_ops rule) \<and> cors_AllowCredentials (cr_ops rule))))"
proof (intro conjI impI)
  show "(\<exists>z. transform_Parse lib opts docs = Inr z) \<longleftrightarrow>
     (\<forall>doc \<in> set docs. trim_space doc = [] \<or>
        (\<exists>rules. tl_decode lib doc = Some rules \<and> rules \<noteq> [] \<and> (\<forall>rule \<in> set rules. valid_rule lib opts rule)))"
    unfolding transform_Parse_Inr declared_all unfolding list_all_iff good_doc_def by (auto, metis)
next
  assume "transform_Parse lib opts docs = Inr z"
  then have v: "list_all (valid_rule lib opts) (declared_rules lib docs)"
    and z: "z = sort_zone (add_parts lib opts (declared_rules lib docs) (new_zone opts))" by (simp_all add: transform_Parse_Inr)
  show "mset (Zone_IDs z) = mset (map tr_ID (declared_rules lib docs))"
    using add_parts_ids [OF v] by (simp add: z Zone_IDs_def sort_zone_def)
  show "sorted (map cr_prio (z_reqRules z))" "sorted (map cr_prio (z_respRules z))" "sorted (map cr_prio (z_corsRules z))"
    by (simp_all add: z sort_zone_def)
  show "\<forall>rule \<in> set (z_corsRules z). \<not> (cors_AllowAllOrigins (cr_ops rule) \<and> cors_AllowCredentials (cr_ops rule))"
    using cors_part_safe by (fastforce simp: z sort_zone_def add_parts_def new_zone_def)
qed

subsection \<open>Redirects\<close>

lemma compileReqOp_plain: "compileReqOp lib n i opr = Inr f \<Longrightarrow> op_Type opr \<noteq> ''redirect'' \<Longrightarrow> fst (f r u) = None"
  by (auto simp: compileReqOp_def compileRewritePath_def compileRewriteQuery_def split: if_splits option.splits)

lemma compileReqOp_redirect: "compileReqOp lib n i opr = Inr f \<Longrightarrow> op_Type opr = ''redirect'' \<Longrightarrow> n = 1 \<and> f = redirect_op opr"
  by (simp add: compileReqOp_def split: if_splits)

lemma run_ops_plain: "\<forall>f \<in> set fs. \<forall>r. fst (f r u) = None \<Longrightarrow> fst (run_ops fs u r) = None"
proof (induction fs arbitrary: r)
  case (Cons f fs)
  from Cons.prems have "fst (f r u) = None" by simp
  then obtain r' where "f r u = (None, r')" by (cases "f r u") auto
  then show ?case using Cons by simp
qed simp

lemma run_ops_redirect:
  assumes "compileReqOps lib ops = Inr fs" and "run_ops fs u r = (Some c, r')"
  shows "\<exists>opr. ops = [opr] \<and> op_Type opr = ''redirect'' \<and> c = (ReplaceAll (op_To opr) ''$uri'' u, redirect_status opr) \<and> r' = r"
proof -
  have "\<exists>opr \<in> set ops. op_Type opr = ''redirect''"
  proof (rule ccontr)
    assume "\<not> ?thesis"
    then have "\<forall>f \<in> set fs. \<forall>r. fst (f r u) = None"
      using sum_seq_set [OF assms(1) [unfolded compileReqOps_def]] compileReqOp_plain by meson
    then show False using run_ops_plain [of fs u r] assms(2) by simp
  qed
  then obtain opr where o: "opr \<in> set ops" "op_Type opr = ''redirect''" by blast
  have "list_all (valid_req_op lib (length ops)) ops" using ops_ok(1) [of lib ops] assms(1) by simp
  then have "length ops = 1" using o by (auto simp: list_all_iff valid_req_op_def)
  then have ops: "ops = [opr]" using o(1) by (cases ops) auto
  then obtain f where f: "compileReqOp lib 1 0 opr = Inr f" "fs = [f]"
    using assms(1) by (auto simp: compileReqOps_def split: sum.splits)
  then show ?thesis using compileReqOp_redirect [OF f(1) o(2)] assms(2) ops o(2) by (auto simp: redirect_op_def)
qed

lemma rewrite_redirect:
  "rewrite lib z u rules r = (Some c, r') \<Longrightarrow> \<exists>rule \<in> set rules. \<exists>r0. fires lib z r0 rule \<and> run_ops (cr_ops rule) u r0 = (Some c, r')"
  by (induction rules arbitrary: r) (auto split: if_splits prod.splits option.splits)


lemma req_rule_declared:
  assumes "transform_Parse lib opts docs = Inr z" and "rule \<in> set (z_reqRules z)"
  shows "\<exists>d \<in> set (declared_rules lib docs). tr_Phase d = ''request'' \<and> compileReqOps lib (tr_Ops d) = Inr (cr_ops rule) \<and>
    cr_shadow rule = (tr_Mode d = ''shadow'') \<and> cr_filter rule = declared_predicate lib opts d"
  using assms by (fastforce simp: transform_Parse_Inr sort_zone_def add_parts_def new_zone_def req_part_def rule_of_def split: sum.splits if_splits)

text \<open>C39. A redirect is the only effect of its rule and goes where the rule says about the original request: whenever a compiled
  zone redirects, some declared request rule has the redirect as its only operation, enforces, and its filter holds without
  error on the request as rewritten so far; the target is the declared one with every \<open>$uri\<close> replaced by the URI of the
  request as it arrived, whatever was rewritten before, and the status is the declared one or 302. The next
  handler has no part in it.\<close>
theorem redirect_uses_original_uri:
  assumes "transform_Parse lib opts docs = Inr z" and "Zone_ServeHandler lib z next r = Redirected r' target st"
  shows "(\<exists>d opr. d \<in> set (declared_rules lib docs) \<and> tr_Phase d = ''request'' \<and> tr_Mode d \<noteq> ''shadow'' \<and>
      tr_Ops d = [opr] \<and> op_Type opr = ''redirect'' \<and>
      (case declared_predicate lib opts d of None \<Rightarrow> True | Some p \<Rightarrow> tl_eval lib p (request_snapshot lib z r') = Some True) \<and>
      target = ReplaceAll (op_To opr) ''$uri'' (URL_RequestURI (rq_URL r)) \<and> st = redirect_status opr) \<and>
    Zone_ServeHandler lib z next' r = Redirected r' target st"
proof -
  obtain c r1 cache where q: "req_phase lib z (URL_RequestURI (rq_URL r)) (z_reqRules z) r None = (c, r1, cache)" by (metis prod_cases3)
  then have c: "c = Some (target, st)" "r1 = r'"
    using assms(2) by (auto simp: Zone_ServeHandler_def split_def Let_def split: option.splits)
  have "snapshot_ok lib z r None" by (simp add: snapshot_ok_def)
  from req_phase_rewrite [OF this, of "URL_RequestURI (rq_URL r)" "z_reqRules z"] q c
  have "rewrite lib z (URL_RequestURI (rq_URL r)) (z_reqRules z) r = (Some (target, st), r')" by simp
  from rewrite_redirect [OF this] obtain rule r0 where rule: "rule \<in> set (z_reqRules z)" "fires lib z r0 rule"
    "run_ops (cr_ops rule) (URL_RequestURI (rq_URL r)) r0 = (Some (target, st), r')" by blast
  from req_rule_declared [OF assms(1) rule(1)] obtain d where d: "d \<in> set (declared_rules lib docs)" "tr_Phase d = ''request''"
    "compileReqOps lib (tr_Ops d) = Inr (cr_ops rule)" "cr_shadow rule = (tr_Mode d = ''shadow'')" "cr_filter rule = declared_predicate lib opts d"
    by blast
  from run_ops_redirect [OF d(3) rule(3)] d rule(2) q c
  show ?thesis by (fastforce simp: fires_def Zone_ServeHandler_def)
qed

subsection \<open>Operations\<close>

lemma values_of_set_all:
  "distinct (map fst ps) \<Longrightarrow> values_of (fold (\<lambda>(k, v). AList.update k [v]) ps q) k =
     (case map_of ps k of Some v \<Rightarrow> [v] | None \<Rightarrow> values_of q k)"
proof (induction ps arbitrary: q)
  case (Cons p ps)
  then show ?case by (cases p) (auto simp: values_of_def update_conv' image_iff split: option.splits dest: map_of_SomeD)
qed (simp add: values_of_def)

lemma values_of_delete_all: "values_of (fold AList.delete ks q) k = (if k \<in> set ks then [] else values_of q k)"
  by (induction ks arbitrary: q) (auto simp: values_of_def delete_conv')

lemma wf_set_all: "wf_values q \<Longrightarrow> wf_values (fold (\<lambda>(k, v). AList.update k [v]) ps q)"
  by (induction ps arbitrary: q) (auto simp: wf_update)

lemma wf_delete_all: "wf_values q \<Longrightarrow> wf_values (fold AList.delete ks q)"
  by (induction ks arbitrary: q) (auto simp: wf_delete)

text \<open>C38. A query rewrite does to the decoded query exactly what the rule says, whatever bytes the names and values hold: the handler
  behind it reads back no value for a removed parameter, the one given value for a set one (removal wins), and what
  the client sent for every other; headers, path and everything else of the request stay as they were.\<close>
theorem rewrite_query_exact:
  assumes "compileReqOp lib n i opr = Inr f" and "op_Type opr = ''rewrite-query''" and "distinct (map fst (op_Query opr))"
  shows "\<exists>q. f r u = (None, r\<lparr>rq_URL := (rq_URL r)\<lparr>url_RawQuery := q\<rparr>\<rparr>) \<and>
    (\<forall>k. values_of (parse_query q) k =
       (if k \<in> set (op_RemoveQuery opr) then []
        else case map_of (op_Query opr) k of Some v \<Rightarrow> [v] | None \<Rightarrow> values_of (URL_Query (rq_URL r)) k))"
proof -
  define q where "q = fold AList.delete (op_RemoveQuery opr) (fold (\<lambda>(k, v). AList.update k [v]) (op_Query opr) (URL_Query (rq_URL r)))"
  have f: "f r u = (None, r\<lparr>rq_URL := (rq_URL r)\<lparr>url_RawQuery := Encode q\<rparr>\<rparr>)"
    using assms(1,2) by (auto simp: compileReqOp_def compileRewriteQuery_def rewrite_query_def q_def Let_def split: if_splits)
  have w: "wf_values q" by (simp add: q_def URL_Query_def wf_delete_all wf_set_all wf_parse_query)
  have "values_of (parse_query (Encode q)) k =
       (if k \<in> set (op_RemoveQuery opr) then []
        else case map_of (op_Query opr) k of Some v \<Rightarrow> [v] | None \<Rightarrow> values_of (URL_Query (rq_URL r)) k)" for k
    unfolding parse_query_Encode [OF w] using assms(3) by (simp add: q_def values_of_delete_all values_of_set_all)
  with f show ?thesis by blast
qed

text \<open>The header mutations and the status overrides among response operations.\<close>

definition mutations :: "respOp list \<Rightarrow> (Header \<Rightarrow> Header) list" where
  "mutations ops = concat (map (\<lambda>opr. case opr of Mutate f \<Rightarrow> [f] | SetStatus _ \<Rightarrow> []) ops)"

definition statuses :: "respOp list \<Rightarrow> int list" where
  "statuses ops = concat (map (\<lambda>opr. case opr of Mutate _ \<Rightarrow> [] | SetStatus st \<Rightarrow> [st]) ops)"

lemma intercept_loop_eq: "intercept_loop ops st h = (fold (\<lambda>f. f) (mutations ops) h, if statuses ops = [] then st else last (statuses ops))"
  by (induction ops st h rule: intercept_loop.induct) (simp_all add: mutations_def statuses_def)

lemma compileRespOp_status: "compileRespOp lib i opr = Inr (SetStatus st) \<Longrightarrow> 100 \<le> st \<and> st \<le> 599"
  by (auto simp: compileRespOp_def split: if_splits option.splits)

lemma zone_status:
  assumes "transform_Parse lib opts docs = Inr z" and "st \<in> set (statuses (respond lib z r))"
  shows "100 \<le> st \<and> st \<le> 599"
proof -
  from assms(2) obtain rule where rule: "rule \<in> set (z_respRules z)" "SetStatus st \<in> set (cr_ops rule)"
    by (auto simp: statuses_def respond_def split: respOp.splits)
  obtain d where "rule \<in> set (resp_part lib opts d)"
    using rule(1) assms(1) by (auto simp: transform_Parse_Inr sort_zone_def add_parts_def new_zone_def)
  then have "compileRespOps lib (tr_Ops d) = Inr (cr_ops rule)" by (auto simp: resp_part_def rule_of_def split: sum.splits if_splits)
  from sum_seq_set [OF this [unfolded compileRespOps_def] rule(2)] show ?thesis using compileRespOp_status by blast
qed

text \<open>The response of a compiled zone gets every header operation of the rules that fire, in order, whether it stands before
  or after a status override; the last override is the status that is written, always one of 100 to 599, and without
  an override the status of the upstream stays.\<close>
theorem transform_response_exact:
  assumes "transform_Parse lib opts docs = Inr z"
  shows "intercept_callback (respond lib z r) h =
      (fold (\<lambda>f. f) (mutations (respond lib z r)) h,
       if statuses (respond lib z r) = [] then None else Some (last (statuses (respond lib z r)))) \<and>
    (\<forall>st \<in> set (statuses (respond lib z r)). 100 \<le> st \<and> st \<le> 599)"
proof -
  have "\<forall>st \<in> set (statuses (respond lib z r)). 100 \<le> st \<and> st \<le> 599" using zone_status [OF assms] by blast
  moreover from this have "statuses (respond lib z r) \<noteq> [] \<Longrightarrow> 0 < last (statuses (respond lib z r))"
    using last_in_set by fastforce
  ultimately show ?thesis by (simp add: intercept_callback_def intercept_loop_eq)
qed


subsection \<open>Concrete zones\<close>

text \<open>Filters are paths, regular expressions are not used, and a handler reports the request URI it saw and the status.\<close>

definition demo_op :: "string \<Rightarrow> Op" where
  "demo_op ty = \<lparr>op_Type = ty, op_Name = [], op_Value = [], op_To = [], op_Path = [], op_Regex = [], op_Replace = [], op_Query = [],
     op_RemoveQuery = [], op_Status = 0, op_AllowOrigins = [], op_AllowMethods = [], op_AllowHeaders = [], op_ExposeHeaders = [],
     op_AllowCredentials = False, op_MaxAge = []\<rparr>"

definition demo_rule :: "string \<Rightarrow> string \<Rightarrow> string \<Rightarrow> int \<Rightarrow> Op \<Rightarrow> transform_Rule" where
  "demo_rule i phase flt prio opr =
     \<lparr>tr_ID = i, tr_Description = [], tr_Phase = phase, tr_Filter = flt, tr_Ops = [opr], tr_Mode = [], tr_Priority = prio\<rparr>"

definition demo_redirect :: "int \<Rightarrow> Op" where
  "demo_redirect st = (demo_op ''redirect'')\<lparr>op_To := ''https://x$uri'', op_Status := st\<rparr>"

definition demo_decode :: "string \<Rightarrow> transform_Rule list option" where
  "demo_decode doc =
     (if doc = ''good'' then
        Some [demo_rule ''go'' ''request'' ''/new'' 2 (demo_redirect 0),
              demo_rule ''path'' ''request'' [] 1 ((demo_op ''rewrite-path'')\<lparr>op_Path := ''/new''\<rparr>),
              demo_rule ''st'' ''response'' [] 0 ((demo_op ''set-status'')\<lparr>op_Status := 204\<rparr>)]
      else if doc = ''redirect42'' then Some [demo_rule ''r'' ''request'' [] 0 (demo_redirect 42)]
      else if doc = ''status42'' then Some [demo_rule ''r'' ''response'' [] 0 ((demo_op ''set-status'')\<lparr>op_Status := 42\<rparr>)]
      else None)"

definition demo_tlib :: "(string, string, unit, string list, unit, string \<times> int) transform_lib" where
  "demo_tlib = \<lparr>tl_decode = demo_decode, tl_newPredicate = (\<lambda>f cost macros. Some f), tl_newInput = (\<lambda>r country asn. url_Path (rq_URL r)),
     tl_eval = (\<lambda>p i. Some (p = i)), tl_compileRegex = (\<lambda>_. None), tl_replaceAll = (\<lambda>_ s _. s), tl_parseDuration = (\<lambda>_. None),
     tl_validName = (\<lambda>_. True), tl_validValue = (\<lambda>_. True), tl_allowOrigins = id, tl_cors = (\<lambda>c h. h),
     tl_intercept = (\<lambda>cb h r. case h r of (u, st) \<Rightarrow> (u, case snd (cb Map.empty) of None \<Rightarrow> st | Some st' \<Rightarrow> st'))\<rparr>"

definition demo_opts :: "unit transform_Options" where
  "demo_opts = \<lparr>opt_Country = None, opt_ASN = None, opt_FilterCostLimit = 0, opt_FilterDisableMacros = False\<rparr>"

definition demo_treq :: "unit treq" where
  "demo_treq = \<lparr>rq_Header = Map.empty,
     rq_URL = \<lparr>url_Scheme = [], url_Opaque = [], url_Path = ''/a b'', url_RawPath = [], url_ForceQuery = False, url_RawQuery = ''q=1''\<rparr>, rq_rest = ()\<rparr>"

definition demo_next :: "unit treq \<Rightarrow> string \<times> int" where
  "demo_next r = (URL_RequestURI (rq_URL r), 200)"

definition demo_zone :: "string \<Rightarrow> (string, string list, unit) transform_Zone" where
  "demo_zone doc = (case transform_Parse demo_tlib demo_opts [doc] of Inr z \<Rightarrow> z | Inl _ \<Rightarrow> new_zone demo_opts)"

definition demo_call :: "(unit, string \<times> int) outcome \<Rightarrow> redirect_call option" where
  "demo_call res = (case res of Redirected r target st \<Rightarrow> Some (target, st) | Served _ \<Rightarrow> None)"

lemma demo_parses: "\<not> isl (transform_Parse demo_tlib demo_opts [''good''])"
  by code_simp

lemma demo_zone_good: "transform_Parse demo_tlib demo_opts [''good''] = Inr (demo_zone ''good'')"
  using demo_parses by (auto simp: demo_zone_def split: sum.splits)

lemma demo_redirects: "demo_call (Zone_ServeHandler demo_tlib (demo_zone ''good'') demo_next demo_treq) = Some (''https://x/a%20b?q=1'', 302)"
  by code_simp

theorem redirect_uses_original_uri_witness:
  "\<exists>r' d opr. Zone_ServeHandler demo_tlib (demo_zone ''good'') demo_next demo_treq = Redirected r' ''https://x/a%20b?q=1'' 302 \<and>
     d \<in> set (declared_rules demo_tlib [''good'']) \<and> tr_Ops d = [opr] \<and>
     ''https://x/a%20b?q=1'' = ReplaceAll (op_To opr) ''$uri'' (URL_RequestURI (rq_URL demo_treq))"
proof -
  obtain r' where r': "Zone_ServeHandler demo_tlib (demo_zone ''good'') demo_next demo_treq = Redirected r' ''https://x/a%20b?q=1'' 302"
    using demo_redirects by (auto simp: demo_call_def split: outcome.splits)
  from redirect_uses_original_uri [OF demo_zone_good r'] r' show ?thesis by blast
qed

theorem transform_all_or_nothing_witness:
  "mset (Zone_IDs (demo_zone ''good'')) = mset (map tr_ID (declared_rules demo_tlib [''good''])) \<and>
   sorted (map cr_prio (z_reqRules (demo_zone ''good''))) \<and> Zone_IDs (demo_zone ''good'') = [''path'', ''go'', ''st'']"
proof (intro conjI)
  show "Zone_IDs (demo_zone ''good'') = [''path'', ''go'', ''st'']" by code_simp
qed (use transform_all_or_nothing [of demo_tlib demo_opts "[''good'']" "demo_zone ''good''"] demo_zone_good in blast)+

theorem transform_response_exact_witness:
  "snd (intercept_callback (respond demo_tlib (demo_zone ''good'') demo_treq) Map.empty) =
     Some (last (statuses (respond demo_tlib (demo_zone ''good'') demo_treq))) \<and>
   statuses (respond demo_tlib (demo_zone ''good'') demo_treq) = [204]"
proof
  show st: "statuses (respond demo_tlib (demo_zone ''good'') demo_treq) = [204]" by code_simp
  show "snd (intercept_callback (respond demo_tlib (demo_zone ''good'') demo_treq) Map.empty) =
     Some (last (statuses (respond demo_tlib (demo_zone ''good'') demo_treq)))"
    using transform_response_exact [OF demo_zone_good, of demo_treq Map.empty] by (simp add: st)
qed

definition demo_query :: Op where
  "demo_query = (demo_op ''rewrite-query'')\<lparr>op_Query := [(''a&b'', ''1;2'')], op_RemoveQuery := [''q'']\<rparr>"

theorem rewrite_query_exact_witness:
  "\<exists>q. snd (the (case compileReqOp demo_tlib 1 0 demo_query of Inr f \<Rightarrow> Some (f demo_treq []) | Inl _ \<Rightarrow> None)) =
       demo_treq\<lparr>rq_URL := (rq_URL demo_treq)\<lparr>url_RawQuery := q\<rparr>\<rparr> \<and>
     values_of (parse_query q) ''a&b'' = [''1;2''] \<and> values_of (parse_query q) ''q'' = []"
proof -
  have ty: "op_Type demo_query = ''rewrite-query''" "distinct (map fst (op_Query demo_query))"
    "op_RemoveQuery demo_query = [''q'']" "op_Query demo_query = [(''a&b'', ''1;2'')]"
    by (simp_all add: demo_query_def demo_op_def)
  have "\<not> isl (compileReqOp demo_tlib 1 0 demo_query)" by code_simp
  then obtain f where f: "compileReqOp demo_tlib 1 0 demo_query = Inr f" by (cases "compileReqOp demo_tlib 1 0 demo_query") auto
  from rewrite_query_exact [OF f ty(1,2), of demo_treq "[]"] obtain q where q: "f demo_treq [] = (None, demo_treq\<lparr>rq_URL := (rq_URL demo_treq)\<lparr>url_RawQuery := q\<rparr>\<rparr>)"
    "\<And>k. values_of (parse_query q) k = (if k \<in> set (op_RemoveQuery demo_query) then []
        else case map_of (op_Query demo_query) k of Some v \<Rightarrow> [v] | None \<Rightarrow> values_of (URL_Query (rq_URL demo_treq)) k)"
    by blast
  show ?thesis by (rule exI [of _ q]) (simp add: f q ty del: One_nat_def)
qed

text \<open>C1. The status of a redirect is not checked: a zone whose redirect has status 42 compiles and redirects with 42, for which
  \<^verbatim>\<open>net/http\<close> panics, while the same number in a status override is refused when the zone is compiled.\<close>
theorem redirect_status_unchecked:
  "transform_Parse demo_tlib demo_opts [''redirect42''] = Inr (demo_zone ''redirect42'') \<and>
   demo_call (Zone_ServeHandler demo_tlib (demo_zone ''redirect42'') demo_next demo_treq) = Some (''https://x/a%20b?q=1'', 42) \<and>
   isl (transform_Parse demo_tlib demo_opts [''status42''])"
proof (intro conjI)
  have "\<not> isl (transform_Parse demo_tlib demo_opts [''redirect42''])" by code_simp
  then show "transform_Parse demo_tlib demo_opts [''redirect42''] = Inr (demo_zone ''redirect42'')"
    by (auto simp: demo_zone_def split: sum.splits)
qed code_simp+

end
