(* ===== verification/Transform_Zones.thy ===== *)
theory Transform_Zones
  imports Transform_Rules Ingress_Routes
begin

section \<open>Where transform zones are mounted\<close>

text \<open>
  The middleware of \<^verbatim>\<open>controller_transform.go\<close> and \<^verbatim>\<open>plugin/transform.go\<close> around a compiled zone: the global set, the zone an Ingress refers to and
  the set written into an annotation. A middleware maps a handler to a handler; \<open>redirect\<close> is what \<^verbatim>\<open>http.Redirect\<close>
  does. Registry lookups happen per request, so the registry is an argument next to the request.

  The reload pass with \<^const>\<open>transform_Parse\<close> as parser is shown to keep exactly what a pass without fingerprints would.
\<close>

type_synonym ('p, 'o, 'x) transform_registry = "('p, 'o, 'x) transform_Zone option registry"

definition transform_mount ::
  "('p, 'i, 're, 'o, 'x, 'w) transform_lib \<Rightarrow> ('x treq \<Rightarrow> string \<Rightarrow> int \<Rightarrow> 'w) \<Rightarrow> ('p, 'o, 'x) transform_Zone option
    \<Rightarrow> ('x treq \<Rightarrow> 'w) \<Rightarrow> 'x treq \<Rightarrow> 'w" where
  "transform_mount lib redirect zone h r =
     (case zone of
        None \<Rightarrow> h r
      | Some z \<Rightarrow> (case Zone_ServeHandler lib z h r of Redirected r' target st \<Rightarrow> redirect r' target st | Served w \<Rightarrow> w))"

definition InitTransform :: "('p, 'o, 'x) transform_registry" where
  "InitTransform = \<lparr>global_inst = None, global_fp = [], zones = Map.empty, zone_fps = Map.empty\<rparr>"

definition GlobalTransform ::
  "bool \<Rightarrow> ('p, 'i, 're, 'o, 'x, 'w) transform_lib \<Rightarrow> ('x treq \<Rightarrow> string \<Rightarrow> int \<Rightarrow> 'w) \<Rightarrow> ('p, 'o, 'x) transform_registry
    \<Rightarrow> ('x treq \<Rightarrow> 'w) \<Rightarrow> 'x treq \<Rightarrow> 'w" where
  "GlobalTransform enabled lib redirect reg h = (if \<not> enabled then h else transform_mount lib redirect (global_inst reg) h)"

definition LookupTransformZone :: "('p, 'o, 'x) transform_registry \<Rightarrow> string \<Rightarrow> ('p, 'o, 'x) transform_Zone option" where
  "LookupTransformZone reg key = (case zones reg key of None \<Rightarrow> None | Some z \<Rightarrow> z)"

definition TransformZone ::
  "('p, 'i, 're, 'o, 'x, 'w) transform_lib \<Rightarrow> ('x treq \<Rightarrow> string \<Rightarrow> int \<Rightarrow> 'w) \<Rightarrow> ('p, 'o, 'x) transform_registry \<Rightarrow> Ingress
    \<Rightarrow> ('x treq \<Rightarrow> 'w) \<Rightarrow> 'x treq \<Rightarrow> 'w" where
  "TransformZone lib redirect reg ing h =
     (case ZoneKey (ing_namespace ing) (annotation ing ''parapet.moonrhythm.io/transform-zone'') of
        None \<Rightarrow> h
      | Some key \<Rightarrow> transform_mount lib redirect (LookupTransformZone reg key) h)"

definition Transform ::
  "('p, 'i, 're, 'o, 'x, 'w) transform_lib \<Rightarrow> 'x transform_Options \<Rightarrow> ('x treq \<Rightarrow> string \<Rightarrow> int \<Rightarrow> 'w) \<Rightarrow> Ingress
    \<Rightarrow> ('x treq \<Rightarrow> 'w) \<Rightarrow> 'x treq \<Rightarrow> 'w" where
  "Transform lib opts redirect ing h =
     (let doc = annotation ing ''parapet.moonrhythm.io/transform'' in
      if trim_space doc = [] then h
      else case transform_Parse lib opts [doc] of
        Inl _ \<Rightarrow> h
      | Inr z \<Rightarrow> if Zone_Empty z then h else transform_mount lib redirect (Some z) h)"

subsection \<open>A zone without firing rules is a pass-through\<close>

lemma mount_inert:
  assumes "\<forall>rule \<in> set (z_reqRules z). \<not> fires lib z r rule" and "\<forall>rule \<in> set (z_respRules z). \<not> fires lib z r rule"
    and "\<forall>rule \<in> set (z_corsRules z). \<not> fires lib z r rule"
  shows "transform_mount lib redirect (Some z) h r = h r"
proof -
  have "rewrite lib z u rules r = (None, r)" if "\<forall>rule \<in> set rules. \<not> fires lib z r rule" for u rules
    using that by (induction rules) auto
  then have "rewrite lib z u (z_reqRules z) r = (None, r)" for u using assms(1) by blast
  then have "req_phase lib z u (z_reqRules z) r None \<in> {(None, r, cache) | cache. snapshot_ok lib z r cache}" for u
    using req_phase_rewrite [of lib z r None u "z_reqRules z"] by (auto simp: snapshot_ok_def)
  then obtain cache where q: "req_phase lib z (URL_RequestURI (rq_URL r)) (z_reqRules z) r None = (None, r, cache)" "snapshot_ok lib z r cache" by blast
  have "filter (fires lib z r) (z_respRules z) = []" "filter (fires lib z r) (z_corsRules z) = []"
    using assms(2,3) by (simp_all add: filter_empty_conv)
  then show ?thesis
    using resp_phase_respond [OF q(2), of "z_respRules z"] cors_phase_around [of lib z r _ "rev (z_corsRules z)"]
    by (simp add: transform_mount_def Zone_ServeHandler_def q(1) split_def Let_def rev_filter [symmetric])
qed

text \<open>An inline set that does not compile, like one without rules, leaves traffic as it is.\<close>

lemma Transform_bad_passes: "isl (transform_Parse lib opts [annotation ing ''parapet.moonrhythm.io/transform'']) \<Longrightarrow> Transform lib opts redirect ing h = h"
  by (auto simp: Transform_def Let_def split: sum.splits)

subsection \<open>The reload pass refines a pass without fingerprints\<close>

definition parse_zone ::
  "('p, 'i, 're, 'o, 'x, 'w) transform_lib \<Rightarrow> 'x transform_Options \<Rightarrow> string list \<Rightarrow> ('p, 'o, 'x) transform_Zone option" where
  "parse_zone lib opts docs = (case transform_Parse lib opts docs of Inl _ \<Rightarrow> None | Inr z \<Rightarrow> Some z)"

definition spec_transform ::
  "(string list \<Rightarrow> 'z option) \<Rightarrow> string \<Rightarrow> configmap list \<Rightarrow> 'z option views \<Rightarrow> 'z option views" where
  "spec_transform parse pod cms s =
     (let gd = global_docs ctrl_featureLabelKeys transformLabelKey pod cms in
      \<lparr>gview = (if gd = [] then None else case parse gd of None \<Rightarrow> gview s | Some z \<Rightarrow> Some z),
       zview = (\<lambda>key. Option.bind (zone_docs ctrl_featureLabelKeys transformLabelKey cms key)
         (\<lambda>docs. case parse docs of None \<Rightarrow> zview s key | Some z \<Rightarrow> Some (Some z)))\<rparr>)"

text \<open>A stored fingerprint vouches for the compiled set next to it.\<close>

definition compiled_from :: "(string list \<Rightarrow> 'z option) \<Rightarrow> (string list \<Rightarrow> string) \<Rightarrow> string list set \<Rightarrow> 'z option registry \<Rightarrow> bool" where
  "compiled_from parse fp D r \<longleftrightarrow>
     (\<forall>docs \<in> D. fp docs = global_fp r \<longrightarrow>
        (if docs = [] then global_inst r = None else global_inst r \<noteq> None \<and> parse docs = global_inst r)) \<and>
     (\<forall>docs \<in> D. \<forall>key i. zones r key = Some i \<longrightarrow> fp docs = read_fp (zone_fps r) key \<longrightarrow> i \<noteq> None \<and> parse docs = i)"

lemma transform_pass:
  assumes c: "compiled_from parse (fingerprintDocs sha) D r" and inj: "inj_on (fingerprintDocs sha) D"
    and gd: "global_docs ctrl_featureLabelKeys transformLabelKey pod cms \<in> D"
    and zd: "ran (zone_docs ctrl_featureLabelKeys transformLabelKey cms) \<subseteq> D"
  shows "views_of (\<lambda>z. z) (reloadTransformDebounced True sha parse pod cms r) = spec_transform parse pod cms (views_of (\<lambda>z. z) r)" (is ?v)
    and "compiled_from parse (fingerprintDocs sha) D (reloadTransformDebounced True sha parse pod cms r)" (is ?c)
proof -
  let ?fp = "fingerprintDocs sha" and ?gd = "global_docs ctrl_featureLabelKeys transformLabelKey pod cms"
    and ?zd = "zone_docs ctrl_featureLabelKeys transformLabelKey cms" and ?r = "reloadTransformDebounced True sha parse pod cms r"
  have i: "docs = docs'" if "docs \<in> D" "docs' \<in> D" "?fp docs = ?fp docs'" for docs docs' using inj that by (auto dest: inj_onD)
  have z: "docs \<in> D" if "?zd key = Some docs" for key docs using zd that by (auto intro: ranI)
  have g: "global_inst ?r = (if ?gd = [] then None else case parse ?gd of None \<Rightarrow> global_inst r | Some z \<Rightarrow> Some z) \<and>
      (global_fp ?r = ?fp ?gd \<and> (?gd = [] \<or> parse ?gd \<noteq> None) \<or> global_fp ?r = global_fp r \<and> global_inst ?r = global_inst r)"
    using c gd by (auto simp: reloadTransformDebounced_def compiled_from_def Let_def split: option.splits)
  have zn: "zones ?r key = Option.bind (?zd key) (\<lambda>docs. case parse docs of None \<Rightarrow> zones r key | Some z \<Rightarrow> Some (Some z))" for key
    using c z [of key] by (cases "?zd key"; cases "zones r key")
      (auto simp: reloadTransformDebounced_def compiled_from_def Let_def split: option.splits)
  have zf: "\<exists>docs. ?zd key = Some docs \<and>
      (read_fp (zone_fps ?r) key = ?fp docs \<and> parse docs = i \<and> i \<noteq> None \<or> zones r key = Some i \<and> read_fp (zone_fps ?r) key = read_fp (zone_fps r) key)"
    if "zones ?r key = Some i" for key i
  proof -
    from that obtain ds where ds: "?zd key = Some ds" unfolding zn by (cases "?zd key") auto
    have v: "j \<noteq> None \<and> parse ds = j" if "zones r key = Some j" "?fp ds = read_fp (zone_fps r) key" for j
      using c z [OF ds] that by (auto simp: compiled_from_def)
    have f: "zone_fps ?r key = (case zones r key of
        Some z \<Rightarrow> if ?fp ds = read_fp (zone_fps r) key then Some (?fp ds)
          else (case parse ds of None \<Rightarrow> Some (read_fp (zone_fps r) key) | Some _ \<Rightarrow> Some (?fp ds))
      | None \<Rightarrow> map_option (\<lambda>_. ?fp ds) (parse ds))"
      by (simp add: reloadTransformDebounced_def Let_def ds split: option.split)
    show ?thesis using that v unfolding zn ds
      by (cases i; cases "zones r key"; cases "parse ds") (simp_all add: f ds read_fp_def)
  qed
  show ?v using conjunct1 [OF g] zn by (simp add: views_of_def spec_transform_def Let_def option.map_ident cong: option.case_cong)
  show ?c unfolding compiled_from_def
  proof (intro conjI ballI allI impI)
    fix docs assume "docs \<in> D" "?fp docs = global_fp ?r"
    from conjunct2 [OF g] show "if docs = [] then global_inst ?r = None else global_inst ?r \<noteq> None \<and> parse docs = global_inst ?r"
    proof
      assume "global_fp ?r = ?fp ?gd \<and> (?gd = [] \<or> parse ?gd \<noteq> None)"
      moreover from this have "docs = ?gd" using i [OF \<open>docs \<in> D\<close> gd] \<open>?fp docs = global_fp ?r\<close> by simp
      ultimately show ?thesis using conjunct1 [OF g] by auto
    next
      assume "global_fp ?r = global_fp r \<and> global_inst ?r = global_inst r"
      then show ?thesis using bspec [OF conjunct1 [OF c [unfolded compiled_from_def]] \<open>docs \<in> D\<close>] \<open>?fp docs = global_fp ?r\<close> by simp
    qed
  next
    fix docs key i assume d: "docs \<in> D" "zones ?r key = Some i" "?fp docs = read_fp (zone_fps ?r) key"
    from zf [OF d(2)] obtain ds where ds: "?zd key = Some ds"
      "read_fp (zone_fps ?r) key = ?fp ds \<and> parse ds = i \<and> i \<noteq> None \<or> zones r key = Some i \<and> read_fp (zone_fps ?r) key = read_fp (zone_fps r) key" by blast
    then show "i \<noteq> None" "parse docs = i" using d c i [OF d(1) z [OF ds(1)]] by (auto simp: compiled_from_def)
  qed
qed

text \<open>
  Over any run of reload passes on any contents of the watched store, what is mounted is what a pass that compiles every input would
  mount: a set that does not compile leaves the last good one, a removed one is dropped, and the fingerprints never
  change what serves, provided the hash separates the inputs seen.
\<close>

lemma reload_transform_refines:
  assumes "inj_on (fingerprintDocs sha) D" and "[] \<notin> fingerprintDocs sha ` D"
    and "\<forall>cms \<in> set run. global_docs ctrl_featureLabelKeys transformLabelKey pod cms \<in> D \<and>
      ran (zone_docs ctrl_featureLabelKeys transformLabelKey cms) \<subseteq> D"
  shows "views_of (\<lambda>z. z) (foldl (\<lambda>r cms. reloadTransformDebounced True sha (parse_zone lib opts) pod cms r) InitTransform run) =
    foldl (\<lambda>s cms. spec_transform (parse_zone lib opts) pod cms s) \<lparr>gview = None, zview = Map.empty\<rparr> run"
proof -
  have "views_of (\<lambda>z. z) (foldl (\<lambda>r cms. reloadTransformDebounced True sha (parse_zone lib opts) pod cms r) r run) =
      foldl (\<lambda>s cms. spec_transform (parse_zone lib opts) pod cms s) (views_of (\<lambda>z. z) r) run"
    if "compiled_from (parse_zone lib opts) (fingerprintDocs sha) D r" for r
    using assms(3) that
  proof (induction run arbitrary: r)
    case (Cons cms run)
    then show ?case using transform_pass [OF Cons.prems(2) assms(1), of pod cms] by simp
  qed simp
  moreover have "compiled_from (parse_zone lib opts) (fingerprintDocs sha) D InitTransform"
    using assms(2) by (auto simp: compiled_from_def InitTransform_def image_iff)
  ultimately show ?thesis by (simp add: views_of_def InitTransform_def)
qed

end
